(* ===== verification/Prelude.thy ===== *)
theory Prelude
  imports Main "HOL-Library.AList"
begin

text \<open>
  Shared vocabulary of the development: Go's \<open>time.Time\<close> and \<open>time.Duration\<close>, 64-bit signed
  arithmetic, the parts of \<open>strconv\<close> and \<open>fmt\<close> the code uses on counters and protocol lines, Go
  maps as association lists, and the lemma collections the components extend.

  A \<open>time.Time\<close> is the number of nanoseconds since Go's zero instant (1 January of year 1, UTC), so
  \<open>IsZero\<close> is equality with 0, \<open>Before\<close> and \<open>After\<close> are the order on integers and \<open>Add\<close> is
  addition. A \<open>time.Duration\<close> is a number of nanoseconds.
\<close>

named_theorems cache_simps \<open>unfolding rules of the cache backends\<close>
named_theorems store_simps \<open>unfolding rules of the refresh-token store\<close>
named_theorems session_simps \<open>unfolding rules of the session operations\<close>
named_theorems gomap_simps \<open>lookup and size rules for Go maps\<close>

section \<open>Time\<close>

type_synonym time = int
type_synonym duration = int

abbreviation IsZero :: "time \<Rightarrow> bool" where
  "IsZero t \<equiv> t = 0"

abbreviation Millisecond :: duration where
  "Millisecond \<equiv> 1000000"

abbreviation Second :: duration where
  "Second \<equiv> 1000000000"

abbreviation Minute :: duration where
  "Minute \<equiv> 60000000000"

abbreviation Hour :: duration where
  "Hour \<equiv> 3600000000000"

text \<open>Seconds from Go's zero instant to the Unix epoch; \<open>t.Unix()\<close> rounds down.\<close>

definition unix_epoch_seconds :: int where
  "unix_epoch_seconds = 62135596800"

definition Unix :: "time \<Rightarrow> int" where
  "Unix t = t div Second - unix_epoch_seconds"

section \<open>64-bit signed integers\<close>

definition MaxInt64 :: int where
  "MaxInt64 = 9223372036854775807"

definition MinInt64 :: int where
  "MinInt64 = - 9223372036854775808"

definition in_int64 :: "int \<Rightarrow> bool" where
  "in_int64 n \<longleftrightarrow> MinInt64 \<le> n \<and> n \<le> MaxInt64"

definition wrap64 :: "int \<Rightarrow> int" where
  "wrap64 n = (n + 9223372036854775808) mod 18446744073709551616 - 9223372036854775808"

lemma wrap64_id [simp]: "in_int64 n \<Longrightarrow> wrap64 n = n"
  by (simp add: wrap64_def in_int64_def MinInt64_def MaxInt64_def)

lemma wrap64_in_int64 [simp]: "in_int64 (wrap64 n)"
proof -
  have "0 \<le> (n + 9223372036854775808) mod 18446744073709551616"
    and "(n + 9223372036854775808) mod 18446744073709551616 < 18446744073709551616"
    by simp_all
  then show ?thesis
    unfolding wrap64_def in_int64_def MinInt64_def MaxInt64_def by linarith
qed

section \<open>Decimal printing and parsing\<close>

text \<open>
  \<open>strconv.FormatInt(n, 10)\<close> and \<open>strconv.Itoa\<close>; \<open>strconv.ParseInt(s, 10, 64)\<close>, which returns a
  value together with its error: 0 on a syntax error, the nearest bound on a range error. The scan
  stops at the first offending character, so a digit string that overflows before a bad character
  is a range error, as in the Go loop.
\<close>

definition digit_char :: "nat \<Rightarrow> char" where
  "digit_char d = char_of (48 + d)"

definition is_digit :: "char \<Rightarrow> bool" where
  "is_digit c \<longleftrightarrow> 48 \<le> (of_char c :: nat) \<and> (of_char c :: nat) \<le> 57"

definition digit_val :: "char \<Rightarrow> nat" where
  "digit_val c = of_char c - 48"

fun digits10 :: "nat \<Rightarrow> string" where
  "digits10 n = (if n < 10 then [digit_char n] else digits10 (n div 10) @ [digit_char (n mod 10)])"

declare digits10.simps [simp del]

definition FormatInt :: "int \<Rightarrow> string" where
  "FormatInt n = (if n < 0 then CHR ''-'' # digits10 (nat (- n)) else digits10 (nat n))"

datatype num_error = ErrSyntax | ErrRange

definition MaxUint64 :: nat where
  "MaxUint64 = 18446744073709551615"

fun parse_uint_loop :: "string \<Rightarrow> nat \<Rightarrow> num_error + nat" where
  "parse_uint_loop [] n = Inr n"
| "parse_uint_loop (c # cs) n =
     (if \<not> is_digit c then Inl ErrSyntax
      else if MaxUint64 div 10 + 1 \<le> n then Inl ErrRange
      else if MaxUint64 < n * 10 + digit_val c then Inl ErrRange
      else parse_uint_loop cs (n * 10 + digit_val c))"

definition ParseUint :: "string \<Rightarrow> num_error + nat" where
  "ParseUint s = (if s = [] then Inl ErrSyntax else parse_uint_loop s 0)"

definition parse_sign :: "string \<Rightarrow> bool \<times> string" where
  "parse_sign s =
     (case s of
        [] \<Rightarrow> (False, s)
      | c # cs \<Rightarrow> if c = CHR ''+'' then (False, cs)
                  else if c = CHR ''-'' then (True, cs) else (False, s))"

definition ParseInt :: "string \<Rightarrow> int \<times> num_error option" where
  "ParseInt s =
     (if s = [] then (0, Some ErrSyntax)
      else let (neg, ds) = parse_sign s in
        (case ParseUint ds of
           Inl ErrSyntax \<Rightarrow> (0, Some ErrSyntax)
         | Inl ErrRange \<Rightarrow> (if neg then MinInt64 else MaxInt64, Some ErrRange)
         | Inr un \<Rightarrow>
             if \<not> neg \<and> 9223372036854775808 \<le> un then (MaxInt64, Some ErrRange)
             else if neg \<and> 9223372036854775808 < un then (MinInt64, Some ErrRange)
             else (if neg then - int un else int un, None)))"

text \<open>
  \<open>fmt.Sscanf(s, "%d", &n)\<close> on an \<open>n\<close> that starts at 0: leading blanks are skipped (a newline is an
  error), then an optional sign and the longest run of digits is parsed; on any error \<open>n\<close> keeps 0.
\<close>

definition is_blank :: "char \<Rightarrow> bool" where
  "is_blank c \<longleftrightarrow> c = CHR '' '' \<or> c = CHR 0x09 \<or> c = CHR 0x0B \<or> c = CHR 0x0C \<or> c = CHR 0x0D"

definition scan_sign :: "string \<Rightarrow> string \<times> string" where
  "scan_sign s =
     (case s of
        [] \<Rightarrow> ([], s)
      | c # cs \<Rightarrow> if c = CHR ''+'' \<or> c = CHR ''-'' then ([c], cs) else ([], s))"

definition Sscanf_d :: "string \<Rightarrow> int" where
  "Sscanf_d s =
     (let (sg, rest) = scan_sign (dropWhile is_blank s);
          (n, err) = ParseInt (sg @ takeWhile is_digit rest)
      in case err of None \<Rightarrow> n | Some _ \<Rightarrow> 0)"

lemma digit_char_is_digit [simp]: "d < 10 \<Longrightarrow> is_digit (digit_char d)"
  by (simp add: is_digit_def digit_char_def)

lemma digit_val_digit_char [simp]: "d < 10 \<Longrightarrow> digit_val (digit_char d) = d"
  by (simp add: digit_val_def digit_char_def)

lemma digits10_digits: "c \<in> set (digits10 n) \<Longrightarrow> is_digit c"
proof (induction n rule: digits10.induct)
  case (1 n)
  then show ?case
    by (subst (asm) (2) digits10.simps) (auto split: if_splits)
qed

lemma digits10_nonempty [simp]: "digits10 n \<noteq> []"
  by (subst digits10.simps) simp

lemma hd_digits10_digit [simp]: "is_digit (hd (digits10 n))"
  by (rule digits10_digits [of _ n]) simp

lemma parse_uint_loop_append:
  assumes "parse_uint_loop xs a = Inr m"
  shows "parse_uint_loop (xs @ ys) a = parse_uint_loop ys m"
  using assms by (induction xs arbitrary: a) (auto split: if_splits)

lemma parse_uint_loop_digits10:
  "n \<le> MaxUint64 \<Longrightarrow> parse_uint_loop (digits10 n) 0 = Inr n"
proof (induction n rule: digits10.induct)
  case (1 n)
  show ?case
  proof (cases "n < 10")
    case True
    then show ?thesis
      by (subst digits10.simps) (simp add: MaxUint64_def)
  next
    case False
    with 1 have IH: "parse_uint_loop (digits10 (n div 10)) 0 = Inr (n div 10)" by simp
    have "n div 10 < MaxUint64 div 10 + 1" and "n div 10 * 10 + n mod 10 = n"
      using 1(2) div_le_mono [of n MaxUint64 10] by simp_all
    with False 1(2) show ?thesis
      by (subst digits10.simps) (simp add: parse_uint_loop_append [OF IH] mult.commute)
  qed
qed

lemma ParseUint_digits10: "n \<le> MaxUint64 \<Longrightarrow> ParseUint (digits10 n) = Inr n"
  by (simp add: ParseUint_def parse_uint_loop_digits10)

lemma is_digit_not_sign: "is_digit c \<Longrightarrow> c \<noteq> CHR ''+'' \<and> c \<noteq> CHR ''-''"
  by (auto simp: is_digit_def)

lemma parse_sign_digits10 [simp]: "parse_sign (digits10 n) = (False, digits10 n)"
  using hd_digits10_digit [of n] is_digit_not_sign [of "hd (digits10 n)"]
  by (cases "digits10 n") (auto simp: parse_sign_def)

lemma parse_sign_minus [simp]: "parse_sign (CHR ''-'' # s) = (True, s)"
  by (simp add: parse_sign_def)

text \<open>Printing then parsing a 64-bit integer gives it back.\<close>

lemma ParseInt_FormatInt [simp]:
  assumes "in_int64 n"
  shows "ParseInt (FormatInt n) = (n, None)"
proof (cases "n < 0")
  case True
  with assms have "nat (- n) \<le> MaxUint64" and "nat (- n) \<le> 9223372036854775808"
    by (auto simp: in_int64_def MinInt64_def MaxUint64_def)
  with True show ?thesis
    by (simp add: ParseInt_def FormatInt_def ParseUint_digits10)
next
  case False
  with assms have "nat n \<le> MaxUint64" and "nat n < 9223372036854775808"
    by (auto simp: in_int64_def MaxInt64_def MaxUint64_def)
  with False show ?thesis
    by (simp add: ParseInt_def FormatInt_def ParseUint_digits10)
qed

lemma FormatInt_inject: "in_int64 m \<Longrightarrow> in_int64 n \<Longrightarrow> FormatInt m = FormatInt n \<longleftrightarrow> m = n"
  by (metis ParseInt_FormatInt prod.inject)

lemma takeWhile_digits10 [simp]: "takeWhile is_digit (digits10 n) = digits10 n"
  by (simp add: digits10_digits takeWhile_eq_all_conv)

lemma is_digit_not_blank: "is_digit c \<Longrightarrow> \<not> is_blank c"
  by (auto simp: is_digit_def is_blank_def)

lemma dropWhile_blank_digits10 [simp]: "dropWhile is_blank (digits10 n) = digits10 n"
  using hd_digits10_digit [of n] is_digit_not_blank
  by (cases "digits10 n") auto

lemma scan_sign_digits10 [simp]: "scan_sign (digits10 n) = ([], digits10 n)"
  using hd_digits10_digit [of n] is_digit_not_sign [of "hd (digits10 n)"]
  by (cases "digits10 n") (auto simp: scan_sign_def)

lemma Sscanf_d_FormatInt [simp]:
  assumes "in_int64 n"
  shows "Sscanf_d (FormatInt n) = n"
proof (cases "n < 0")
  case True
  have "Sscanf_d (FormatInt n) = (case ParseInt (FormatInt n) of (m, e) \<Rightarrow> case e of None \<Rightarrow> m | Some _ \<Rightarrow> 0)"
    using True by (simp add: Sscanf_d_def FormatInt_def scan_sign_def is_blank_def)
  with assms show ?thesis by simp
next
  case False
  have "Sscanf_d (FormatInt n) = (case ParseInt (FormatInt n) of (m, e) \<Rightarrow> case e of None \<Rightarrow> m | Some _ \<Rightarrow> 0)"
    using False by (simp add: Sscanf_d_def FormatInt_def)
  with assms show ?thesis by simp
qed

lemma FormatInt_nonempty [simp]: "FormatInt n \<noteq> []"
  by (simp add: FormatInt_def)

text \<open>Closed instances the proofs and witnesses evaluate.\<close>

lemma FormatInt_small [simp]:
  "FormatInt 0 = ''0''" "FormatInt 1 = ''1''" "FormatInt 2 = ''2''" "FormatInt 3 = ''3''"
  by code_simp+

lemma in_int64_small [simp]:
  "in_int64 0" "in_int64 1" "in_int64 (numeral k) \<longleftrightarrow> (numeral k :: int) \<le> 9223372036854775807"
  by (simp_all add: in_int64_def MinInt64_def MaxInt64_def)

section \<open>Go maps\<close>

text \<open>
  A Go map is an association list with distinct keys: lookup is \<open>map_of\<close>, assignment
  \<open>AList.update\<close>, \<open>delete\<close> is \<open>AList.delete\<close>, \<open>len\<close> is \<open>length\<close>; a loop that deletes the
  entries satisfying a test is a filter. Every operation keeps the keys distinct.
\<close>

type_synonym ('k, 'v) gomap = "('k \<times> 'v) list"

definition gomap_wf :: "('k, 'v) gomap \<Rightarrow> bool" where
  "gomap_wf m \<longleftrightarrow> distinct (map fst m)"

lemma gomap_wf_Nil [simp]: "gomap_wf []"
  by (simp add: gomap_wf_def)

lemma gomap_wf_update [simp]: "gomap_wf m \<Longrightarrow> gomap_wf (AList.update k v m)"
  by (simp add: gomap_wf_def distinct_update)

lemma gomap_wf_delete [simp]: "gomap_wf m \<Longrightarrow> gomap_wf (AList.delete k m)"
  by (simp add: gomap_wf_def distinct_delete)

lemma gomap_wf_filter [simp]: "gomap_wf m \<Longrightarrow> gomap_wf (filter P m)"
  by (induction m) (auto simp: gomap_wf_def)

lemma map_of_AList_update [gomap_simps]: "map_of (AList.update k v m) = (map_of m)(k \<mapsto> v)"
  by (rule update_conv')

lemma map_of_AList_delete [gomap_simps]: "map_of (AList.delete k m) = (map_of m)(k := None)"
  by (rule delete_conv')

lemma map_of_filter_wf [gomap_simps]:
  "gomap_wf m \<Longrightarrow>
     map_of (filter P m) k = (case map_of m k of None \<Rightarrow> None | Some v \<Rightarrow> if P (k, v) then Some v else None)"
proof (induction m)
  case Nil
  then show ?case by simp
next
  case (Cons a m)
  have "map_of m (fst a) = None"
    using Cons.prems by (simp add: gomap_wf_def map_of_eq_None_iff)
  with Cons show ?case
    by (cases a) (auto simp: gomap_wf_def split: option.splits)
qed

lemma length_AList_update:
  "length (AList.update k v m) = (if map_of m k = None then Suc (length m) else length m)"
proof (induction m)
  case Nil
  then show ?case by simp
next
  case (Cons a m)
  then show ?case by (cases a) auto
qed

lemma length_AList_delete_le [simp]: "length (AList.delete k m) \<le> length m"
  by (simp add: AList.delete_eq)

lemma length_AList_delete_bound [simp]:
  "int (length m) \<le> n \<Longrightarrow> int (length (AList.delete k m)) \<le> n"
  using length_AList_delete_le [of k m] by linarith

lemma length_filter_bound [simp]:
  "int (length m) \<le> n \<Longrightarrow> int (length (filter P m)) \<le> n"
  using length_filter_le [of P m] by linarith

section \<open>Lists\<close>

lemma list_all_update: "list_all P xs \<Longrightarrow> P x \<Longrightarrow> list_all P (xs[i := x])"
  by (auto simp: list_all_iff dest!: set_update_subset_insert [THEN subsetD])

section \<open>Executions of a state machine\<close>

text \<open>
  The contract of an operation that keeps an invariant: \<open>exec\<close> performs one event, \<open>ok\<close> says which
  events an environment may issue. What one event keeps, every sequence of events keeps.
\<close>

locale step_invariant =
  fixes exec :: "'s \<Rightarrow> 'e \<Rightarrow> 's" and ok :: "'e \<Rightarrow> bool" and inv :: "'s \<Rightarrow> bool"
  assumes keeps: "inv s \<Longrightarrow> ok e \<Longrightarrow> inv (exec s e)"
begin

lemma run_keeps: "inv s \<Longrightarrow> list_all ok es \<Longrightarrow> inv (foldl exec s es)"
  by (induction es arbitrary: s) (auto intro: keeps)

end

end
