(* ===== verification/Cache.thy ===== *)
theory Cache
  imports Prelude
begin

text \<open>
  The pluggable key-value cache of \<open>internal/cache\<close>: the Go interface \<open>Cache\<close> as a record of
  operations over a backend state, the contract every backend keeps as the locale \<open>ttl_cache\<close>, and
  what a client may conclude from that contract alone (single use of a consumed key, exclusion by
  \<open>SetIfNotExists\<close>, exact counts inside one expiry window). The backends are in
  \<open>Memory_Cache\<close> and \<open>Postgres_Cache\<close>.

  An operation reads the clock once; the instant is its argument \<open>now\<close>.
\<close>

section \<open>The interface\<close>

text \<open>\<open>ErrNotFound\<close> and \<open>ErrCacheFull\<close> are the package's sentinels; any other failure of a backend
  (a refused connection, a failed statement) is \<open>ErrUnavailable\<close>.\<close>

datatype cache_error = ErrNotFound | ErrCacheFull | ErrUnavailable

record 's Cache =
  Get :: "'s \<Rightarrow> time \<Rightarrow> string \<Rightarrow> cache_error + string"
  Set :: "'s \<Rightarrow> time \<Rightarrow> string \<Rightarrow> string \<Rightarrow> duration \<Rightarrow> 's \<times> (cache_error + unit)"
  Delete :: "'s \<Rightarrow> time \<Rightarrow> string \<Rightarrow> 's \<times> (cache_error + unit)"
  GetAndDelete :: "'s \<Rightarrow> time \<Rightarrow> string \<Rightarrow> 's \<times> (cache_error + string)"
  SetIfNotExists :: "'s \<Rightarrow> time \<Rightarrow> string \<Rightarrow> string \<Rightarrow> duration \<Rightarrow> 's \<times> (cache_error + bool)"
  Increment :: "'s \<Rightarrow> time \<Rightarrow> string \<Rightarrow> duration \<Rightarrow> 's \<times> (cache_error + int)"
  Exists :: "'s \<Rightarrow> time \<Rightarrow> string \<Rightarrow> cache_error + bool"

section \<open>The contract\<close>

text \<open>
  A backend is observed through \<open>view\<close>: the value and the expiry instant stored under a key, expiry
  0 for none. An entry is live strictly before its expiry and dead strictly after it; at the expiry
  instant itself the backends differ (and the memory backend's own operations differ), so the
  contract leaves that instant open.
\<close>

type_synonym cache_entry = "(string \<times> time) option"

definition entry_live :: "cache_entry \<Rightarrow> time \<Rightarrow> bool" where
  "entry_live e now = (case e of None \<Rightarrow> False | Some (_, x) \<Rightarrow> x = 0 \<or> now < x)"

definition entry_dead :: "cache_entry \<Rightarrow> time \<Rightarrow> bool" where
  "entry_dead e now = (case e of None \<Rightarrow> True | Some (_, x) \<Rightarrow> x \<noteq> 0 \<and> x < now)"

definition expiry_of :: "time \<Rightarrow> duration \<Rightarrow> time" where
  "expiry_of now ttl = (if 0 < ttl then now + ttl else 0)"

text \<open>Write operations either take effect or, on an error, leave every entry as it was. A clock that
  stamps an expiry is past Go's zero instant, which stands for \<open>no expiry\<close>.\<close>

locale ttl_cache =
  fixes C :: "'s Cache"
    and view :: "'s \<Rightarrow> string \<Rightarrow> cache_entry"
    and inv :: "'s \<Rightarrow> bool"
  assumes get_live:
      "inv s \<Longrightarrow> view s k = Some (v, x) \<Longrightarrow> x = 0 \<or> now < x \<Longrightarrow>
         Get C s now k = Inr v \<or> Get C s now k = Inl ErrUnavailable"
    and get_dead:
      "inv s \<Longrightarrow> entry_dead (view s k) now \<Longrightarrow>
         Get C s now k = Inl ErrNotFound \<or> Get C s now k = Inl ErrUnavailable"
    and get_value: "inv s \<Longrightarrow> Get C s now k = Inr v \<Longrightarrow> \<exists>x. view s k = Some (v, x)"
    and set_ok:
      "inv s \<Longrightarrow> 0 < now \<Longrightarrow> Set C s now k v ttl = (s', Inr ()) \<Longrightarrow>
         inv s' \<and> view s' = (view s)(k \<mapsto> (v, expiry_of now ttl))"
    and set_err: "inv s \<Longrightarrow> Set C s now k v ttl = (s', Inl e) \<Longrightarrow> inv s' \<and> view s' = view s"
    and delete_ok: "inv s \<Longrightarrow> Delete C s now k = (s', Inr ()) \<Longrightarrow> inv s' \<and> view s' = (view s)(k := None)"
    and delete_err: "inv s \<Longrightarrow> Delete C s now k = (s', Inl e) \<Longrightarrow> inv s' \<and> view s' = view s"
    and take_ok:
      "inv s \<Longrightarrow> GetAndDelete C s now k = (s', Inr v) \<Longrightarrow>
         inv s' \<and> (\<exists>x. view s k = Some (v, x)) \<and> view s' = (view s)(k := None)"
    and take_err:
      "inv s \<Longrightarrow> GetAndDelete C s now k = (s', Inl e) \<Longrightarrow>
         inv s' \<and> view s' = view s \<and> (e = ErrUnavailable \<or> \<not> entry_live (view s k) now)"
    and setnx_true:
      "inv s \<Longrightarrow> 0 < now \<Longrightarrow> SetIfNotExists C s now k v ttl = (s', Inr True) \<Longrightarrow>
         inv s' \<and> \<not> entry_live (view s k) now \<and> view s' = (view s)(k \<mapsto> (v, expiry_of now ttl))"
    and setnx_false:
      "inv s \<Longrightarrow> SetIfNotExists C s now k v ttl = (s', Inr False) \<Longrightarrow>
         inv s' \<and> \<not> entry_dead (view s k) now \<and> view s' = view s"
    and setnx_err:
      "inv s \<Longrightarrow> SetIfNotExists C s now k v ttl = (s', Inl e) \<Longrightarrow> inv s' \<and> view s' = view s"
    and incr_live:
      "inv s \<Longrightarrow> view s k = Some (FormatInt n, x) \<Longrightarrow> x \<noteq> 0 \<Longrightarrow> now < x \<Longrightarrow>
         in_int64 n \<Longrightarrow> n < MaxInt64 \<Longrightarrow> Increment C s now k ttl = (s', Inr m) \<Longrightarrow>
         inv s' \<and> m = n + 1 \<and> view s' = (view s)(k \<mapsto> (FormatInt (n + 1), x))"
    and incr_dead:
      "inv s \<Longrightarrow> 0 < now \<Longrightarrow> entry_dead (view s k) now \<Longrightarrow> Increment C s now k ttl = (s', Inr m) \<Longrightarrow>
         inv s' \<and> m = 1 \<and> view s' = (view s)(k \<mapsto> (FormatInt 1, expiry_of now ttl))"
    and incr_err:
      "inv s \<Longrightarrow> Increment C s now k ttl = (s', Inl e) \<Longrightarrow> inv s' \<and> view s' = view s \<and> e \<noteq> ErrNotFound"
    and exists_iff:
      "inv s \<Longrightarrow> Exists C s now k =
         (case Get C s now k of Inr v \<Rightarrow> Inr True | Inl ErrNotFound \<Rightarrow> Inr False | Inl e \<Rightarrow> Inl e)"

section \<open>Runs of one operation\<close>

text \<open>A run of increments of one key at the given instants, with the counts it returned; it stops at
  the first error.\<close>

fun increments ::
  "'s Cache \<Rightarrow> 's \<Rightarrow> string \<Rightarrow> duration \<Rightarrow> time list \<Rightarrow> 's \<times> (cache_error + int list)" where
  "increments C s k ttl [] = (s, Inr [])"
| "increments C s k ttl (t # ts) =
     (case Increment C s t k ttl of
        (s', Inl e) \<Rightarrow> (s', Inl e)
      | (s', Inr n) \<Rightarrow>
          (case increments C s' k ttl ts of
             (s'', Inl e) \<Rightarrow> (s'', Inl e)
           | (s'', Inr ns) \<Rightarrow> (s'', Inr (n # ns))))"

section \<open>What a client may rely on\<close>

context ttl_cache
begin

text \<open>A key that was consumed cannot be consumed again: the OAuth state, reset-token and challenge
  paths rest on this.\<close>

lemma consumed_once:
  assumes "inv s" and "GetAndDelete C s t1 k = (s1, Inr v)"
  shows "\<forall>s2 w. GetAndDelete C s1 t2 k \<noteq> (s2, Inr w)"
    and "Get C s1 t2 k \<noteq> Inr w"
proof -
  from take_ok [OF assms] have s1: "inv s1" "view s1 k = None" by auto
  show "\<forall>s2 w. GetAndDelete C s1 t2 k \<noteq> (s2, Inr w)"
    using take_ok [OF s1(1)] s1(2) by fastforce
  show "Get C s1 t2 k \<noteq> Inr w"
    using get_value [OF s1(1)] s1(2) by fastforce
qed

text \<open>After \<open>SetIfNotExists\<close> reported that it stored the key, no later call reports so before the
  entry expires: the replay guards rest on this.\<close>

lemma setnx_excludes:
  assumes "inv s" and "0 < t1" and "SetIfNotExists C s t1 k v ttl = (s1, Inr True)"
    and "0 < ttl" and "0 < t2" and "t2 < t1 + ttl"
  shows "SetIfNotExists C s1 t2 k w ttl2 \<noteq> (s2, Inr True)"
proof
  assume "SetIfNotExists C s1 t2 k w ttl2 = (s2, Inr True)"
  moreover from setnx_true [OF assms(1,2,3)] assms(4)
  have "inv s1" and "view s1 k = Some (v, t1 + ttl)"
    by (auto simp: expiry_of_def)
  ultimately show False
    using setnx_true [of s1 t2] assms(5,6) by (fastforce simp: entry_live_def)
qed

lemma increments_live:
  assumes "inv s" and "view s k = Some (FormatInt n, x)" and "x \<noteq> 0"
    and "\<forall>t \<in> set ts. t < x"
    and "in_int64 n" and "0 \<le> n" and "n + int (length ts) \<le> MaxInt64"
    and "increments C s k ttl ts = (s', Inr ns)"
  shows "inv s' \<and> ns = map (\<lambda>i. n + 1 + int i) [0..<length ts] \<and>
         view s' = (view s)(k \<mapsto> (FormatInt (n + int (length ts)), x))"
  using assms
proof (induction ts arbitrary: s n ns)
  case Nil
  then show ?case by auto
next
  case (Cons t ts)
  obtain s1 r where step: "Increment C s t k ttl = (s1, r)" by fastforce
  from Cons.prems(8) step obtain m where r: "r = Inr m" by (cases r) auto
  with Cons.prems(8) step obtain ms where rest: "increments C s1 k ttl ts = (s', Inr ms)"
    and ns: "ns = m # ms"
    by (auto split: prod.splits sum.splits)
  from Cons.prems have "n < MaxInt64" and "t < x" by auto
  with Cons.prems step r incr_live [of s k n x t ttl s1 m]
  have s1: "inv s1" "m = n + 1" "view s1 = (view s)(k \<mapsto> (FormatInt (n + 1), x))" by auto
  have "in_int64 (n + 1)"
    using Cons.prems by (auto simp: in_int64_def MinInt64_def MaxInt64_def)
  with s1 Cons.prems rest Cons.IH [of s1 "n + 1" ms]
  have "inv s' \<and> ms = map (\<lambda>i. n + 1 + 1 + int i) [0..<length ts] \<and>
        view s' = (view s1)(k \<mapsto> (FormatInt (n + 1 + int (length ts)), x))" by auto
  moreover have "(n + 1) # map (\<lambda>i. n + 1 + 1 + int i) [0..<length ts] =
                 map (\<lambda>i. n + 1 + int i) [0..<length (t # ts)]"
    by (simp add: map_upt_Suc del: upt_Suc)
  ultimately show ?case
    using s1 ns by (auto simp: algebra_simps fun_upd_def)
qed

text \<open>Increments of one key inside the window its first increment opened return 1, 2, 3, \<open>\<dots>\<close>; the
  expiry the first one set is the expiry of the last.\<close>

lemma increments_count:
  assumes "inv s" and "entry_dead (view s k) t0" and "0 < ttl" and "0 < t0"
    and "\<forall>t \<in> set ts. t < t0 + ttl" and "int (length ts) < MaxInt64"
    and "increments C s k ttl (t0 # ts) = (s', Inr ns)"
  shows "inv s' \<and> ns = map (\<lambda>i. 1 + int i) [0..<Suc (length ts)] \<and>
         view s' = (view s)(k \<mapsto> (FormatInt (1 + int (length ts)), t0 + ttl))"
proof -
  obtain s1 r where step: "Increment C s t0 k ttl = (s1, r)" by fastforce
  from assms(7) step obtain m where r: "r = Inr m" by (cases r) auto
  with assms(7) step obtain ms where rest: "increments C s1 k ttl ts = (s', Inr ms)"
    and ns: "ns = m # ms"
    by (auto split: prod.splits sum.splits)
  from incr_dead [OF assms(1,4,2)] step r assms(3)
  have s1: "inv s1" "m = 1" "view s1 = (view s)(k \<mapsto> (FormatInt 1, t0 + ttl))"
    by (auto simp: expiry_of_def)
  have "inv s' \<and> ms = map (\<lambda>i. 1 + 1 + int i) [0..<length ts] \<and>
        view s' = (view s1)(k \<mapsto> (FormatInt (1 + int (length ts)), t0 + ttl))"
    using increments_live [OF s1(1) _ _ assms(5) _ _ _ rest, of 1] s1(3) assms(3,4,6) by auto
  moreover have "1 # map (\<lambda>i. 1 + 1 + int i) [0..<length ts] = map (\<lambda>i. 1 + int i) [0..<Suc (length ts)]"
    by (simp add: map_upt_Suc del: upt_Suc)
  ultimately show ?thesis using s1 ns by auto
qed

end

end
