(* ===== verification/Memory_Cache.thy ===== *)
theory Memory_Cache
  imports Cache
begin

text \<open>
  \<open>internal/cache/memory.go\<close>: the in-process cache with expiry, its entry cap and its sweeper. One
  definition per method; the mutex makes each method one atomic step. The state keeps the latch
  \<open>atCap\<close> (which only silences a repeated log line) and the closed \<open>done\<close> channel, after which the
  sweeper no longer runs. The theory ends with the interpretation of the cache contract.
\<close>

section \<open>State\<close>

record memEntry =
  me_value :: string
  me_expiresAt :: time

record MemoryCache =
  mc_data :: "(string, memEntry) gomap"
  mc_maxEntries :: int
  mc_atCap :: bool
  mc_done :: bool

definition memoryMaxEntries :: int where
  "memoryMaxEntries = 200000"

definition newMemoryCacheWithCap :: "int \<Rightarrow> MemoryCache" where
  "newMemoryCacheWithCap n = \<lparr>mc_data = [], mc_maxEntries = n, mc_atCap = False, mc_done = False\<rparr>"

definition NewMemoryCache :: MemoryCache where
  "NewMemoryCache = newMemoryCacheWithCap memoryMaxEntries"

section \<open>Operations\<close>

definition mem_admit :: "MemoryCache \<Rightarrow> string \<Rightarrow> MemoryCache \<times> bool" where
  "mem_admit m key =
     (if mc_maxEntries m \<le> 0 \<or> int (length (mc_data m)) < mc_maxEntries m then (m, True)
      else if map_of (mc_data m) key \<noteq> None then (m, True)
      else (m\<lparr>mc_atCap := True\<rparr>, False))"

text \<open>\<open>Get\<close>, \<open>GetAndDelete\<close> and \<open>Exists\<close> miss once the clock is after the expiry;
  \<open>SetIfNotExists\<close> and \<open>Increment\<close> hold the entry only while the clock is before it.\<close>

definition mem_expired :: "memEntry \<Rightarrow> time \<Rightarrow> bool" where
  "mem_expired e now \<longleftrightarrow> \<not> IsZero (me_expiresAt e) \<and> me_expiresAt e < now"

definition mem_holds :: "memEntry \<Rightarrow> time \<Rightarrow> bool" where
  "mem_holds e now \<longleftrightarrow> IsZero (me_expiresAt e) \<or> now < me_expiresAt e"

definition mem_Get :: "MemoryCache \<Rightarrow> time \<Rightarrow> string \<Rightarrow> cache_error + string" where
  "mem_Get m now key =
     (case map_of (mc_data m) key of
        None \<Rightarrow> Inl ErrNotFound
      | Some e \<Rightarrow> if mem_expired e now then Inl ErrNotFound else Inr (me_value e))"

definition mem_put :: "MemoryCache \<Rightarrow> string \<Rightarrow> string \<Rightarrow> time \<Rightarrow> MemoryCache" where
  "mem_put m key v x = m\<lparr>mc_data := AList.update key \<lparr>me_value = v, me_expiresAt = x\<rparr> (mc_data m)\<rparr>"

definition mem_Set ::
  "MemoryCache \<Rightarrow> time \<Rightarrow> string \<Rightarrow> string \<Rightarrow> duration \<Rightarrow> MemoryCache \<times> (cache_error + unit)" where
  "mem_Set m now key v ttl =
     (let x = (if 0 < ttl then now + ttl else 0); (m1, ok) = mem_admit m key
      in if \<not> ok then (m1, Inl ErrCacheFull) else (mem_put m1 key v x, Inr ()))"

definition mem_Delete :: "MemoryCache \<Rightarrow> time \<Rightarrow> string \<Rightarrow> MemoryCache \<times> (cache_error + unit)" where
  "mem_Delete m now key = (m\<lparr>mc_data := AList.delete key (mc_data m)\<rparr>, Inr ())"

definition mem_GetAndDelete ::
  "MemoryCache \<Rightarrow> time \<Rightarrow> string \<Rightarrow> MemoryCache \<times> (cache_error + string)" where
  "mem_GetAndDelete m now key =
     (case map_of (mc_data m) key of
        None \<Rightarrow> (m, Inl ErrNotFound)
      | Some e \<Rightarrow>
          if mem_expired e now then (m, Inl ErrNotFound)
          else (m\<lparr>mc_data := AList.delete key (mc_data m)\<rparr>, Inr (me_value e)))"

definition mem_SetIfNotExists ::
  "MemoryCache \<Rightarrow> time \<Rightarrow> string \<Rightarrow> string \<Rightarrow> duration \<Rightarrow> MemoryCache \<times> (cache_error + bool)" where
  "mem_SetIfNotExists m now key v ttl =
     (if (case map_of (mc_data m) key of None \<Rightarrow> False | Some e \<Rightarrow> mem_holds e now)
      then (m, Inr False)
      else let (m1, ok) = mem_admit m key in
        if \<not> ok then (m1, Inl ErrCacheFull)
        else (mem_put m1 key v (if 0 < ttl then now + ttl else 0), Inr True))"

text \<open>The stored count is parsed with its error dropped, so a value that is no number counts as 0 and
  a value out of range as the bound; the increment is 64-bit.\<close>

definition mem_Increment ::
  "MemoryCache \<Rightarrow> time \<Rightarrow> string \<Rightarrow> duration \<Rightarrow> MemoryCache \<times> (cache_error + int)" where
  "mem_Increment m now key ttl =
     (let (count, x) =
        (case map_of (mc_data m) key of
           Some e \<Rightarrow>
             if mem_holds e now then (fst (ParseInt (me_value e)), me_expiresAt e)
             else (0, if 0 < ttl then now + ttl else 0)
         | None \<Rightarrow> (0, if 0 < ttl then now + ttl else 0));
          (m1, ok) = mem_admit m key
      in if \<not> ok then (m1, Inl ErrCacheFull)
         else (mem_put m1 key (FormatInt (wrap64 (count + 1))) x, Inr (wrap64 (count + 1))))"

definition mem_Exists :: "MemoryCache \<Rightarrow> time \<Rightarrow> string \<Rightarrow> cache_error + bool" where
  "mem_Exists m now key =
     (case map_of (mc_data m) key of
        None \<Rightarrow> Inr False
      | Some e \<Rightarrow> if mem_expired e now then Inr False else Inr True)"

definition mem_Close :: "MemoryCache \<Rightarrow> MemoryCache" where
  "mem_Close m = m\<lparr>mc_done := True\<rparr>"

text \<open>One tick of the sweeper goroutine.\<close>

definition mem_cleanup :: "MemoryCache \<Rightarrow> time \<Rightarrow> MemoryCache" where
  "mem_cleanup m now =
     (if mc_done m then m
      else m\<lparr>mc_data := filter (\<lambda>(k, e). \<not> mem_expired e now) (mc_data m)\<rparr>)"

definition memory_cache :: "MemoryCache Cache" where
  "memory_cache =
     \<lparr>Get = mem_Get, Set = mem_Set, Delete = mem_Delete, GetAndDelete = mem_GetAndDelete,
      SetIfNotExists = mem_SetIfNotExists, Increment = mem_Increment, Exists = mem_Exists\<rparr>"

lemmas mem_op_defs [cache_simps] =
  mem_admit_def mem_Get_def mem_put_def mem_Set_def mem_Delete_def mem_GetAndDelete_def
  mem_SetIfNotExists_def mem_Increment_def mem_Exists_def mem_expired_def mem_holds_def

section \<open>Invariant\<close>

text \<open>Keys are distinct and, under a positive cap, the map never holds more entries than the cap.\<close>

definition mem_inv :: "MemoryCache \<Rightarrow> bool" where
  "mem_inv m \<longleftrightarrow>
     gomap_wf (mc_data m) \<and> (0 < mc_maxEntries m \<longrightarrow> int (length (mc_data m)) \<le> mc_maxEntries m)"

definition mem_view :: "MemoryCache \<Rightarrow> string \<Rightarrow> cache_entry" where
  "mem_view m k = map_option (\<lambda>e. (me_value e, me_expiresAt e)) (map_of (mc_data m) k)"

lemma mem_inv_new: "mem_inv (newMemoryCacheWithCap n)"
  by (simp add: mem_inv_def newMemoryCacheWithCap_def)

lemma mem_admit_cases:
  assumes "mem_admit m k = (m1, ok)"
  shows "mc_data m1 = mc_data m" and "mc_maxEntries m1 = mc_maxEntries m"
    and "ok \<Longrightarrow> map_of (mc_data m) k = None \<Longrightarrow> 0 < mc_maxEntries m \<Longrightarrow>
           int (length (mc_data m)) < mc_maxEntries m"
    and "\<not> ok \<Longrightarrow> map_of (mc_data m) k = None"
  using assms by (auto simp: mem_admit_def split: if_splits)

lemma mem_put_inv:
  assumes "mem_inv m" and "mem_admit m k = (m1, True)"
  shows "mem_inv (mem_put m1 k v x)" and "mem_view (mem_put m1 k v x) = (mem_view m)(k \<mapsto> (v, x))"
  using assms mem_admit_cases [OF assms(2)]
  by (auto simp: mem_inv_def mem_put_def mem_view_def gomap_simps length_AList_update fun_eq_iff)

lemma mem_admit_refused:
  assumes "mem_inv m" and "mem_admit m k = (m1, False)"
  shows "mem_inv m1" and "mem_view m1 = mem_view m"
  using assms mem_admit_cases [OF assms(2)] by (auto simp: mem_inv_def mem_view_def fun_eq_iff)

lemma mem_delete_inv:
  assumes "mem_inv m"
  shows "mem_inv (m\<lparr>mc_data := AList.delete k (mc_data m)\<rparr>)"
    and "mem_view (m\<lparr>mc_data := AList.delete k (mc_data m)\<rparr>) = (mem_view m)(k := None)"
  using assms
  by (auto simp: mem_inv_def mem_view_def gomap_simps fun_eq_iff)

lemma mem_cleanup_inv: "mem_inv m \<Longrightarrow> mem_inv (mem_cleanup m now)"
  by (auto simp: mem_inv_def mem_cleanup_def)

lemma mem_Close_inv: "mem_inv (mem_Close m) \<longleftrightarrow> mem_inv m"
  by (simp add: mem_inv_def mem_Close_def)

section \<open>The contract\<close>

lemma memory_cache_sel [simp]:
  "Get memory_cache = mem_Get" "Set memory_cache = mem_Set" "Delete memory_cache = mem_Delete"
  "GetAndDelete memory_cache = mem_GetAndDelete" "SetIfNotExists memory_cache = mem_SetIfNotExists"
  "Increment memory_cache = mem_Increment" "Exists memory_cache = mem_Exists"
  by (simp_all add: memory_cache_def)

lemma mem_view_Some:
  "mem_view m k = Some (v, x) \<longleftrightarrow> map_of (mc_data m) k = Some \<lparr>me_value = v, me_expiresAt = x\<rparr>"
  by (auto simp: mem_view_def)

lemma mem_Increment_live:
  assumes "mem_inv m" and "mem_view m k = Some (FormatInt n, x)" and "now < x \<or> x = 0"
    and "in_int64 n" and "n < MaxInt64"
  shows "mem_Increment m now k ttl = (mem_put m k (FormatInt (n + 1)) x, Inr (n + 1))"
proof -
  have "in_int64 (n + 1)"
    using assms(4,5) by (auto simp: in_int64_def)
  with assms show ?thesis
    by (auto simp: mem_Increment_def mem_view_Some mem_holds_def mem_admit_def)
qed

lemma mem_Increment_fresh:
  assumes "case map_of (mc_data m) k of None \<Rightarrow> True | Some e \<Rightarrow> \<not> mem_holds e now"
    and "mem_admit m k = (m1, True)"
  shows "mem_Increment m now k ttl = (mem_put m1 k (FormatInt 1) (expiry_of now ttl), Inr 1)"
  using assms by (auto simp: mem_Increment_def expiry_of_def split: option.splits)

lemma mem_Increment_refused:
  assumes "mem_admit m k = (m1, False)"
  shows "mem_Increment m now k ttl = (m1, Inl ErrCacheFull)"
  using assms by (auto simp: mem_Increment_def split: option.splits)

interpretation mc: ttl_cache memory_cache mem_view mem_inv
proof (unfold_locales, goal_cases)
  case (1 s k v x now)
  then show ?case by (auto simp: cache_simps mem_view_Some)
next
  case (2 s k now)
  then show ?case
    by (auto simp: cache_simps mem_view_def entry_dead_def split: option.splits)
next
  case (3 s now k v)
  then show ?case
    by (auto simp: mem_Get_def mem_view_def split: option.splits if_splits)
next
  case (4 s now k v ttl s')
  then show ?case
    using mem_put_inv by (auto simp: mem_Set_def expiry_of_def split: prod.splits if_splits)
next
  case (5 s now k v ttl s' e)
  then show ?case
    using mem_admit_refused by (auto simp: mem_Set_def split: prod.splits if_splits)
next
  case (6 s now k s')
  then show ?case using mem_delete_inv by (auto simp: mem_Delete_def)
next
  case (7 s now k s' e)
  then show ?case by (simp add: mem_Delete_def)
next
  case (8 s now k s' v)
  then show ?case
    using mem_delete_inv
    by (auto simp: mem_GetAndDelete_def mem_view_Some mem_view_def split: option.splits if_splits)
next
  case (9 s now k s' e)
  then show ?case
    by (auto simp: mem_GetAndDelete_def mem_expired_def entry_live_def mem_view_def
        split: option.splits if_splits)
next
  case (10 s now k v ttl s')
  then show ?case
    using mem_put_inv
    by (auto simp: mem_SetIfNotExists_def mem_holds_def entry_live_def mem_view_def expiry_of_def
        split: option.splits if_splits prod.splits)
next
  case (11 s now k v ttl s')
  then show ?case
    by (auto simp: mem_SetIfNotExists_def mem_holds_def entry_dead_def mem_view_def
        split: option.splits if_splits prod.splits)
next
  case (12 s now k v ttl s' e)
  then show ?case
    using mem_admit_refused
    by (auto simp: mem_SetIfNotExists_def split: option.splits if_splits prod.splits)
next
  case (13 s k n x now ttl s' m)
  then have "mem_admit s k = (s, True)"
    by (auto simp: mem_admit_def mem_view_Some)
  with 13 show ?case
    using mem_Increment_live [of s k n x now ttl] mem_put_inv [of s k s] by auto
next
  case (14 s now k ttl s' m)
  have fresh: "case map_of (mc_data s) k of None \<Rightarrow> True | Some e \<Rightarrow> \<not> mem_holds e now"
    using 14 by (auto simp: entry_dead_def mem_view_def mem_holds_def split: option.splits)
  obtain m1 ok where adm: "mem_admit s k = (m1, ok)" by fastforce
  with 14 have "ok" by (cases ok) (auto simp: mem_Increment_refused)
  with adm 14 mem_Increment_fresh [OF fresh, of m1 ttl] mem_put_inv [of s k m1] show ?case by auto
next
  case (15 s now k ttl s' e)
  obtain m1 ok where adm: "mem_admit s k = (m1, ok)" by fastforce
  with 15 have "\<not> ok" by (auto simp: mem_Increment_def split: option.splits if_splits)
  with adm 15 mem_admit_refused [of s k m1] show ?case by (auto simp: mem_Increment_refused)
next
  case (16 s now k)
  then show ?case
    by (auto simp: mem_Exists_def mem_Get_def split: option.splits)
qed

section \<open>Runs of the cache\<close>

text \<open>The calls that write, and the sweeper's tick, each at an instant.\<close>

datatype mem_op =
    MSet string string duration
  | MDelete string
  | MGetAndDelete string
  | MSetIfNotExists string string duration
  | MIncrement string duration
  | MCleanup
  | MClose

fun mem_exec :: "MemoryCache \<Rightarrow> time \<times> mem_op \<Rightarrow> MemoryCache" where
  "mem_exec m (now, MSet k v ttl) = fst (mem_Set m now k v ttl)"
| "mem_exec m (now, MDelete k) = fst (mem_Delete m now k)"
| "mem_exec m (now, MGetAndDelete k) = fst (mem_GetAndDelete m now k)"
| "mem_exec m (now, MSetIfNotExists k v ttl) = fst (mem_SetIfNotExists m now k v ttl)"
| "mem_exec m (now, MIncrement k ttl) = fst (mem_Increment m now k ttl)"
| "mem_exec m (now, MCleanup) = mem_cleanup m now"
| "mem_exec m (now, MClose) = mem_Close m"

lemma mem_write_inv:
  assumes "mem_inv m" and "mem_admit m k = (m1, ok)"
  shows "mem_inv m1" and "ok \<Longrightarrow> mem_inv (mem_put m1 k v x)"
  using assms mem_admit_cases [OF assms(2)] mem_put_inv(1) [OF assms(1), of k m1 v x]
  by (auto simp: mem_inv_def)

lemma mem_exec_inv: "mem_inv m \<Longrightarrow> mem_inv (mem_exec m (now, op))"
proof (cases op)
  case (MGetAndDelete k)
  assume "mem_inv m"
  with MGetAndDelete show ?thesis
    using mem_delete_inv(1) by (auto simp: mem_GetAndDelete_def split: option.splits)
qed (auto simp: mem_Set_def mem_SetIfNotExists_def mem_Increment_def mem_Delete_def
        mem_write_inv mem_delete_inv mem_cleanup_inv mem_Close_inv split: prod.splits option.splits)

lemma mem_exec_cap [simp]: "mc_maxEntries (mem_exec m (now, op)) = mc_maxEntries m"
  by (cases op) (auto simp: cache_simps mem_cleanup_def mem_Close_def Let_def split: option.splits prod.splits)

lemma mem_run_inv:
  "mem_inv m \<Longrightarrow> mem_inv (foldl mem_exec m ops) \<and> mc_maxEntries (foldl mem_exec m ops) = mc_maxEntries m"
proof (induction ops arbitrary: m)
  case Nil
  then show ?case by simp
next
  case (Cons a ops)
  then show ?case using mem_exec_inv [of m "fst a" "snd a"] by (cases a) auto
qed

text \<open>Whatever sequence of writes, deletions, sweeps and a close a caller issues against a fresh
  memory cache with a positive cap, the number of entries never passes the cap and no key is stored
  twice.\<close>

theorem memory_cache_never_passes_cap:
  assumes "0 < cap"
  shows "int (length (mc_data (foldl mem_exec (newMemoryCacheWithCap cap) ops))) \<le> cap \<and>
         distinct (map fst (mc_data (foldl mem_exec (newMemoryCacheWithCap cap) ops)))"
proof -
  have "mc_maxEntries (newMemoryCacheWithCap cap) = cap"
    by (simp add: newMemoryCacheWithCap_def)
  with mem_run_inv [OF mem_inv_new, of cap ops] assms show ?thesis
    by (auto simp: mem_inv_def gomap_wf_def)
qed

theorem memory_cache_never_passes_cap_witness:
  "int (length (mc_data (foldl mem_exec (newMemoryCacheWithCap 2)
     [(5, MIncrement ''a'' 10), (6, MSet ''b'' ''x'' 0), (7, MIncrement ''c'' 10)]))) \<le> 2"
  using memory_cache_never_passes_cap [of 2
     "[(5, MIncrement ''a'' 10), (6, MSet ''b'' ''x'' 0), (7, MIncrement ''c'' 10)]"] by simp

text \<open>At the cap a key that is not stored is refused with \<open>ErrCacheFull\<close> by every writing call and
  no entry changes, while a stored key is still admitted, so a flood of new keys cannot evict a
  counter that is already there.\<close>

theorem memory_cache_at_cap_refuses_new_keys:
  assumes "0 < mc_maxEntries m" and "mc_maxEntries m \<le> int (length (mc_data m))"
    and "map_of (mc_data m) k = None" and "map_of (mc_data m) k' = Some e"
  shows "snd (mem_Set m now k v ttl) = Inl ErrCacheFull \<and>
         snd (mem_SetIfNotExists m now k v ttl) = Inl ErrCacheFull \<and>
         snd (mem_Increment m now k ttl) = Inl ErrCacheFull \<and>
         mc_data (fst (mem_Set m now k v ttl)) = mc_data m \<and>
         mc_data (fst (mem_SetIfNotExists m now k v ttl)) = mc_data m \<and>
         mc_data (fst (mem_Increment m now k ttl)) = mc_data m \<and>
         snd (mem_Set m now k' v ttl) = Inr () \<and>
         (\<exists>n. snd (mem_Increment m now k' ttl) = Inr n)"
  using assms by (auto simp: cache_simps Let_def)

definition full_cache :: MemoryCache where
  "full_cache = foldl mem_exec (newMemoryCacheWithCap 1) [(5, MIncrement ''a'' 10)]"

theorem memory_cache_at_cap_refuses_new_keys_witness:
  "snd (mem_Increment full_cache 6 ''b'' 10) = Inl ErrCacheFull \<and>
   (\<exists>n. snd (mem_Increment full_cache 6 ''a'' 10) = Inr n)"
proof -
  have "0 < mc_maxEntries full_cache" and "mc_maxEntries full_cache \<le> int (length (mc_data full_cache))"
    and "map_of (mc_data full_cache) ''b'' = None" and "\<exists>e. map_of (mc_data full_cache) ''a'' = Some e"
    by (simp_all add: full_cache_def newMemoryCacheWithCap_def cache_simps Let_def)
  with memory_cache_at_cap_refuses_new_keys [of full_cache "''b''" "''a''" _ 6 _ 10]
  show ?thesis by blast
qed

text \<open>The sweeper removes only what no reader can see: a key looked up at or after the tick reads
  the same with and without it.\<close>

theorem memory_cache_sweep_is_invisible:
  assumes "mem_inv m" and "now \<le> t"
  shows "mem_Get (mem_cleanup m now) t k = mem_Get m t k \<and>
         mem_Exists (mem_cleanup m now) t k = mem_Exists m t k \<and>
         snd (mem_GetAndDelete (mem_cleanup m now) t k) = snd (mem_GetAndDelete m t k)"
  using assms
  by (auto simp: mem_Get_def mem_Exists_def mem_GetAndDelete_def mem_cleanup_def mem_inv_def
      mem_expired_def gomap_simps split: option.splits)

theorem memory_cache_sweep_is_invisible_witness:
  "mem_Get (mem_cleanup full_cache 20) 21 ''a'' = mem_Get full_cache 21 ''a''"
proof -
  have "mem_inv full_cache"
    by (simp add: full_cache_def mem_inv_def newMemoryCacheWithCap_def cache_simps Let_def gomap_wf_def)
  then show ?thesis using memory_cache_sweep_is_invisible [of full_cache 20 21] by simp
qed

text \<open>Increments of one key of the memory cache inside the window its first increment opened
  return exactly 1, 2, 3 and so on, and the last one leaves the expiry the first one set: the window
  is fixed, not sliding.\<close>

theorem memory_counter_counts_a_fixed_window:
  assumes "mem_inv m" and "entry_dead (mem_view m k) t0" and "0 < ttl" and "0 < t0"
    and "\<forall>t \<in> set ts. t < t0 + ttl" and "int (length ts) < MaxInt64"
    and "increments memory_cache m k ttl (t0 # ts) = (m', Inr ns)"
  shows "ns = map (\<lambda>i. 1 + int i) [0..<Suc (length ts)] \<and>
         mem_view m' = (mem_view m)(k \<mapsto> (FormatInt (1 + int (length ts)), t0 + ttl))"
  using mc.increments_count [OF assms] by blast

theorem memory_counter_counts_a_fixed_window_witness:
  "\<exists>m' ns. increments memory_cache NewMemoryCache ''k'' 100 [10, 20, 109] = (m', Inr ns) \<and>
     ns = [1, 2, 3] \<and> mem_view m' ''k'' = Some (''3'', 110)"
proof -
  obtain m' ns where run: "increments memory_cache NewMemoryCache ''k'' 100 [10, 20, 109] = (m', Inr ns)"
    by (simp add: NewMemoryCache_def newMemoryCacheWithCap_def memoryMaxEntries_def cache_simps Let_def
        ParseInt_FormatInt [of 1, simplified] ParseInt_FormatInt [of 2, simplified])
  have "mem_inv NewMemoryCache" and "entry_dead (mem_view NewMemoryCache ''k'') 10"
    by (simp_all add: NewMemoryCache_def mem_inv_new)
      (simp add: newMemoryCacheWithCap_def mem_view_def entry_dead_def)
  from memory_counter_counts_a_fixed_window [OF this _ _ _ _ run] run show ?thesis
    by (simp add: MaxInt64_def upt_rec)
qed

end
