(* ===== verification/Postgres_Cache.thy ===== *)
theory Postgres_Cache
  imports Cache
begin

text \<open>
  \<open>internal/cache/postgres.go\<close>: the cache kept in the table \<open>auth.cache\<close>. Each method is one SQL
  statement, modelled as a function on the table (an association list keyed by the primary key);
  a NULL expiry is \<open>None\<close>. A pool that cannot answer makes every statement fail. \<open>NOW()\<close> and the
  process clock are one clock. The cast \<open>text::bigint\<close> is PostgreSQL's, so it is an argument of
  \<open>pg_Increment\<close>; the locale \<open>pg_cast\<close> states what the code needs of it.
\<close>

section \<open>State\<close>

record pg_row =
  pr_value :: string
  pr_expires :: "time option"

record PostgresCache =
  pc_rows :: "(string, pg_row) gomap"
  pc_up :: bool
  pc_done :: bool

definition pg_ttl :: "time \<Rightarrow> duration \<Rightarrow> time option" where
  "pg_ttl now ttl = (if 0 < ttl then Some (now + ttl) else None)"

definition pg_live :: "pg_row \<Rightarrow> time \<Rightarrow> bool" where
  "pg_live r now = (case pr_expires r of None \<Rightarrow> True | Some x \<Rightarrow> now < x)"

section \<open>Operations\<close>

definition pg_Get :: "PostgresCache \<Rightarrow> time \<Rightarrow> string \<Rightarrow> cache_error + string" where
  "pg_Get p now key =
     (if \<not> pc_up p then Inl ErrUnavailable
      else case map_of (pc_rows p) key of
        None \<Rightarrow> Inl ErrNotFound
      | Some r \<Rightarrow> if pg_live r now then Inr (pr_value r) else Inl ErrNotFound)"

definition pg_put :: "PostgresCache \<Rightarrow> string \<Rightarrow> string \<Rightarrow> time option \<Rightarrow> PostgresCache" where
  "pg_put p key v x = p\<lparr>pc_rows := AList.update key \<lparr>pr_value = v, pr_expires = x\<rparr> (pc_rows p)\<rparr>"

definition pg_Set ::
  "PostgresCache \<Rightarrow> time \<Rightarrow> string \<Rightarrow> string \<Rightarrow> duration \<Rightarrow> PostgresCache \<times> (cache_error + unit)" where
  "pg_Set p now key v ttl =
     (if \<not> pc_up p then (p, Inl ErrUnavailable) else (pg_put p key v (pg_ttl now ttl), Inr ()))"

definition pg_Delete :: "PostgresCache \<Rightarrow> time \<Rightarrow> string \<Rightarrow> PostgresCache \<times> (cache_error + unit)" where
  "pg_Delete p now key =
     (if \<not> pc_up p then (p, Inl ErrUnavailable)
      else (p\<lparr>pc_rows := AList.delete key (pc_rows p)\<rparr>, Inr ()))"

definition pg_GetAndDelete ::
  "PostgresCache \<Rightarrow> time \<Rightarrow> string \<Rightarrow> PostgresCache \<times> (cache_error + string)" where
  "pg_GetAndDelete p now key =
     (if \<not> pc_up p then (p, Inl ErrUnavailable)
      else case map_of (pc_rows p) key of
        None \<Rightarrow> (p, Inl ErrNotFound)
      | Some r \<Rightarrow>
          if pg_live r now then (p\<lparr>pc_rows := AList.delete key (pc_rows p)\<rparr>, Inr (pr_value r))
          else (p, Inl ErrNotFound))"

text \<open>The upsert inserts a missing row and overwrites one whose expiry has passed; otherwise it
  affects no row.\<close>

definition pg_SetIfNotExists ::
  "PostgresCache \<Rightarrow> time \<Rightarrow> string \<Rightarrow> string \<Rightarrow> duration \<Rightarrow> PostgresCache \<times> (cache_error + bool)" where
  "pg_SetIfNotExists p now key v ttl =
     (if \<not> pc_up p then (p, Inl ErrUnavailable)
      else case map_of (pc_rows p) key of
        None \<Rightarrow> (pg_put p key v (pg_ttl now ttl), Inr True)
      | Some r \<Rightarrow>
          if pg_live r now then (p, Inr False)
          else (pg_put p key v (pg_ttl now ttl), Inr True))"

text \<open>A row that is still live is counted up and keeps its expiry, except that a row with no expiry
  takes the new one; a value the cast refuses, or whose successor is no \<open>bigint\<close>, is an error of the
  statement.\<close>

definition pg_Increment ::
  "(string \<Rightarrow> int option) \<Rightarrow> PostgresCache \<Rightarrow> time \<Rightarrow> string \<Rightarrow> duration \<Rightarrow>
     PostgresCache \<times> (cache_error + int)" where
  "pg_Increment cast p now key ttl =
     (if \<not> pc_up p then (p, Inl ErrUnavailable)
      else case map_of (pc_rows p) key of
        None \<Rightarrow> (pg_put p key (FormatInt 1) (pg_ttl now ttl), Inr 1)
      | Some r \<Rightarrow>
          if \<not> pg_live r now then (pg_put p key (FormatInt 1) (pg_ttl now ttl), Inr 1)
          else (case cast (pr_value r) of
                  None \<Rightarrow> (p, Inl ErrUnavailable)
                | Some n \<Rightarrow>
                    if \<not> in_int64 (n + 1) then (p, Inl ErrUnavailable)
                    else (pg_put p key (FormatInt (n + 1))
                            (case pr_expires r of Some x \<Rightarrow> Some x | None \<Rightarrow> pg_ttl now ttl),
                          Inr (n + 1))))"

definition pg_Exists :: "PostgresCache \<Rightarrow> time \<Rightarrow> string \<Rightarrow> cache_error + bool" where
  "pg_Exists p now key =
     (case pg_Get p now key of
        Inl e \<Rightarrow> if e = ErrNotFound then Inr False else Inl e
      | Inr _ \<Rightarrow> Inr True)"

definition pg_Close :: "PostgresCache \<Rightarrow> PostgresCache" where
  "pg_Close p = p\<lparr>pc_done := True\<rparr>"

text \<open>
  The sweep deletes expired rows in batches of at most \<open>pgSweepBatch\<close>, at most
  \<open>pgSweepMaxBatches\<close> of them, and stops after a batch that was not full. The sub-select has no
  order; the model takes the rows in table order.
\<close>

definition pgSweepBatch :: nat where
  "pgSweepBatch = 2000"

definition pgSweepMaxBatches :: nat where
  "pgSweepMaxBatches = 20"

definition pg_reap_batch :: "nat \<Rightarrow> time \<Rightarrow> (string, pg_row) gomap \<Rightarrow> (string, pg_row) gomap \<times> nat" where
  "pg_reap_batch batch now rows =
     (let ks = take batch (map fst (filter (\<lambda>(k, r). \<not> pg_live r now) rows))
      in (filter (\<lambda>(k, r). k \<notin> set ks) rows, length ks))"

fun pg_reap_loop :: "nat \<Rightarrow> nat \<Rightarrow> time \<Rightarrow> PostgresCache \<Rightarrow> PostgresCache" where
  "pg_reap_loop 0 batch now p = p"
| "pg_reap_loop (Suc i) batch now p =
     (if pc_done p \<or> \<not> pc_up p then p
      else let (rows, n) = pg_reap_batch batch now (pc_rows p); p' = p\<lparr>pc_rows := rows\<rparr>
           in if n < batch then p' else pg_reap_loop i batch now p')"

definition pg_reapExpired :: "time \<Rightarrow> PostgresCache \<Rightarrow> PostgresCache" where
  "pg_reapExpired now p = pg_reap_loop pgSweepMaxBatches pgSweepBatch now p"

definition postgres_cache :: "(string \<Rightarrow> int option) \<Rightarrow> PostgresCache Cache" where
  "postgres_cache cast =
     \<lparr>Get = pg_Get, Set = pg_Set, Delete = pg_Delete, GetAndDelete = pg_GetAndDelete,
      SetIfNotExists = pg_SetIfNotExists, Increment = pg_Increment cast, Exists = pg_Exists\<rparr>"

lemma postgres_cache_sel [simp]:
  "Get (postgres_cache cast) = pg_Get" "Set (postgres_cache cast) = pg_Set"
  "Delete (postgres_cache cast) = pg_Delete" "GetAndDelete (postgres_cache cast) = pg_GetAndDelete"
  "SetIfNotExists (postgres_cache cast) = pg_SetIfNotExists"
  "Increment (postgres_cache cast) = pg_Increment cast" "Exists (postgres_cache cast) = pg_Exists"
  by (simp_all add: postgres_cache_def)

section \<open>Invariant and view\<close>

text \<open>A stored expiry is never the zero instant, which the view uses for a missing one.\<close>

definition pg_inv :: "PostgresCache \<Rightarrow> bool" where
  "pg_inv p \<longleftrightarrow> gomap_wf (pc_rows p) \<and> (\<forall>k r. map_of (pc_rows p) k = Some r \<longrightarrow> pr_expires r \<noteq> Some 0)"

definition pg_view :: "PostgresCache \<Rightarrow> string \<Rightarrow> cache_entry" where
  "pg_view p k =
     map_option (\<lambda>r. (pr_value r, case pr_expires r of None \<Rightarrow> 0 | Some x \<Rightarrow> x)) (map_of (pc_rows p) k)"

lemma pg_put_inv:
  assumes "pg_inv p" and "x \<noteq> Some 0"
  shows "pg_inv (pg_put p k v x)"
    and "pg_view (pg_put p k v x) = (pg_view p)(k \<mapsto> (v, case x of None \<Rightarrow> 0 | Some t \<Rightarrow> t))"
  using assms by (auto simp: pg_inv_def pg_put_def pg_view_def gomap_simps fun_eq_iff split: if_splits)

lemma pg_delete_inv:
  assumes "pg_inv p"
  shows "pg_inv (p\<lparr>pc_rows := AList.delete k (pc_rows p)\<rparr>)"
    and "pg_view (p\<lparr>pc_rows := AList.delete k (pc_rows p)\<rparr>) = (pg_view p)(k := None)"
  using assms by (auto simp: pg_inv_def pg_view_def gomap_simps fun_eq_iff split: if_splits)

lemma pg_ttl_view [simp]: "(case pg_ttl now ttl of None \<Rightarrow> 0 | Some t \<Rightarrow> t) = expiry_of now ttl"
  by (simp add: pg_ttl_def expiry_of_def)

lemma pg_ttl_nonzero [simp]: "0 < now \<Longrightarrow> pg_ttl now ttl \<noteq> Some 0"
  by (simp add: pg_ttl_def)

lemma pg_live_view:
  assumes "pg_inv p" and "map_of (pc_rows p) k = Some r"
  shows "pg_live r now \<longleftrightarrow> entry_live (pg_view p k) now"
  using assms by (auto simp: pg_inv_def pg_live_def entry_live_def pg_view_def split: option.splits)

lemma pg_missing_not_live: "map_of (pc_rows p) k = None \<Longrightarrow> \<not> entry_live (pg_view p k) now"
  by (simp add: entry_live_def pg_view_def)

lemma entry_dead_not_live: "entry_dead e now \<Longrightarrow> \<not> entry_live e now"
  by (auto simp: entry_dead_def entry_live_def split: option.splits)

lemma pg_view_None: "pg_view p k = None \<longleftrightarrow> map_of (pc_rows p) k = None"
  by (simp add: pg_view_def)

lemma pg_view_Some:
  "pg_view p k = Some (v, x) \<longleftrightarrow>
     (\<exists>r. map_of (pc_rows p) k = Some r \<and> pr_value r = v \<and> (case pr_expires r of None \<Rightarrow> 0 | Some t \<Rightarrow> t) = x)"
  by (auto simp: pg_view_def)

section \<open>The contract\<close>

text \<open>What the code relies on in PostgreSQL's cast: it reads back the digits the same column was
  written with.\<close>

locale pg_cast =
  fixes cast :: "string \<Rightarrow> int option"
  assumes cast_digits: "in_int64 n \<Longrightarrow> cast (FormatInt n) = Some n"

sublocale pg_cast \<subseteq> pgc: ttl_cache "postgres_cache cast" pg_view pg_inv
proof (unfold_locales, goal_cases)
  case (1 s k v x now)
  then show ?case
    by (auto simp: pg_Get_def pg_view_Some pg_live_def pg_inv_def split: option.splits)
next
  case (2 s k now)
  then show ?case
    using pg_live_view [of s k _ now] entry_dead_not_live [of "pg_view s k" now]
    by (auto simp: pg_Get_def split: option.splits)
next
  case (3 s now k v)
  then show ?case by (auto simp: pg_Get_def pg_view_def split: option.splits if_splits)
next
  case (4 s now k v ttl s')
  then show ?case by (auto simp: pg_Set_def pg_put_inv split: if_splits)
next
  case (5 s now k v ttl s' e)
  then show ?case by (auto simp: pg_Set_def split: if_splits)
next
  case (6 s now k s')
  then show ?case using pg_delete_inv by (auto simp: pg_Delete_def split: if_splits)
next
  case (7 s now k s' e)
  then show ?case by (auto simp: pg_Delete_def split: if_splits)
next
  case (8 s now k s' v)
  then show ?case
    using pg_delete_inv
    by (auto simp: pg_GetAndDelete_def pg_view_Some pg_view_def split: option.splits if_splits)
next
  case (9 s now k s' e)
  then show ?case
    using pg_live_view [of s k _ now]
    by (auto simp: pg_GetAndDelete_def entry_live_def pg_view_def split: option.splits if_splits)
next
  case (10 s now k v ttl s')
  then show ?case
    using pg_live_view [of s k _ now] pg_missing_not_live [of s k now]
    by (auto simp: pg_SetIfNotExists_def pg_put_inv split: option.splits if_splits)
next
  case (11 s now k v ttl s')
  then show ?case
    using pg_live_view [of s k _ now] entry_dead_not_live [of "pg_view s k" now]
    by (auto simp: pg_SetIfNotExists_def split: option.splits if_splits)
next
  case (12 s now k v ttl s' e)
  then show ?case by (auto simp: pg_SetIfNotExists_def split: option.splits if_splits)
next
  case (13 s k n x now ttl s' m)
  from 13(2) obtain r where r: "map_of (pc_rows s) k = Some r" "pr_value r = FormatInt n"
    "(case pr_expires r of None \<Rightarrow> 0 | Some t \<Rightarrow> t) = x" by (auto simp: pg_view_Some)
  with 13 have "pr_expires r = Some x" and "pg_live r now" and "in_int64 (n + 1)"
    by (auto simp: pg_live_def in_int64_def split: option.splits)
  with r 13 show ?case
    by (auto simp: pg_Increment_def cast_digits pg_put_inv split: if_splits)
next
  case (14 s now k ttl s' m)
  then show ?case
    using pg_live_view [of s k _ now] entry_dead_not_live [of "pg_view s k" now]
    by (auto simp: pg_Increment_def pg_put_inv split: option.splits if_splits)
next
  case (15 s now k ttl s' e)
  then show ?case
    by (auto simp: pg_Increment_def split: option.splits if_splits)
next
  case (16 s now k)
  then show ?case by (auto simp: pg_Exists_def split: sum.splits cache_error.splits)
qed

text \<open>\<open>ParseInt\<close> with its error dropped meets the hypothesis, so the contract is not empty.\<close>

definition bigint_of_text :: "string \<Rightarrow> int option" where
  "bigint_of_text s = (case ParseInt s of (n, None) \<Rightarrow> Some n | (_, Some _) \<Rightarrow> None)"

interpretation pgi: pg_cast bigint_of_text
  by unfold_locales (simp add: bigint_of_text_def)

end
