(* ===== verification/Refresh_Store.thy ===== *)
theory Refresh_Store
  imports Prelude "HOL-Library.List_Lexorder" "HOL-Library.Char_ord"
begin

text \<open>
  The refresh-token store, \<open>internal/repository/postgres/refresh_token.go\<close>: the table
  \<open>auth.refresh_tokens\<close> as a list of rows, the columns of \<open>auth.users\<close> its statements read, and one
  function per method of \<open>RefreshTokenRepo\<close>.

  Every SQL statement of the file runs under row or table locks that make it atomic with respect to
  the others, so a concurrent execution is a sequence of these functions in some order; the second
  half of the theory states what holds after every such sequence. \<open>NOW()\<close> is the argument \<open>now\<close>.
  Whether a statement reaches the database is the argument \<open>up\<close>; a statement that does not leaves
  the table unchanged, and so does a transaction one of whose statements fails, because it is rolled
  back. A constraint of the schema that the model does not carry (the foreign key on \<open>client_id\<close>)
  is one more way for \<open>up\<close> to be false. UUIDs are written in their canonical lower-case form, in
  which the order of the text is the order of the values.
\<close>

section \<open>Data\<close>

text \<open>The columns of \<open>model.User\<close> that sessions depend on.\<close>

record User =
  u_id :: string
  u_email :: string
  u_emailVerified :: bool
  u_passwordHash :: string
  u_displayName :: string
  u_avatarURL :: string
  u_locale :: string
  u_mfaRequired :: bool
  u_lockedUntil :: "time option"
  u_failedLoginCount :: int
  u_createdAt :: time
  u_updatedAt :: time
  u_roles :: "string list"
  u_disabled :: bool
  u_banned :: bool
  u_banReason :: string
  u_lastLoginAt :: "time option"
  u_deleted :: bool
  u_deletedAt :: "time option"
  u_importPending :: bool
  u_importedFrom :: string
  u_legacyID :: string
  u_mustResetPassword :: bool

record RefreshToken =
  t_id :: string
  t_userID :: string
  t_clientID :: string
  t_tokenHash :: string
  t_familyID :: string
  t_deviceID :: string
  t_fingerprintHash :: string
  t_dpopJKT :: string
  t_expiresAt :: time
  t_used :: bool
  t_revoked :: bool
  t_createdAt :: time

text \<open>A row of the table; \<open>None\<close> is SQL's NULL.\<close>

record refresh_row =
  r_id :: string
  r_user :: string
  r_client :: "string option"
  r_hash :: string
  r_family :: string
  r_device :: "string option"
  r_fingerprint :: "string option"
  r_expires :: time
  r_used :: bool
  r_revoked :: bool
  r_created :: time
  r_origin :: time
  r_jkt :: "string option"

record refresh_db =
  rd_rows :: "refresh_row list"
  rd_users :: "(string, User) gomap"

datatype repo_error = ErrDB | ErrFamilyRevoked | ErrSessionLimitReached

text \<open>The statements of a transaction, each of which may fail.\<close>

datatype tx_stmt = TxBegin | TxLock | TxCount | TxWrite | TxCommit

record ActiveFamily =
  af_familyID :: string
  af_deviceID :: string
  af_clientID :: string
  af_createdAt :: time
  af_lastUsedAt :: time
  af_expiresAt :: time

section \<open>Statements\<close>

definition nullStr :: "string \<Rightarrow> string option" where
  "nullStr s = (if s = [] then None else Some s)"

definition deref :: "string option \<Rightarrow> string" where
  "deref p = (case p of Some s \<Rightarrow> s | None \<Rightarrow> [])"

definition refreshTokenInsertArgs :: "RefreshToken \<Rightarrow> refresh_row" where
  "refreshTokenInsertArgs t =
     \<lparr> r_id = t_id t, r_user = t_userID t, r_client = nullStr (t_clientID t),
       r_hash = t_tokenHash t, r_family = t_familyID t, r_device = nullStr (t_deviceID t),
       r_fingerprint = nullStr (t_fingerprintHash t), r_expires = t_expiresAt t,
       r_used = False, r_revoked = False, r_created = t_createdAt t,
       r_origin = t_createdAt t, r_jkt = nullStr (t_dpopJKT t) \<rparr>"

definition family_rows :: "refresh_db \<Rightarrow> string \<Rightarrow> refresh_row list" where
  "family_rows db f = filter (\<lambda>r. r_family r = f) (rd_rows db)"

text \<open>\<open>MIN\<close> of a column over a list of rows: NULLs are skipped, no value gives NULL.\<close>

fun sql_min :: "'a::linorder option list \<Rightarrow> 'a option" where
  "sql_min [] = None"
| "sql_min (None # xs) = sql_min xs"
| "sql_min (Some x # xs) = (case sql_min xs of None \<Rightarrow> Some x | Some y \<Rightarrow> Some (min x y))"

definition account_kept :: "refresh_db \<Rightarrow> string \<Rightarrow> bool" where
  "account_kept db u = (case map_of (rd_users db) u of Some x \<Rightarrow> \<not> u_deleted x | None \<Rightarrow> False)"

text \<open>
  \<open>insertRefreshRowSQL\<close>: the number of rows inserted, or an error when the primary key or the unique
  index on \<open>token_hash\<close> is violated.
\<close>

definition insertRefreshRow ::
  "refresh_db \<Rightarrow> refresh_row \<Rightarrow> refresh_db \<times> (repo_error + nat)" where
  "insertRefreshRow db a =
     (let fam = family_rows db (r_family a);
          origin = (case sql_min (map (\<lambda>r. Some (r_origin r)) fam) of
                      Some t \<Rightarrow> t | None \<Rightarrow> r_created a);
          jkt = (if length fam = 0 then r_jkt a else sql_min (map r_jkt fam));
          row = a\<lparr> r_origin := origin, r_jkt := jkt \<rparr>
      in if list_ex r_revoked fam \<or> \<not> account_kept db (r_user a) then (db, Inr 0)
         else if list_ex (\<lambda>r. r_id r = r_id a \<or> r_hash r = r_hash a) (rd_rows db) then (db, Inl ErrDB)
         else (db\<lparr> rd_rows := rd_rows db @ [row] \<rparr>, Inr 1))"

definition active :: "string \<Rightarrow> time \<Rightarrow> refresh_row \<Rightarrow> bool" where
  "active u now r \<longleftrightarrow> r_user r = u \<and> \<not> r_revoked r \<and> \<not> r_used r \<and> now < r_expires r"

definition countActiveFamilies :: "refresh_db \<Rightarrow> time \<Rightarrow> string \<Rightarrow> nat" where
  "countActiveFamilies db now u = length (remdups (map r_family (filter (active u now) (rd_rows db))))"

section \<open>The repository\<close>

definition rt_Create :: "bool \<Rightarrow> refresh_db \<Rightarrow> RefreshToken \<Rightarrow> refresh_db \<times> (repo_error + unit)" where
  "rt_Create up db t =
     (if \<not> up then (db, Inl ErrDB)
      else case insertRefreshRow db (refreshTokenInsertArgs t) of
             (db', Inl e) \<Rightarrow> (db', Inl e)
           | (db', Inr n) \<Rightarrow> if n = 0 then (db', Inl ErrFamilyRevoked) else (db', Inr ()))"

definition rt_CreateWithinCap ::
  "(tx_stmt \<Rightarrow> bool) \<Rightarrow> refresh_db \<Rightarrow> time \<Rightarrow> RefreshToken \<Rightarrow> int \<Rightarrow> refresh_db \<times> (repo_error + unit)" where
  "rt_CreateWithinCap up db now t maxFamilies =
     (if maxFamilies \<le> 0 then rt_Create (up TxWrite) db t
      else if \<not> up TxBegin \<or> \<not> up TxLock \<or> \<not> up TxCount then (db, Inl ErrDB)
      else if maxFamilies \<le> int (countActiveFamilies db now (t_userID t)) then (db, Inl ErrSessionLimitReached)
      else if \<not> up TxWrite then (db, Inl ErrDB)
      else case insertRefreshRow db (refreshTokenInsertArgs t) of
             (db', Inl e) \<Rightarrow> (db, Inl e)
           | (db', Inr n) \<Rightarrow>
               if n = 0 then (db, Inl ErrFamilyRevoked)
               else if \<not> up TxCommit then (db, Inl ErrDB)
               else (db', Inr ()))"

definition rt_FamilyOrigin :: "bool \<Rightarrow> refresh_db \<Rightarrow> string \<Rightarrow> repo_error + time" where
  "rt_FamilyOrigin up db f =
     (if \<not> up then Inl ErrDB
      else case sql_min (map (\<lambda>r. Some (r_origin r)) (family_rows db f)) of
             None \<Rightarrow> Inr 0
           | Some t \<Rightarrow> Inr t)"

definition token_of_row :: "refresh_row \<Rightarrow> RefreshToken" where
  "token_of_row r =
     \<lparr> t_id = r_id r, t_userID = r_user r, t_clientID = deref (r_client r), t_tokenHash = r_hash r,
       t_familyID = r_family r, t_deviceID = deref (r_device r),
       t_fingerprintHash = deref (r_fingerprint r), t_dpopJKT = deref (r_jkt r),
       t_expiresAt = r_expires r, t_used = r_used r, t_revoked = r_revoked r,
       t_createdAt = r_created r \<rparr>"

definition rt_GetByTokenHash :: "bool \<Rightarrow> refresh_db \<Rightarrow> string \<Rightarrow> repo_error + RefreshToken option" where
  "rt_GetByTokenHash up db h =
     (if \<not> up then Inl ErrDB
      else Inr (map_option token_of_row (find (\<lambda>r. r_hash r = h) (rd_rows db))))"

definition update_rows :: "(refresh_row \<Rightarrow> bool) \<Rightarrow> (refresh_row \<Rightarrow> refresh_row) \<Rightarrow> refresh_db \<Rightarrow> refresh_db" where
  "update_rows p f db = db\<lparr> rd_rows := map (\<lambda>r. if p r then f r else r) (rd_rows db) \<rparr>"

definition rt_MarkUsed :: "bool \<Rightarrow> refresh_db \<Rightarrow> string \<Rightarrow> refresh_db \<times> (repo_error + bool)" where
  "rt_MarkUsed up db i =
     (let p = (\<lambda>r. r_id r = i \<and> \<not> r_used r \<and> \<not> r_revoked r)
      in if \<not> up then (db, Inl ErrDB)
         else (update_rows p (\<lambda>r. r\<lparr> r_used := True \<rparr>) db, Inr (length (filter p (rd_rows db)) = 1)))"

definition rt_RevokeByID :: "bool \<Rightarrow> refresh_db \<Rightarrow> string \<Rightarrow> refresh_db \<times> (repo_error + unit)" where
  "rt_RevokeByID up db i =
     (if \<not> up then (db, Inl ErrDB)
      else (update_rows (\<lambda>r. r_id r = i) (\<lambda>r. r\<lparr> r_revoked := True \<rparr>) db, Inr ()))"

text \<open>\<open>lockThenWrite\<close>: the lock orders the transactions, the write is the effect.\<close>

definition lockThenWrite ::
  "(tx_stmt \<Rightarrow> bool) \<Rightarrow> (refresh_db \<Rightarrow> refresh_db) \<Rightarrow> refresh_db \<Rightarrow> refresh_db \<times> (repo_error + unit)" where
  "lockThenWrite up write db =
     (if \<not> up TxBegin then (db, Inl ErrDB)
      else if \<not> up TxLock then (db, Inl ErrDB)
      else if \<not> up TxWrite then (db, Inl ErrDB)
      else if \<not> up TxCommit then (db, Inl ErrDB)
      else (write db, Inr ()))"

definition rt_RevokeByDeviceID ::
  "(tx_stmt \<Rightarrow> bool) \<Rightarrow> refresh_db \<Rightarrow> string \<Rightarrow> refresh_db \<times> (repo_error + unit)" where
  "rt_RevokeByDeviceID up db d =
     lockThenWrite up
       (update_rows (\<lambda>r. r_device r = Some d \<and> \<not> r_revoked r) (\<lambda>r. r\<lparr> r_revoked := True \<rparr>)) db"

definition rt_RevokeFamily ::
  "(tx_stmt \<Rightarrow> bool) \<Rightarrow> refresh_db \<Rightarrow> string \<Rightarrow> refresh_db \<times> (repo_error + unit)" where
  "rt_RevokeFamily up db f =
     lockThenWrite up (update_rows (\<lambda>r. r_family r = f) (\<lambda>r. r\<lparr> r_revoked := True \<rparr>)) db"

definition rt_RevokeAllForUser ::
  "(tx_stmt \<Rightarrow> bool) \<Rightarrow> refresh_db \<Rightarrow> string \<Rightarrow> refresh_db \<times> (repo_error + unit)" where
  "rt_RevokeAllForUser up db u =
     lockThenWrite up
       (update_rows (\<lambda>r. r_user r = u \<and> \<not> r_revoked r) (\<lambda>r. r\<lparr> r_revoked := True \<rparr>)) db"

definition rt_DeleteAllForUser ::
  "(tx_stmt \<Rightarrow> bool) \<Rightarrow> refresh_db \<Rightarrow> string \<Rightarrow> refresh_db \<times> (repo_error + unit)" where
  "rt_DeleteAllForUser up db u =
     lockThenWrite up (\<lambda>db. db\<lparr> rd_rows := filter (\<lambda>r. r_user r \<noteq> u) (rd_rows db) \<rparr>) db"

definition rt_RevokeAll :: "(tx_stmt \<Rightarrow> bool) \<Rightarrow> refresh_db \<Rightarrow> refresh_db \<times> (repo_error + unit)" where
  "rt_RevokeAll up db =
     lockThenWrite up (update_rows (\<lambda>r. \<not> r_revoked r) (\<lambda>r. r\<lparr> r_revoked := True \<rparr>)) db"

definition rt_CountActiveFamilies :: "bool \<Rightarrow> refresh_db \<Rightarrow> time \<Rightarrow> string \<Rightarrow> repo_error + int" where
  "rt_CountActiveFamilies up db now u =
     (if \<not> up then Inl ErrDB else Inr (int (countActiveFamilies db now u)))"

text \<open>
  \<open>DISTINCT ON (family_id) ... ORDER BY family_id, created_at DESC\<close> keeps the newest live row of
  each family; the outer query orders the families by that instant, newest first. SQL leaves ties
  open, the model keeps the order of the table.
\<close>

definition newest :: "refresh_row list \<Rightarrow> refresh_row" where
  "newest rs = hd (sort_key (\<lambda>r. - r_created r) rs)"

definition rt_ListActiveFamilies ::
  "bool \<Rightarrow> refresh_db \<Rightarrow> time \<Rightarrow> string \<Rightarrow> repo_error + ActiveFamily list" where
  "rt_ListActiveFamilies up db now u =
     (let fam = filter (\<lambda>r. r_user r = u) (rd_rows db);
          live = filter (\<lambda>r. \<not> r_revoked r \<and> \<not> r_used r \<and> now < r_expires r) fam;
          birth = (\<lambda>f. case sql_min (map (\<lambda>r. Some (r_origin r)) (filter (\<lambda>r. r_family r = f) fam)) of
                          Some t \<Rightarrow> t | None \<Rightarrow> 0);
          entry = (\<lambda>f. let r = newest (filter (\<lambda>r. r_family r = f) live)
                       in \<lparr> af_familyID = f, af_deviceID = deref (r_device r),
                            af_clientID = deref (r_client r), af_createdAt = birth f,
                            af_lastUsedAt = r_created r, af_expiresAt = r_expires r \<rparr>)
      in if \<not> up then Inl ErrDB
         else Inr (sort_key (\<lambda>a. - af_lastUsedAt a) (map entry (remdups (map r_family live)))))"

definition refreshReapBatch :: nat where
  "refreshReapBatch = 2000"

definition refreshReapMaxBatches :: nat where
  "refreshReapMaxBatches = 20"

definition reap_rows :: "(refresh_row \<Rightarrow> bool) \<Rightarrow> nat \<Rightarrow> refresh_db \<Rightarrow> refresh_db" where
  "reap_rows p limit db =
     (let ids = take limit (map r_id (sort_key r_id (filter p (rd_rows db))))
      in db\<lparr> rd_rows := filter (\<lambda>r. r_id r \<notin> set ids) (rd_rows db) \<rparr>)"

text \<open>The loop of both reapers: \<open>ups\<close> says for each remaining batch whether it reaches the database.\<close>

fun reap_batches ::
  "(refresh_row \<Rightarrow> bool) \<Rightarrow> nat \<Rightarrow> bool list \<Rightarrow> nat \<Rightarrow> refresh_db \<Rightarrow> refresh_db \<times> nat \<times> repo_error option" where
  "reap_batches p limit [] acc db = (db, acc, None)"
| "reap_batches p limit (up # ups) acc db =
     (if \<not> up then (db, acc, Some ErrDB)
      else let db' = reap_rows p limit db;
               n = length (rd_rows db) - length (rd_rows db')
           in if n < limit then (db', acc + n, None)
              else reap_batches p limit ups (acc + n) db')"

definition rt_DeleteExpired :: "(nat \<Rightarrow> bool) \<Rightarrow> refresh_db \<Rightarrow> time \<Rightarrow> refresh_db \<times> nat \<times> repo_error option" where
  "rt_DeleteExpired up db now =
     reap_batches (\<lambda>r. r_expires r < now \<and> (r_used r \<or> r_revoked r)) refreshReapBatch
       (map up [0..<refreshReapMaxBatches]) 0 db"

definition rt_DeleteExpiredUnused :: "(nat \<Rightarrow> bool) \<Rightarrow> refresh_db \<Rightarrow> time \<Rightarrow> refresh_db \<times> nat \<times> repo_error option" where
  "rt_DeleteExpiredUnused up db now =
     reap_batches (\<lambda>r. r_expires r < now \<and> \<not> r_used r \<and> \<not> r_revoked r) refreshReapBatch
       (map up [0..<refreshReapMaxBatches]) 0 db"

text \<open>\<open>RefreshTokenRetention.Sweep\<close> of \<open>internal/service/refresh_retention.go\<close>.\<close>

definition rt_Sweep :: "(nat \<Rightarrow> bool) \<Rightarrow> (nat \<Rightarrow> bool) \<Rightarrow> refresh_db \<Rightarrow> time \<Rightarrow> refresh_db \<times> nat \<times> repo_error option" where
  "rt_Sweep up1 up2 db now =
     (case rt_DeleteExpired up1 db now of
        (db1, n, Some e) \<Rightarrow> (db1, n, Some e)
      | (db1, n, None) \<Rightarrow>
          (case rt_DeleteExpiredUnused up2 db1 now of (db2, m, e) \<Rightarrow> (db2, n + m, e)))"

section \<open>Executions\<close>

text \<open>
  The operations that write the table, as the events of an execution. \<open>OpAccount\<close> stands for the
  writes other repositories make to the account row (a ban, a lock, an erasure's tombstone).
\<close>

datatype store_op =
    OpCreate bool RefreshToken
  | OpCreateWithinCap "tx_stmt \<Rightarrow> bool" time RefreshToken int
  | OpMarkUsed bool string
  | OpRevokeByID bool string
  | OpRevokeByDeviceID "tx_stmt \<Rightarrow> bool" string
  | OpRevokeFamily "tx_stmt \<Rightarrow> bool" string
  | OpRevokeAllForUser "tx_stmt \<Rightarrow> bool" string
  | OpDeleteAllForUser "tx_stmt \<Rightarrow> bool" string
  | OpRevokeAll "tx_stmt \<Rightarrow> bool"
  | OpDeleteExpired "nat \<Rightarrow> bool" time
  | OpDeleteExpiredUnused "nat \<Rightarrow> bool" time
  | OpAccount string User

fun store_exec :: "refresh_db \<Rightarrow> store_op \<Rightarrow> refresh_db" where
  "store_exec db (OpCreate up t) = fst (rt_Create up db t)"
| "store_exec db (OpCreateWithinCap up now t m) = fst (rt_CreateWithinCap up db now t m)"
| "store_exec db (OpMarkUsed up i) = fst (rt_MarkUsed up db i)"
| "store_exec db (OpRevokeByID up i) = fst (rt_RevokeByID up db i)"
| "store_exec db (OpRevokeByDeviceID up d) = fst (rt_RevokeByDeviceID up db d)"
| "store_exec db (OpRevokeFamily up f) = fst (rt_RevokeFamily up db f)"
| "store_exec db (OpRevokeAllForUser up u) = fst (rt_RevokeAllForUser up db u)"
| "store_exec db (OpDeleteAllForUser up u) = fst (rt_DeleteAllForUser up db u)"
| "store_exec db (OpRevokeAll up) = fst (rt_RevokeAll up db)"
| "store_exec db (OpDeleteExpired up now) = fst (rt_DeleteExpired up db now)"
| "store_exec db (OpDeleteExpiredUnused up now) = fst (rt_DeleteExpiredUnused up db now)"
| "store_exec db (OpAccount u x) = db\<lparr> rd_users := AList.update u x (rd_users db) \<rparr>"

abbreviation store_run :: "refresh_db \<Rightarrow> store_op list \<Rightarrow> refresh_db" where
  "store_run \<equiv> foldl store_exec"

fun deletes_rows :: "store_op \<Rightarrow> bool" where
  "deletes_rows (OpDeleteAllForUser up u) = True"
| "deletes_rows (OpDeleteExpired up now) = True"
| "deletes_rows (OpDeleteExpiredUnused up now) = True"
| "deletes_rows _ = False"

fun creates :: "store_op \<Rightarrow> RefreshToken option" where
  "creates (OpCreate up t) = Some t"
| "creates (OpCreateWithinCap up now t m) = Some t"
| "creates _ = None"

fun mark_wins :: "string \<Rightarrow> refresh_db \<Rightarrow> store_op list \<Rightarrow> nat" where
  "mark_wins i db [] = 0"
| "mark_wins i db (p # ps) =
     (case p of OpMarkUsed up j \<Rightarrow> if j = i \<and> snd (rt_MarkUsed up db i) = Inr True then 1 else 0
              | _ \<Rightarrow> 0) + mark_wins i (store_exec db p) ps"

section \<open>What a statement can do to the table\<close>

text \<open>\<open>grows r r'\<close>: \<open>r'\<close> is \<open>r\<close> with its two flags possibly raised, never lowered.\<close>

definition grows :: "refresh_row \<Rightarrow> refresh_row \<Rightarrow> bool" where
  "grows r r' \<longleftrightarrow> r' = r\<lparr> r_used := r_used r', r_revoked := r_revoked r' \<rparr> \<and>
     (r_used r \<longrightarrow> r_used r') \<and> (r_revoked r \<longrightarrow> r_revoked r')"

lemma growsD:
  assumes "grows r r'"
  shows "r_id r' = r_id r" "r_user r' = r_user r" "r_hash r' = r_hash r" "r_family r' = r_family r"
    "r_origin r' = r_origin r" "r_jkt r' = r_jkt r" "r_expires r' = r_expires r"
    "r_created r' = r_created r" "r_used r \<Longrightarrow> r_used r'" "r_revoked r \<Longrightarrow> r_revoked r'"
  using assms by (cases r; cases r'; simp add: grows_def)+

lemma grows_refl [simp]: "grows r r"
  by (simp add: grows_def)

lemma grows_flags [simp]:
  "grows r (r\<lparr> r_used := True \<rparr>)" "grows r (r\<lparr> r_revoked := True \<rparr>)"
  by (simp_all add: grows_def)

text \<open>The row an insert adds when it adds one.\<close>

definition inherit_family :: "refresh_db \<Rightarrow> refresh_row \<Rightarrow> refresh_row" where
  "inherit_family db a =
     (let fam = family_rows db (r_family a)
      in a\<lparr> r_origin := (case sql_min (map (\<lambda>r. Some (r_origin r)) fam) of Some t \<Rightarrow> t | None \<Rightarrow> r_created a),
            r_jkt := (if fam = [] then r_jkt a else sql_min (map r_jkt fam)) \<rparr>)"

definition admits :: "refresh_db \<Rightarrow> refresh_row \<Rightarrow> bool" where
  "admits db a \<longleftrightarrow> (\<forall>r \<in> set (rd_rows db). r_family r = r_family a \<longrightarrow> \<not> r_revoked r) \<and>
     account_kept db (r_user a) \<and> (\<forall>r \<in> set (rd_rows db). r_id r \<noteq> r_id a \<and> r_hash r \<noteq> r_hash a)"

lemma inherit_family_simps [simp]:
  "r_id (inherit_family db a) = r_id a" "r_user (inherit_family db a) = r_user a"
  "r_hash (inherit_family db a) = r_hash a" "r_family (inherit_family db a) = r_family a"
  "r_used (inherit_family db a) = r_used a" "r_revoked (inherit_family db a) = r_revoked a"
  "r_expires (inherit_family db a) = r_expires a" "r_created (inherit_family db a) = r_created a"
  by (simp_all add: inherit_family_def Let_def)

lemma insert_args_simps [simp]:
  "r_id (refreshTokenInsertArgs t) = t_id t" "r_user (refreshTokenInsertArgs t) = t_userID t"
  "r_hash (refreshTokenInsertArgs t) = t_tokenHash t" "r_family (refreshTokenInsertArgs t) = t_familyID t"
  "\<not> r_used (refreshTokenInsertArgs t)" "\<not> r_revoked (refreshTokenInsertArgs t)"
  "r_expires (refreshTokenInsertArgs t) = t_expiresAt t" "r_created (refreshTokenInsertArgs t) = t_createdAt t"
  "r_jkt (refreshTokenInsertArgs t) = nullStr (t_dpopJKT t)"
  by (simp_all add: refreshTokenInsertArgs_def)

lemma set_family_rows [simp]: "set (family_rows db f) = {r \<in> set (rd_rows db). r_family r = f}"
  by (auto simp: family_rows_def)

lemma insertRefreshRow_cases:
  obtains (inserted) "admits db a"
      "insertRefreshRow db a = (db\<lparr> rd_rows := rd_rows db @ [inherit_family db a] \<rparr>, Inr 1)"
  | (refused) "\<not> admits db a" "insertRefreshRow db a = (db, Inr 0) \<or> insertRefreshRow db a = (db, Inl ErrDB)"
proof (cases "admits db a")
  case True
  then have "\<not> list_ex r_revoked (family_rows db (r_family a))" "account_kept db (r_user a)"
    "\<not> list_ex (\<lambda>r. r_id r = r_id a \<or> r_hash r = r_hash a) (rd_rows db)"
    by (auto simp: admits_def list_ex_iff)
  then have "insertRefreshRow db a = (db\<lparr> rd_rows := rd_rows db @ [inherit_family db a] \<rparr>, Inr 1)"
    by (simp add: insertRefreshRow_def inherit_family_def Let_def)
  with True that(1) show ?thesis by blast
next
  case False
  then have "insertRefreshRow db a = (db, Inr 0) \<or> insertRefreshRow db a = (db, Inl ErrDB)"
    by (auto simp: insertRefreshRow_def admits_def list_ex_iff Let_def)
  with False that(2) show ?thesis by blast
qed

lemma rt_Create_ok_iff:
  "snd (rt_Create up db t) = Inr () \<longleftrightarrow> up \<and> admits db (refreshTokenInsertArgs t)"
  by (cases rule: insertRefreshRow_cases [of db "refreshTokenInsertArgs t"]) (auto simp: rt_Create_def)

lemma rt_Create_db:
  "fst (rt_Create up db t) =
     (if up \<and> admits db (refreshTokenInsertArgs t)
      then db\<lparr> rd_rows := rd_rows db @ [inherit_family db (refreshTokenInsertArgs t)] \<rparr> else db)"
  by (cases rule: insertRefreshRow_cases [of db "refreshTokenInsertArgs t"]) (auto simp: rt_Create_def)

definition cap_open :: "(tx_stmt \<Rightarrow> bool) \<Rightarrow> refresh_db \<Rightarrow> time \<Rightarrow> RefreshToken \<Rightarrow> int \<Rightarrow> bool" where
  "cap_open up db now t m \<longleftrightarrow> up TxWrite \<and>
     (0 < m \<longrightarrow> up TxBegin \<and> up TxLock \<and> up TxCount \<and> up TxCommit \<and>
                int (countActiveFamilies db now (t_userID t)) < m)"

lemma rt_CreateWithinCap_ok_iff:
  "snd (rt_CreateWithinCap up db now t m) = Inr () \<longleftrightarrow>
     cap_open up db now t m \<and> admits db (refreshTokenInsertArgs t)"
  by (cases rule: insertRefreshRow_cases [of db "refreshTokenInsertArgs t"])
    (auto simp: rt_CreateWithinCap_def rt_Create_ok_iff cap_open_def not_less)

lemma rt_CreateWithinCap_db:
  "fst (rt_CreateWithinCap up db now t m) =
     (if cap_open up db now t m \<and> admits db (refreshTokenInsertArgs t)
      then db\<lparr> rd_rows := rd_rows db @ [inherit_family db (refreshTokenInsertArgs t)] \<rparr> else db)"
  by (cases rule: insertRefreshRow_cases [of db "refreshTokenInsertArgs t"])
    (auto simp: rt_CreateWithinCap_def rt_Create_db cap_open_def not_less)

lemma lockThenWrite_db:
  "fst (lockThenWrite up w db) = (if up TxBegin \<and> up TxLock \<and> up TxWrite \<and> up TxCommit then w db else db)"
  by (simp add: lockThenWrite_def)

lemma lockThenWrite_ok_iff:
  "snd (lockThenWrite up w db) = Inr () \<longleftrightarrow> up TxBegin \<and> up TxLock \<and> up TxWrite \<and> up TxCommit"
  by (simp add: lockThenWrite_def)

lemma lockThenWrite_ok_db:
  "snd (lockThenWrite up w db) = Inr () \<Longrightarrow> fst (lockThenWrite up w db) = w db"
  by (simp add: lockThenWrite_db lockThenWrite_ok_iff)

lemma update_rows_simps [simp]:
  "rd_rows (update_rows p f db) = map (\<lambda>r. if p r then f r else r) (rd_rows db)"
  "rd_users (update_rows p f db) = rd_users db"
  by (simp_all add: update_rows_def)

lemma update_rows_grow:
  assumes "\<And>r. grows r (f r)"
  shows "\<exists>g. rd_rows (update_rows P f db) = map g (rd_rows db) \<and> (\<forall>r. grows r (g r))"
  using assms by (intro exI [of _ "\<lambda>r. if P r then f r else r"]) simp

lemma reap_batches_filters:
  "\<exists>q. rd_rows (fst (reap_batches p limit ups acc db)) = filter q (rd_rows db)"
proof (induction p limit ups acc db rule: reap_batches.induct)
  case (1 p limit acc db)
  show ?case by (rule exI [of _ "\<lambda>_. True"]) simp
next
  case (2 p limit up ups acc db)
  have *: "\<exists>q. rd_rows (reap_rows p limit db) = filter q (rd_rows db)"
    by (auto simp: reap_rows_def Let_def)
  show ?case
  proof (cases "up \<and> \<not> length (rd_rows db) - length (rd_rows (reap_rows p limit db)) < limit")
    case True
    then have "\<exists>q. rd_rows (fst (reap_batches p limit (up # ups) acc db)) =
                   filter q (rd_rows (reap_rows p limit db))"
      using 2 by (simp add: Let_def)
    with * show ?thesis by (metis filter_filter)
  next
    case False
    with * show ?thesis by (auto simp: Let_def intro: exI [of _ "\<lambda>_. True"])
  qed
qed

lemma reap_batches_users [simp]: "rd_users (fst (reap_batches p limit ups acc db)) = rd_users db"
  by (induction p limit ups acc db rule: reap_batches.induct) (auto simp: Let_def reap_rows_def)

text \<open>Every event raises flags, removes rows, or adds one row the guards admit.\<close>

lemma store_exec_effect:
  obtains (update) g where "rd_rows (store_exec db p) = map g (rd_rows db)" "\<And>r. grows r (g r)"
  | (delete) q where "rd_rows (store_exec db p) = filter q (rd_rows db)" "deletes_rows p"
  | (insert) t where "creates p = Some t" "admits db (refreshTokenInsertArgs t)"
      "rd_rows (store_exec db p) = rd_rows db @ [inherit_family db (refreshTokenInsertArgs t)]"
proof (cases "deletes_rows p")
  case True
  then have "\<exists>q. rd_rows (store_exec db p) = filter q (rd_rows db)"
    using reap_batches_filters
    by (cases p) (auto simp: rt_DeleteAllForUser_def lockThenWrite_db rt_DeleteExpired_def
        rt_DeleteExpiredUnused_def intro: exI [of _ "\<lambda>_. True"])
  with True delete show ?thesis by blast
next
  case False
  show ?thesis
  proof (cases "\<exists>t. creates p = Some t \<and> rd_rows (store_exec db p) \<noteq> rd_rows db")
    case True
    with insert show ?thesis
      by (cases p) (auto simp: rt_Create_db rt_CreateWithinCap_db split: if_splits)
  next
    case noinsert: False
    have "\<exists>g. rd_rows (store_exec db p) = map g (rd_rows db) \<and> (\<forall>r. grows r (g r))"
    proof (cases "rd_rows (store_exec db p) = rd_rows db")
      case True
      then show ?thesis by (intro exI [of _ id]) simp
    next
      case changed: False
      from False noinsert changed show ?thesis
        by (cases p) (auto simp: rt_MarkUsed_def rt_RevokeByID_def rt_RevokeByDeviceID_def
            rt_RevokeFamily_def rt_RevokeAllForUser_def rt_RevokeAll_def lockThenWrite_db Let_def
            simp del: update_rows_simps intro!: update_rows_grow split: if_splits)
    qed
    with update show ?thesis by blast
  qed
qed

lemma store_exec_users:
  "rd_users (store_exec db p) = (case p of OpAccount u x \<Rightarrow> AList.update u x (rd_users db) | _ \<Rightarrow> rd_users db)"
  by (cases p) (auto simp: rt_Create_db rt_CreateWithinCap_db rt_MarkUsed_def rt_RevokeByID_def
      rt_RevokeByDeviceID_def rt_RevokeFamily_def rt_RevokeAllForUser_def rt_RevokeAll_def
      rt_DeleteAllForUser_def rt_DeleteExpired_def rt_DeleteExpiredUnused_def lockThenWrite_db Let_def)

section \<open>Invariants of executions\<close>

text \<open>
  Ids and hashes are unique (the schema's keys), and the rows of one family agree on the family's
  birth date and on its DPoP binding.
\<close>

definition store_wf :: "refresh_db \<Rightarrow> bool" where
  "store_wf db \<longleftrightarrow> distinct (map r_id (rd_rows db)) \<and> distinct (map r_hash (rd_rows db)) \<and>
     (\<forall>r \<in> set (rd_rows db). \<forall>s \<in> set (rd_rows db).
        r_family r = r_family s \<longrightarrow> r_origin r = r_origin s \<and> r_jkt r = r_jkt s)"

lemma sql_min_const: "xs \<noteq> [] \<Longrightarrow> (\<And>x. x \<in> set xs \<Longrightarrow> x = c) \<Longrightarrow> sql_min xs = c"
proof (induction xs)
  case (Cons x xs)
  then have x: "x = c" and xs: "xs \<noteq> [] \<Longrightarrow> sql_min xs = c" by auto
  show ?case
  proof (cases "xs = []")
    case True
    with x show ?thesis by (cases c) auto
  next
    case False
    with x xs show ?thesis by (cases c) auto
  qed
qed simp

lemma family_rows_empty_iff: "family_rows db f = [] \<longleftrightarrow> (\<forall>r \<in> set (rd_rows db). r_family r \<noteq> f)"
  by (auto simp: family_rows_def filter_empty_conv)

lemma inherit_from_family:
  assumes "r \<in> set (rd_rows db)" "r_family r = r_family a"
    and "\<And>s. s \<in> set (rd_rows db) \<Longrightarrow> r_family s = r_family a \<Longrightarrow> r_origin s = b \<and> r_jkt s = j"
  shows "r_origin (inherit_family db a) = b \<and> r_jkt (inherit_family db a) = j"
proof -
  let ?fam = "family_rows db (r_family a)"
  have ne: "?fam \<noteq> []" using assms(1,2) by (auto simp: family_rows_empty_iff)
  have "sql_min (map (\<lambda>r. Some (r_origin r)) ?fam) = Some b"
    using ne assms(3) by (intro sql_min_const) auto
  moreover have "sql_min (map r_jkt ?fam) = j"
    using ne assms(3) by (intro sql_min_const) auto
  ultimately show ?thesis using ne by (simp add: inherit_family_def Let_def)
qed

lemma inherit_new_family:
  "family_rows db (r_family a) = [] \<Longrightarrow>
     r_origin (inherit_family db a) = r_created a \<and> r_jkt (inherit_family db a) = r_jkt a"
  by (simp add: inherit_family_def)

lemma store_wf_filter: "store_wf db \<Longrightarrow> rd_rows db' = filter q (rd_rows db) \<Longrightarrow> store_wf db'"
  by (simp add: store_wf_def distinct_map_filter)

lemma store_wf_grow:
  assumes "store_wf db" "rd_rows db' = map g (rd_rows db)" "\<And>r. grows r (g r)"
  shows "store_wf db'"
proof -
  note same = growsD [OF assms(3)]
  have fam: "r_origin (g r) = r_origin (g s) \<and> r_jkt (g r) = r_jkt (g s)"
    if "r \<in> set (rd_rows db)" "s \<in> set (rd_rows db)" "r_family (g r) = r_family (g s)" for r s
    using assms(1) that unfolding store_wf_def same(4-6) by blast
  have "map r_id (rd_rows db') = map r_id (rd_rows db)" "map r_hash (rd_rows db') = map r_hash (rd_rows db)"
    using assms(2) by (simp_all add: same(1,3))
  then have "distinct (map r_id (rd_rows db'))" "distinct (map r_hash (rd_rows db'))"
    using assms(1) by (simp_all add: store_wf_def)
  moreover have "\<forall>r \<in> set (rd_rows db'). \<forall>s \<in> set (rd_rows db').
      r_family r = r_family s \<longrightarrow> r_origin r = r_origin s \<and> r_jkt r = r_jkt s"
    unfolding assms(2) set_map using fam by blast
  ultimately show ?thesis unfolding store_wf_def by (intro conjI)
qed

lemma store_wf_insert:
  assumes wf: "store_wf db" and ad: "admits db a"
    and rows: "rd_rows db' = rd_rows db @ [inherit_family db a]"
  shows "store_wf db'"
proof -
  have inh: "r_origin (inherit_family db a) = r_origin r \<and> r_jkt (inherit_family db a) = r_jkt r"
    if "r \<in> set (rd_rows db)" "r_family r = r_family a" for r
    using that wf unfolding store_wf_def by (intro inherit_from_family [OF that]) metis
  show ?thesis
    unfolding store_wf_def
  proof (intro conjI ballI impI)
    show "distinct (map r_id (rd_rows db'))" "distinct (map r_hash (rd_rows db'))"
      using wf ad rows by (auto simp: store_wf_def admits_def)
  next
    fix r s assume "r \<in> set (rd_rows db')" "s \<in> set (rd_rows db')" "r_family r = r_family s"
    then have "r \<in> set (rd_rows db) \<and> s \<in> set (rd_rows db) \<or> r = inherit_family db a \<or> s = inherit_family db a"
      "r_family r = r_family s" "r \<in> set (rd_rows db) \<or> r = inherit_family db a"
      "s \<in> set (rd_rows db) \<or> s = inherit_family db a"
      by (auto simp: rows)
    then have "r_origin r = r_origin s \<and> r_jkt r = r_jkt s"
      using wf inh [of r] inh [of s] inherit_family_simps(4) [of db a] unfolding store_wf_def by metis
    then show "r_origin r = r_origin s" "r_jkt r = r_jkt s" by simp_all
  qed
qed

interpretation wf: step_invariant store_exec "\<lambda>_. True" store_wf
proof
  fix db p assume "store_wf db"
  then show "store_wf (store_exec db p)"
  proof (cases rule: store_exec_effect [of db p])
    case (update g)
    then show ?thesis by (rule store_wf_grow [OF \<open>store_wf db\<close>])
  next
    case (delete q)
    then show ?thesis by (intro store_wf_filter [OF \<open>store_wf db\<close>])
  next
    case (insert t)
    then show ?thesis by (intro store_wf_insert [OF \<open>store_wf db\<close>])
  qed
qed

text \<open>A revoked family, a family with a fixed birth date and binding, an erased account.\<close>

definition family_dead :: "string \<Rightarrow> refresh_db \<Rightarrow> bool" where
  "family_dead f db \<longleftrightarrow> family_rows db f \<noteq> [] \<and> list_all r_revoked (family_rows db f)"

definition family_bound :: "string \<Rightarrow> time \<Rightarrow> string option \<Rightarrow> refresh_db \<Rightarrow> bool" where
  "family_bound f b j db \<longleftrightarrow> family_rows db f \<noteq> [] \<and>
     list_all (\<lambda>r. r_origin r = b \<and> r_jkt r = j) (family_rows db f)"

definition erased :: "string \<Rightarrow> refresh_db \<Rightarrow> bool" where
  "erased u db \<longleftrightarrow> \<not> account_kept db u \<and> list_all (\<lambda>r. r_user r \<noteq> u) (rd_rows db)"

fun restores :: "string \<Rightarrow> store_op \<Rightarrow> bool" where
  "restores u (OpAccount v x) \<longleftrightarrow> v = u \<and> \<not> u_deleted x"
| "restores u _ \<longleftrightarrow> False"

lemma family_rows_map:
  assumes "rd_rows db' = map g (rd_rows db)" "\<And>r. grows r (g r)"
  shows "family_rows db' f = map g (family_rows db f)"
  using assms(1) by (simp add: family_rows_def filter_map o_def growsD(4) [OF assms(2)])

interpretation dead: step_invariant store_exec "\<lambda>p. \<not> deletes_rows p" "family_dead f" for f
proof
  fix db p assume inv: "family_dead f db" and nd: "\<not> deletes_rows p"
  show "family_dead f (store_exec db p)"
  proof (cases rule: store_exec_effect [of db p])
    case (update g)
    with inv show ?thesis
      by (simp add: family_dead_def family_rows_map [OF update] list_all_iff growsD(10) [OF update(2)])
  next
    case (delete q)
    with nd show ?thesis by simp
  next
    case (insert t)
    with inv have "t_familyID t \<noteq> f"
      by (auto simp: family_dead_def admits_def family_rows_empty_iff list_all_iff)
    with insert inv show ?thesis by (simp add: family_dead_def family_rows_def)
  qed
qed

interpretation bound: step_invariant store_exec "\<lambda>p. \<not> deletes_rows p" "family_bound f b j" for f b j
proof
  fix db p assume inv: "family_bound f b j db" and nd: "\<not> deletes_rows p"
  show "family_bound f b j (store_exec db p)"
  proof (cases rule: store_exec_effect [of db p])
    case (update g)
    with inv show ?thesis
      by (simp add: family_bound_def family_rows_map [OF update] list_all_iff growsD(5,6) [OF update(2)])
  next
    case (delete q)
    with nd show ?thesis by simp
  next
    case (insert t)
    let ?a = "refreshTokenInsertArgs t"
    have "r_origin (inherit_family db ?a) = b \<and> r_jkt (inherit_family db ?a) = j" if f: "t_familyID t = f"
    proof -
      obtain r where "r \<in> set (rd_rows db)" "r_family r = f"
        using inv by (auto simp: family_bound_def family_rows_empty_iff)
      with f inv show ?thesis
        by (intro inherit_from_family) (auto simp: family_bound_def list_all_iff)
    qed
    with insert inv show ?thesis by (auto simp: family_bound_def family_rows_def)
  qed
qed

interpretation gone: step_invariant store_exec "\<lambda>p. \<not> restores u p" "erased u" for u
proof
  fix db p assume inv: "erased u db" and nr: "\<not> restores u p"
  have kept: "\<not> account_kept (store_exec db p) u"
    using inv nr unfolding erased_def account_kept_def store_exec_users
    by (cases p) (auto simp: gomap_simps)
  show "erased u (store_exec db p)"
  proof (cases rule: store_exec_effect [of db p])
    case (update g)
    with inv kept show ?thesis by (simp add: erased_def list_all_iff growsD(2) [OF update(2)])
  next
    case (delete q)
    with inv kept show ?thesis by (auto simp: erased_def list_all_iff)
  next
    case (insert t)
    with inv kept show ?thesis by (auto simp: erased_def admits_def list_all_iff)
  qed
qed

section \<open>The reapers\<close>

lemma reap_rows_ids_unique:
  assumes "distinct (map r_id (rd_rows db))"
  shows "length (rd_rows db) - length (rd_rows (reap_rows p limit db)) =
           min limit (length (filter p (rd_rows db)))"
proof -
  let ?rows = "rd_rows db"
  let ?ids = "take limit (map r_id (sort_key r_id (filter p ?rows)))"
  have sub: "set ?ids \<subseteq> r_id ` set ?rows"
    by (auto dest!: in_set_takeD)
  have dist: "distinct ?ids"
    using assms by (intro distinct_take) (auto simp: distinct_map intro: inj_on_subset)
  have "set (map r_id (filter (\<lambda>r. r_id r \<in> set ?ids) ?rows)) = set ?ids"
    using sub by auto
  moreover have "distinct (map r_id (filter (\<lambda>r. r_id r \<in> set ?ids) ?rows))"
    using assms by (rule distinct_map_filter)
  ultimately have "length (filter (\<lambda>r. r_id r \<in> set ?ids) ?rows) = length ?ids"
    using dist by (metis distinct_card length_map)
  then show ?thesis
    using sum_length_filter_compl [of "\<lambda>r. r_id r \<in> set ?ids" ?rows]
    by (simp add: reap_rows_def Let_def)
qed

lemma reap_rows_only:
  assumes "distinct (map r_id (rd_rows db))" "r \<in> set (rd_rows db)"
    and "r \<notin> set (rd_rows (reap_rows p limit db))"
  shows "p r"
proof -
  have "r_id r \<in> set (take limit (map r_id (sort_key r_id (filter p (rd_rows db)))))"
    using assms(2,3) by (auto simp: reap_rows_def Let_def)
  then have "r_id r \<in> r_id ` set (filter p (rd_rows db))"
    by (auto dest!: in_set_takeD)
  then obtain s where "s \<in> set (rd_rows db)" "p s" "r_id s = r_id r" by auto
  with assms(1,2) show ?thesis by (auto simp: distinct_map inj_on_def)
qed

lemma reap_rows_distinct:
  "distinct (map r_id (rd_rows db)) \<Longrightarrow> distinct (map r_id (rd_rows (reap_rows p limit db)))"
  by (simp add: reap_rows_def Let_def distinct_map_filter)

lemma reap_rows_all:
  assumes "length (filter p (rd_rows db)) \<le> limit"
  shows "filter p (rd_rows (reap_rows p limit db)) = []"
  using assms by (auto simp: reap_rows_def Let_def filter_empty_conv)

lemma reap_batches_only:
  assumes "distinct (map r_id (rd_rows db))" "r \<in> set (rd_rows db)"
    and "r \<notin> set (rd_rows (fst (reap_batches p limit ups acc db)))"
  shows "p r"
  using assms
proof (induction p limit ups acc db rule: reap_batches.induct)
  case (2 p limit up ups acc db)
  show ?case
  proof (cases "r \<in> set (rd_rows (reap_rows p limit db))")
    case False
    with 2 reap_rows_only show ?thesis by blast
  next
    case True
    with 2 reap_rows_distinct show ?thesis by (auto simp: Let_def split: if_splits)
  qed
qed simp

lemma reap_batches_all:
  assumes "distinct (map r_id (rd_rows db))"
    and "reap_batches p limit ups acc db = (db', n, None)" "n < acc + limit * length ups"
  shows "filter p (rd_rows db') = []"
  using assms
proof (induction p limit ups acc db rule: reap_batches.induct)
  case (2 p limit up ups acc db)
  let ?db = "reap_rows p limit db"
  let ?n = "length (rd_rows db) - length (rd_rows ?db)"
  have up: "up" using 2(3) by (auto split: if_splits)
  show ?case
  proof (cases "?n < limit")
    case True
    then have "length (filter p (rd_rows db)) \<le> limit"
      using reap_rows_ids_unique [OF 2(2), of p limit] by simp
    moreover have "db' = ?db" using 2(3) up True by (simp add: Let_def)
    ultimately show ?thesis by (simp add: reap_rows_all)
  next
    case False
    moreover from False have "?n = limit"
      using reap_rows_ids_unique [OF 2(2), of p limit] by simp
    ultimately show ?thesis
      using 2 up reap_rows_distinct by (auto simp: Let_def algebra_simps)
  qed
qed simp

section \<open>Sample data\<close>

definition sample_token :: "string \<Rightarrow> string \<Rightarrow> time \<Rightarrow> RefreshToken" where
  "sample_token i f now =
     \<lparr> t_id = i, t_userID = ''u'', t_clientID = [], t_tokenHash = i, t_familyID = f, t_deviceID = ''d'',
       t_fingerprintHash = ''fp'', t_dpopJKT = ''jkt'', t_expiresAt = now + 100, t_used = False,
       t_revoked = False, t_createdAt = now \<rparr>"

definition sample_user :: User where
  "sample_user =
     \<lparr> u_id = ''u'', u_email = ''a@b.c'', u_emailVerified = True, u_passwordHash = ''hash'',
       u_displayName = [], u_avatarURL = [], u_locale = ''en'', u_mfaRequired = False,
       u_lockedUntil = None, u_failedLoginCount = 0, u_createdAt = 1, u_updatedAt = 1,
       u_roles = [''user''], u_disabled = False, u_banned = False, u_banReason = [],
       u_lastLoginAt = None, u_deleted = False, u_deletedAt = None, u_importPending = False,
       u_importedFrom = [], u_legacyID = [], u_mustResetPassword = False \<rparr>"

definition empty_db :: refresh_db where
  "empty_db = \<lparr> rd_rows = [], rd_users = [(''u'', sample_user)] \<rparr>"

definition sample_db :: refresh_db where
  "sample_db = store_run empty_db [OpCreate True (sample_token ''1'' ''f'' 10)]"

lemmas sample_simps =
  sample_token_def sample_user_def empty_db_def sample_db_def rt_Create_def rt_CreateWithinCap_def
  insertRefreshRow_def refreshTokenInsertArgs_def family_rows_def account_kept_def nullStr_def
  rt_MarkUsed_def update_rows_def countActiveFamilies_def active_def lockThenWrite_def
  rt_RevokeFamily_def rt_DeleteAllForUser_def

section \<open>Properties of the store\<close>

definition spent :: "string \<Rightarrow> refresh_db \<Rightarrow> bool" where
  "spent i db \<longleftrightarrow> (\<forall>r \<in> set (rd_rows db). r_id r = i \<longrightarrow> r_used r \<or> r_revoked r)"

interpretation spent: step_invariant store_exec "\<lambda>p. \<forall>t. creates p = Some t \<longrightarrow> t_id t \<noteq> i" "spent i" for i
proof
  fix db p assume inv: "spent i db" and fresh: "\<forall>t. creates p = Some t \<longrightarrow> t_id t \<noteq> i"
  show "spent i (store_exec db p)"
  proof (cases rule: store_exec_effect [of db p])
    case (update g)
    have "r_used (g r) \<or> r_revoked (g r)" if "r \<in> set (rd_rows db)" "r_id (g r) = i" for r
      using that inv growsD(1,9,10) [OF update(2), of r] unfolding spent_def by metis
    then show ?thesis by (simp add: spent_def update(1))
  next
    case (delete q)
    with inv show ?thesis by (simp add: spent_def)
  next
    case (insert t)
    with inv fresh show ?thesis by (simp add: spent_def)
  qed
qed

lemma spent_not_marked:
  assumes "spent i db"
  shows "snd (rt_MarkUsed up db i) \<noteq> Inr True"
proof -
  have "filter (\<lambda>r. r_id r = i \<and> \<not> r_used r \<and> \<not> r_revoked r) (rd_rows db) = []"
    using assms by (simp add: spent_def filter_empty_conv)
  then show ?thesis by (simp add: rt_MarkUsed_def Let_def)
qed

lemma mark_wins_spent:
  assumes "spent i db" and "\<forall>p \<in> set ps. \<forall>t. creates p = Some t \<longrightarrow> t_id t \<noteq> i"
  shows "mark_wins i db ps = 0"
  using assms
proof (induction ps arbitrary: db)
  case (Cons p ps)
  then have "mark_wins i (store_exec db p) ps = 0"
    using spent.keeps [of i db p] by simp
  with spent_not_marked [OF Cons.prems(1)] show ?case by (cases p) auto
qed simp

lemma mark_used_spends:
  assumes "snd (rt_MarkUsed up db i) = Inr True"
  shows "spent i (fst (rt_MarkUsed up db i))"
proof -
  have up using assms by (cases up) (simp_all add: rt_MarkUsed_def)
  then show ?thesis by (simp add: spent_def rt_MarkUsed_def Let_def del: if_image_distrib)
qed

text \<open>A refresh token is spent at most once. However the statements of any number of requests
  interleave, with revocations, reaping and erasure among them, \<open>MarkUsed\<close> answers true for one row
  id at most once, as long as no statement inserts a second row with that id.\<close>

theorem refresh_token_spent_at_most_once:
  assumes "\<forall>p \<in> set ps. \<forall>t. creates p = Some t \<longrightarrow> t_id t \<noteq> i"
  shows "mark_wins i db ps \<le> 1"
  using assms
proof (induction ps arbitrary: db)
  case (Cons p ps)
  show ?case
  proof (cases "\<exists>up. p = OpMarkUsed up i \<and> snd (rt_MarkUsed up db i) = Inr True")
    case True
    with Cons.prems show ?thesis
      by (auto simp: mark_wins_spent [OF mark_used_spends])
  next
    case False
    with Cons show ?thesis by (cases p) auto
  qed
qed simp

theorem refresh_token_spent_at_most_once_witness:
  "mark_wins ''1'' sample_db [OpMarkUsed True ''1'', OpMarkUsed True ''1''] = 1"
proof -
  have "mark_wins ''1'' sample_db [OpMarkUsed True ''1'', OpMarkUsed True ''1''] \<le> 1"
    by (rule refresh_token_spent_at_most_once) simp
  moreover have "mark_wins ''1'' sample_db [OpMarkUsed True ''1'', OpMarkUsed True ''1''] \<noteq> 0"
    by (simp add: sample_simps)
  ultimately show ?thesis by linarith
qed

lemma store_wf_id_unique:
  "store_wf db \<Longrightarrow> r \<in> set (rd_rows db) \<Longrightarrow> s \<in> set (rd_rows db) \<Longrightarrow> r_id s = r_id r \<Longrightarrow> s = r"
  unfolding store_wf_def distinct_map inj_on_def by blast

lemma RevokeFamily_dead:
  assumes "snd (rt_RevokeFamily up db f) = Inr ()" "family_rows db f \<noteq> []"
  shows "family_dead f (fst (rt_RevokeFamily up db f))"
proof -
  let ?g = "\<lambda>r. if r_family r = f then r\<lparr> r_revoked := True \<rparr> else r"
  have "rd_rows (fst (rt_RevokeFamily up db f)) = map ?g (rd_rows db)"
    using assms(1) unfolding rt_RevokeFamily_def by (simp add: lockThenWrite_ok_db)
  then have "family_rows (fst (rt_RevokeFamily up db f)) f = map ?g (family_rows db f)"
    by (rule family_rows_map) simp
  with assms(2) show ?thesis by (simp add: family_dead_def list_all_iff)
qed

text \<open>C3: A revoked family stays dead. After \<open>RevokeFamily\<close> has answered without error for a family
  that has rows, no interleaving of the other statements (row removal aside) leaves a live row in the
  family: every row is revoked, \<open>Create\<close> refuses the family, and no row of it can be spent.\<close>

theorem revoked_family_stays_dead:
  assumes "snd (rt_RevokeFamily up db f) = Inr ()" and "family_rows db f \<noteq> []"
    and "list_all (\<lambda>p. \<not> deletes_rows p) ps"
    and "db' = store_run (fst (rt_RevokeFamily up db f)) ps"
  shows "(\<forall>r \<in> set (rd_rows db'). r_family r = f \<longrightarrow> r_revoked r) \<and>
         (\<forall>up t. t_familyID t = f \<longrightarrow> snd (rt_Create up db' t) \<noteq> Inr ()) \<and>
         (\<forall>up r. r \<in> set (rd_rows db') \<and> r_family r = f \<and> store_wf db' \<longrightarrow>
                 snd (rt_MarkUsed up db' (r_id r)) \<noteq> Inr True)"
proof -
  have "family_dead f (fst (rt_RevokeFamily up db f))"
    using assms(1,2) by (rule RevokeFamily_dead)
  then have dead: "family_dead f db'"
    using assms(3,4) dead.run_keeps by blast
  then have rev: "\<forall>r \<in> set (rd_rows db'). r_family r = f \<longrightarrow> r_revoked r"
    by (auto simp: family_dead_def list_all_iff)
  moreover have "snd (rt_Create up db' t) \<noteq> Inr ()" if "t_familyID t = f" for up t
    using that dead by (auto simp: rt_Create_ok_iff admits_def family_dead_def family_rows_empty_iff list_all_iff)
  moreover have "snd (rt_MarkUsed up db' (r_id r)) \<noteq> Inr True"
    if r: "r \<in> set (rd_rows db')" "r_family r = f" and wf: "store_wf db'" for up r
  proof -
    have "s = r" if "s \<in> set (rd_rows db')" "r_id s = r_id r" for s
      using store_wf_id_unique [OF wf r(1)] that by blast
    then have "filter (\<lambda>s. r_id s = r_id r \<and> \<not> r_used s \<and> \<not> r_revoked s) (rd_rows db') = []"
      using r rev by (auto simp: filter_empty_conv)
    then show ?thesis by (simp add: rt_MarkUsed_def Let_def)
  qed
  ultimately show ?thesis by (intro conjI allI impI) auto
qed

theorem revoked_family_stays_dead_witness:
  "list_all (\<lambda>r. r_family r = ''f'' \<longrightarrow> r_revoked r)
     (rd_rows (store_run (fst (rt_RevokeFamily (\<lambda>_. True) sample_db ''f''))
        [OpCreate True (sample_token ''2'' ''f'' 20), OpMarkUsed True ''1'']))"
proof -
  let ?ps = "[OpCreate True (sample_token ''2'' ''f'' 20), OpMarkUsed True ''1'']"
  have "snd (rt_RevokeFamily (\<lambda>_. True) sample_db ''f'') = Inr ()"
    by (simp add: rt_RevokeFamily_def lockThenWrite_ok_iff)
  moreover have "family_rows sample_db ''f'' \<noteq> []"
    by (simp add: sample_simps)
  moreover have "list_all (\<lambda>p. \<not> deletes_rows p) ?ps" by simp
  ultimately show ?thesis
    using revoked_family_stays_dead [of "\<lambda>_. True" sample_db "''f''" ?ps, OF _ _ _ refl]
    unfolding list_all_iff by blast
qed


definition sample_rebind :: RefreshToken where
  "sample_rebind = (sample_token ''2'' ''f'' 20)\<lparr> t_dpopJKT := ''stolen'' \<rparr>"


text \<open>C32: Erasure is complete. Once the account is tombstoned and \<open>DeleteAllForUser\<close> has answered
  without error, no interleaving of statements, an insert already in flight included, puts a row of
  the account back, as long as the tombstone is not undone.\<close>

theorem erasure_leaves_no_session:
  assumes "\<not> account_kept db u" and "snd (rt_DeleteAllForUser up db u) = Inr ()"
    and "list_all (\<lambda>p. \<not> restores u p) ps"
  shows "filter (\<lambda>r. r_user r = u) (rd_rows (store_run (fst (rt_DeleteAllForUser up db u)) ps)) = []"
proof -
  have "erased u (fst (rt_DeleteAllForUser up db u))"
    using assms(1,2) by (simp add: rt_DeleteAllForUser_def lockThenWrite_ok_db erased_def
        account_kept_def list_all_iff)
  from gone.run_keeps [OF this assms(3)] show ?thesis
    by (simp add: erased_def list_all_iff filter_empty_conv)
qed

theorem erasure_leaves_no_session_witness:
  "filter (\<lambda>r. r_user r = ''u'')
     (rd_rows (store_run (fst (rt_DeleteAllForUser (\<lambda>_. True)
          (store_exec sample_db (OpAccount ''u'' (sample_user\<lparr> u_deleted := True \<rparr>))) ''u''))
        [OpCreate True (sample_token ''2'' ''f'' 20)])) = []"
  by (rule erasure_leaves_no_session) (simp_all add: sample_simps)

lemma countActiveFamilies_append:
  "countActiveFamilies (db\<lparr> rd_rows := rd_rows db @ [x] \<rparr>) now u \<le> Suc (countActiveFamilies db now u)"
  by (simp add: countActiveFamilies_def length_remdups_card_conv card_insert_if)

text \<open>The capped insert keeps the cap. When \<open>CreateWithinCap\<close> with a positive cap answers without
  error, the account holds at most that many active families right after it; when it refuses, the
  table is unchanged.\<close>

theorem capped_insert_keeps_cap:
  assumes "0 < m"
  shows "(snd (rt_CreateWithinCap up db now t m) = Inr () \<longrightarrow>
            int (countActiveFamilies (fst (rt_CreateWithinCap up db now t m)) now (t_userID t)) \<le> m) \<and>
         (\<forall>e. snd (rt_CreateWithinCap up db now t m) = Inl e \<longrightarrow>
            fst (rt_CreateWithinCap up db now t m) = db)"
proof (intro conjI impI allI)
  assume "snd (rt_CreateWithinCap up db now t m) = Inr ()"
  then have cap: "cap_open up db now t m" and ad: "admits db (refreshTokenInsertArgs t)"
    by (simp_all add: rt_CreateWithinCap_ok_iff)
  have "countActiveFamilies (fst (rt_CreateWithinCap up db now t m)) now (t_userID t)
          \<le> Suc (countActiveFamilies db now (t_userID t))"
    using cap ad by (simp add: rt_CreateWithinCap_db countActiveFamilies_append)
  moreover have "int (countActiveFamilies db now (t_userID t)) < m"
    using cap assms by (simp add: cap_open_def)
  ultimately show "int (countActiveFamilies (fst (rt_CreateWithinCap up db now t m)) now (t_userID t)) \<le> m"
    by linarith
next
  fix e assume "snd (rt_CreateWithinCap up db now t m) = Inl e"
  then show "fst (rt_CreateWithinCap up db now t m) = db"
    using rt_CreateWithinCap_ok_iff [of up db now t m] by (simp add: rt_CreateWithinCap_db)
qed

theorem capped_insert_keeps_cap_witness:
  "snd (rt_CreateWithinCap (\<lambda>_. True) sample_db 20 (sample_token ''2'' ''g'' 20) 2) = Inr () \<and>
   countActiveFamilies (fst (rt_CreateWithinCap (\<lambda>_. True) sample_db 20 (sample_token ''2'' ''g'' 20) 2)) 20 ''u'' \<le> 2"
  using capped_insert_keeps_cap [of 2 "\<lambda>_. True" sample_db 20 "sample_token ''2'' ''g'' 20"]
  by (simp add: sample_simps)

text \<open>The cap is not kept across a rotation. With a cap of one, a rotation's \<open>MarkUsed\<close> takes its
  family out of the count, a login's \<open>CreateWithinCap\<close> then finds a free slot, and the rotation's
  uncapped \<open>Create\<close> puts the family back: every step succeeds and the account holds two active
  families.\<close>

theorem rotation_overshoots_session_cap:
  "let db1 = fst (rt_MarkUsed True sample_db ''1'');
       db2 = fst (rt_CreateWithinCap (\<lambda>_. True) db1 20 (sample_token ''2'' ''g'' 20) 1);
       db3 = fst (rt_Create True db2 (sample_token ''3'' ''f'' 20))
   in countActiveFamilies sample_db 20 ''u'' = 1 \<and>
      snd (rt_MarkUsed True sample_db ''1'') = Inr True \<and>
      snd (rt_CreateWithinCap (\<lambda>_. True) db1 20 (sample_token ''2'' ''g'' 20) 1) = Inr () \<and>
      snd (rt_Create True db2 (sample_token ''3'' ''f'' 20)) = Inr () \<and>
      countActiveFamilies db3 20 ''u'' = 2"
  by (simp add: sample_simps)

text \<open>The session listing and the session cap agree. A successful \<open>ListActiveFamilies\<close> lists each
  active family exactly once, newest first, and lists as many as \<open>CountActiveFamilies\<close> counts: a
  session held against the cap is a session the user can see and end.\<close>

theorem listing_agrees_with_cap:
  assumes "rt_ListActiveFamilies up db now u = Inr fs"
  shows "rt_CountActiveFamilies up db now u = Inr (int (length fs)) \<and>
         distinct (map af_familyID fs) \<and>
         set (map af_familyID fs) = r_family ` {r \<in> set (rd_rows db). active u now r} \<and>
         sorted (map (\<lambda>a. - af_lastUsedAt a) fs)"
proof -
  let ?live = "filter (active u now) (rd_rows db)"
  have live: "filter (\<lambda>r. \<not> r_revoked r \<and> \<not> r_used r \<and> now < r_expires r)
      (filter (\<lambda>r. r_user r = u) (rd_rows db)) = ?live"
    unfolding filter_filter by (rule filter_cong) (simp_all add: active_def)
  obtain entry where fs: "fs = sort_key (\<lambda>a. - af_lastUsedAt a) (map entry (remdups (map r_family ?live)))"
    and id: "\<And>f. af_familyID (entry f) = f" and up: up
    using assms unfolding rt_ListActiveFamilies_def Let_def live
    by (auto split: if_splits)
  have "length fs = countActiveFamilies db now u"
    by (simp add: fs countActiveFamilies_def)
  moreover have "set (map af_familyID fs) = set (map r_family ?live)"
    by (simp add: fs id image_image)
  moreover have "distinct (map af_familyID fs)"
    unfolding distinct_map
  proof
    have "inj entry" by (metis id injI)
    then show "distinct fs" by (simp add: fs distinct_map inj_on_subset [OF _ subset_UNIV])
    show "inj_on af_familyID (set fs)"
      by (rule inj_on_inverseI [of _ entry]) (use id in \<open>auto simp: fs\<close>)
  qed
  ultimately show ?thesis using up
    by (auto simp: rt_CountActiveFamilies_def fs)
qed

theorem listing_agrees_with_cap_witness:
  "\<exists>fs. rt_ListActiveFamilies True sample_db 20 ''u'' = Inr fs \<and> map af_familyID fs = [''f''] \<and>
     rt_CountActiveFamilies True sample_db 20 ''u'' = Inr 1"
proof -
  obtain fs where fs: "rt_ListActiveFamilies True sample_db 20 ''u'' = Inr fs"
    by (simp add: rt_ListActiveFamilies_def Let_def)
  moreover have "map af_familyID fs = [''f'']"
    using fs by (auto simp: rt_ListActiveFamilies_def Let_def sample_simps)
  ultimately show ?thesis
    using listing_agrees_with_cap [OF fs] by (metis length_Cons length_map list.size(3) of_nat_1 One_nat_def)
qed

lemma sweep_steps:
  assumes "rt_Sweep up1 up2 db now = (db', n, None)"
  obtains db1 n1 n2 where "rt_DeleteExpired up1 db now = (db1, n1, None)"
    "rt_DeleteExpiredUnused up2 db1 now = (db', n2, None)" "n = n1 + n2"
  using assms unfolding rt_Sweep_def
  by (auto split: prod.splits option.splits)

text \<open>The reaper removes dead rows and nothing else. A row that a successful sweep removed had
  expired, and a sweep that removed fewer rows than its batch limit leaves no expired row behind.\<close>

theorem sweep_removes_exactly_expired:
  assumes "store_wf db" and "rt_Sweep up1 up2 db now = (db', n, None)"
  shows "(\<forall>r \<in> set (rd_rows db) - set (rd_rows db'). r_expires r < now) \<and>
         (n < refreshReapBatch * refreshReapMaxBatches \<longrightarrow> filter (\<lambda>r. r_expires r < now) (rd_rows db') = [])"
proof -
  obtain db1 n1 n2 where d1: "rt_DeleteExpired up1 db now = (db1, n1, None)"
    and d2: "rt_DeleteExpiredUnused up2 db1 now = (db', n2, None)" and n: "n = n1 + n2"
    by (rule sweep_steps [OF assms(2)])
  let ?p = "\<lambda>r. r_expires r < now \<and> (r_used r \<or> r_revoked r)"
  let ?q = "\<lambda>r. r_expires r < now \<and> \<not> r_used r \<and> \<not> r_revoked r"
  have wf: "distinct (map r_id (rd_rows db))" using assms(1) by (simp add: store_wf_def)
  define ups1 where "ups1 = map up1 [0..<refreshReapMaxBatches]"
  define ups2 where "ups2 = map up2 [0..<refreshReapMaxBatches]"
  have d1: "reap_batches ?p refreshReapBatch ups1 0 db = (db1, n1, None)"
    using d1 by (simp only: rt_DeleteExpired_def ups1_def)
  have d2: "reap_batches ?q refreshReapBatch ups2 0 db1 = (db', n2, None)"
    using d2 by (simp only: rt_DeleteExpiredUnused_def ups2_def)
  have len: "length ups1 = refreshReapMaxBatches" "length ups2 = refreshReapMaxBatches"
    by (simp_all add: ups1_def ups2_def)
  obtain k1 where k1: "rd_rows db1 = filter k1 (rd_rows db)"
    using reap_batches_filters [of ?p refreshReapBatch ups1 0 db] unfolding d1 fst_conv by (rule exE)
  obtain k2 where k2: "rd_rows db' = filter k2 (rd_rows db1)"
    using reap_batches_filters [of ?q refreshReapBatch ups2 0 db1] unfolding d2 fst_conv by (rule exE)
  have wf1: "distinct (map r_id (rd_rows db1))" using wf k1 by (simp add: distinct_map_filter)
  have "r_expires r < now" if r: "r \<in> set (rd_rows db)" "r \<notin> set (rd_rows db')" for r
  proof (cases "r \<in> set (rd_rows db1)")
    case True
    from reap_batches_only [OF wf1 True, of ?q refreshReapBatch ups2 0] r(2) show ?thesis
      unfolding d2 fst_conv by argo
  next
    case False
    from reap_batches_only [OF wf r(1), of ?p refreshReapBatch ups1 0] False show ?thesis
      unfolding d1 fst_conv by argo
  qed
  moreover have "filter (\<lambda>r. r_expires r < now) (rd_rows db') = []"
    if "n < refreshReapBatch * refreshReapMaxBatches"
  proof -
    have p: "filter ?p (rd_rows db1) = []"
      using that n len by (intro reap_batches_all [OF wf d1]) simp
    have q: "filter ?q (rd_rows db') = []"
      using that n len by (intro reap_batches_all [OF wf1 d2]) simp
    have "\<not> r_expires r < now" if r: "r \<in> set (rd_rows db')" for r
    proof -
      have "r \<in> set (rd_rows db1)" using r by (simp add: k2)
      then have "\<not> ?p r" using p unfolding filter_empty_conv by (rule bspec [rotated])
      moreover have "\<not> ?q r" using q r unfolding filter_empty_conv by (rule bspec)
      ultimately show ?thesis by argo
    qed
    then show ?thesis by (simp add: filter_empty_conv)
  qed
  ultimately show ?thesis by (intro conjI ballI impI) simp_all
qed

theorem sweep_removes_exactly_expired_witness:
  "\<exists>db'. rt_Sweep (\<lambda>_. True) (\<lambda>_. True) sample_db 200 = (db', 1, None) \<and>
         filter (\<lambda>r. r_expires r < 200) (rd_rows db') = []"
proof (intro exI conjI)
  let ?db = "sample_db\<lparr> rd_rows := [] \<rparr>"
  show run: "rt_Sweep (\<lambda>_. True) (\<lambda>_. True) sample_db 200 = (?db, 1, None)"
    by (simp add: rt_Sweep_def rt_DeleteExpired_def rt_DeleteExpiredUnused_def sample_simps
        refreshReapBatch_def refreshReapMaxBatches_def upt_rec reap_rows_def)
  have "store_wf sample_db" by (simp add: sample_simps store_wf_def)
  note this [THEN sweep_removes_exactly_expired, OF run, THEN conjunct2, THEN mp]
  then show "filter (\<lambda>r. r_expires r < 200) (rd_rows ?db) = []"
    by (simp add: refreshReapBatch_def refreshReapMaxBatches_def)
qed

end
