(* ===== verification/Token_Service.thy ===== *)
theory Token_Service
  imports Prelude
begin

text \<open>
  Token issuance: \<open>internal/service/token.go\<close>, the assurance vocabulary of
  \<open>internal/service/mfa.go\<close> that feeds it, and the request context of \<open>internal/dpop/binding.go\<close>.

  Signing (JSON encoding and RSA) is the argument \<open>sign\<close> of the functions that issue a token; a
  private key is a value of the type variable \<open>'k\<close>. The random draws of one request are the record
  \<open>draws\<close>, in which \<open>None\<close> is a failed read of the system's randomness.
\<close>

section \<open>Assurance levels\<close>

datatype AuthenticatorAssuranceLevel = AAL1 | AAL2 | AAL3

abbreviation MethodPassword :: string where "MethodPassword \<equiv> ''password''"
abbreviation MethodTOTP :: string where "MethodTOTP \<equiv> ''totp''"
abbreviation MethodEmailOTP :: string where "MethodEmailOTP \<equiv> ''email_otp''"
abbreviation MethodBackupCode :: string where "MethodBackupCode \<equiv> ''backup_code''"
abbreviation MethodWebAuthn :: string where "MethodWebAuthn \<equiv> ''webauthn''"
abbreviation MethodFederated :: string where "MethodFederated \<equiv> ''federated''"

record factorSet =
  f_password :: bool
  f_totp :: bool
  f_emailOTP :: bool
  f_backupCode :: bool
  f_webAuthn :: bool
  f_federated :: bool

definition add_factor :: "factorSet \<Rightarrow> string \<Rightarrow> factorSet" where
  "add_factor f m =
     (if m = MethodPassword then f\<lparr> f_password := True \<rparr>
      else if m = MethodTOTP then f\<lparr> f_totp := True \<rparr>
      else if m = MethodEmailOTP then f\<lparr> f_emailOTP := True \<rparr>
      else if m = MethodBackupCode then f\<lparr> f_backupCode := True \<rparr>
      else if m = MethodWebAuthn then f\<lparr> f_webAuthn := True \<rparr>
      else if m = MethodFederated then f\<lparr> f_federated := True \<rparr>
      else f)"

definition factorsFrom :: "string list \<Rightarrow> factorSet" where
  "factorsFrom methods =
     foldl add_factor
       \<lparr> f_password = False, f_totp = False, f_emailOTP = False, f_backupCode = False,
         f_webAuthn = False, f_federated = False \<rparr> methods"

definition AALForMethods :: "string list \<Rightarrow> bool \<Rightarrow> AuthenticatorAssuranceLevel" where
  "AALForMethods methods userVerified =
     (let f = factorsFrom methods;
          firstFactor = f_password f \<or> f_federated f;
          possession = f_totp f \<or> f_emailOTP f \<or> f_backupCode f \<or> f_webAuthn f
      in if f_webAuthn f \<and> userVerified then AAL2
         else if firstFactor \<and> possession then AAL2
         else AAL1)"

definition ACRForAAL :: "AuthenticatorAssuranceLevel \<Rightarrow> string" where
  "ACRForAAL aal = ''urn:vault42:aal:'' @ (case aal of AAL1 \<Rightarrow> ''1'' | AAL2 \<Rightarrow> ''2'' | AAL3 \<Rightarrow> ''3'')"

definition AMRForMethods :: "string list \<Rightarrow> bool \<Rightarrow> string list" where
  "AMRForMethods methods userVerified =
     (let f = factorsFrom methods
      in (if f_password f then [''pwd''] else []) @
         (if f_totp f \<or> f_emailOTP f \<or> f_backupCode f then [''otp''] else []) @
         (if f_webAuthn f then ''hwk'' # (if userVerified then [''user''] else []) else []) @
         (if AALForMethods methods userVerified \<noteq> AAL1 then [''mfa''] else []))"

section \<open>Contexts, claims and pairs\<close>

text \<open>The one value issuance reads from a request context.\<close>

record Ctx =
  ctx_thumbprint :: string

definition WithThumbprint :: "Ctx \<Rightarrow> string \<Rightarrow> Ctx" where
  "WithThumbprint ctx jkt = ctx\<lparr> ctx_thumbprint := jkt \<rparr>"

definition Thumbprint :: "Ctx \<Rightarrow> string" where
  "Thumbprint ctx = ctx_thumbprint ctx"

text \<open>\<open>NewNumericDate\<close> truncates to the second; a claim that is absent is \<open>None\<close>.\<close>

definition NewNumericDate :: "time \<Rightarrow> time" where
  "NewNumericDate t = t - t mod Second"

record VaultClaims =
  c_iss :: string
  c_aud :: "string list"
  c_sub :: string
  c_exp :: "time option"
  c_nbf :: "time option"
  c_iat :: "time option"
  c_jti :: string
  c_roles :: "string list"
  c_scopes :: "string list"
  c_client_id :: string
  c_fingerprint :: string
  c_cnf :: "string option"
  c_token_type :: string
  c_minted_by :: string
  c_acr :: string
  c_amr :: "string list"
  c_auth_time :: int
  c_factors :: "string list"
  c_email :: string

record AuthContext =
  ac_acr :: string
  ac_amr :: "string list"
  ac_authTime :: time

definition no_auth :: AuthContext where
  "no_auth = \<lparr> ac_acr = [], ac_amr = [], ac_authTime = 0 \<rparr>"

definition NewAuthContext :: "time \<Rightarrow> string list \<Rightarrow> bool \<Rightarrow> AuthContext" where
  "NewAuthContext at methods userVerified =
     \<lparr> ac_acr = ACRForAAL (AALForMethods methods userVerified),
       ac_amr = AMRForMethods methods userVerified, ac_authTime = at \<rparr>"

definition authTimeSeconds :: "time \<Rightarrow> int" where
  "authTimeSeconds t = (if IsZero t then 0 else Unix t)"

record TokenPair =
  p_accessToken :: string
  p_refreshToken :: string
  p_expiresAt :: time
  p_refreshExpAt :: time
  p_familyID :: string

section \<open>The service\<close>

record 'k TokenService =
  ts_privateKey :: "'k option"
  ts_kid :: string
  ts_issuer :: string
  ts_audience :: string
  ts_accessTokenTTL :: duration
  ts_refreshTokenTTL :: duration
  ts_rememberMeTTL :: duration
  ts_maxSessionLifetime :: duration
  ts_inactivityTimeout :: duration

datatype token_error = ErrRandom | ErrSign

record draws =
  d_jti :: "string option"
  d_token :: "string option"
  d_family :: "string option"
  d_row :: "string option"

type_synonym 'k signer = "VaultClaims \<Rightarrow> 'k option \<Rightarrow> string \<Rightarrow> string option"

definition NewTokenService ::
  "'k option \<Rightarrow> string \<Rightarrow> string \<Rightarrow> string \<Rightarrow> duration \<Rightarrow> duration \<Rightarrow> duration \<Rightarrow> 'k TokenService" where
  "NewTokenService key kid issuer audience accessTTL refreshTTL rememberTTL =
     \<lparr> ts_privateKey = key, ts_kid = kid, ts_issuer = issuer, ts_audience = audience,
       ts_accessTokenTTL = accessTTL, ts_refreshTokenTTL = refreshTTL,
       ts_rememberMeTTL = rememberTTL, ts_maxSessionLifetime = 0, ts_inactivityTimeout = 0 \<rparr>"

definition SetMaxSessionLifetime :: "'k TokenService \<Rightarrow> duration \<Rightarrow> 'k TokenService" where
  "SetMaxSessionLifetime s d = s\<lparr> ts_maxSessionLifetime := d \<rparr>"

definition SetInactivityTimeout :: "'k TokenService \<Rightarrow> duration \<Rightarrow> 'k TokenService" where
  "SetInactivityTimeout s d = s\<lparr> ts_inactivityTimeout := d \<rparr>"

text \<open>The wipe of the replaced key changes no value the service reads again.\<close>

definition UpdateSigningKey :: "'k TokenService \<Rightarrow> 'k option \<Rightarrow> string \<Rightarrow> 'k TokenService" where
  "UpdateSigningKey s key kid = s\<lparr> ts_privateKey := key, ts_kid := kid \<rparr>"

definition sessionDeadline :: "time \<Rightarrow> duration \<Rightarrow> time" where
  "sessionDeadline origin maxLifetime = (if maxLifetime \<le> 0 \<or> IsZero origin then 0 else origin + maxLifetime)"

definition clampExpiry :: "time \<Rightarrow> time \<Rightarrow> time" where
  "clampExpiry exp deadline = (if \<not> IsZero deadline \<and> deadline < exp then deadline else exp)"

definition cnf_of :: "Ctx \<Rightarrow> string option" where
  "cnf_of ctx = (if Thumbprint ctx \<noteq> [] then Some (Thumbprint ctx) else None)"

definition accessClaims ::
  "'k TokenService \<Rightarrow> Ctx \<Rightarrow> time \<Rightarrow> string \<Rightarrow> string \<Rightarrow> string list \<Rightarrow> string list \<Rightarrow> string \<Rightarrow> string \<Rightarrow>
     AuthContext \<Rightarrow> VaultClaims" where
  "accessClaims s ctx now jti userID roles scopes clientID fingerprint auth =
     \<lparr> c_iss = ts_issuer s, c_aud = [ts_audience s], c_sub = userID,
       c_exp = Some (NewNumericDate (now + ts_accessTokenTTL s)),
       c_nbf = Some (NewNumericDate now), c_iat = Some (NewNumericDate now), c_jti = jti,
       c_roles = roles, c_scopes = scopes, c_client_id = clientID, c_fingerprint = fingerprint,
       c_cnf = cnf_of ctx, c_token_type = ''Bearer'', c_minted_by = [], c_acr = ac_acr auth,
       c_amr = ac_amr auth, c_auth_time = authTimeSeconds (ac_authTime auth), c_factors = [],
       c_email = [] \<rparr>"

definition IssueTokenPairWithAuth ::
  "'k signer \<Rightarrow> 'k TokenService \<Rightarrow> draws \<Rightarrow> time \<Rightarrow> Ctx \<Rightarrow> string \<Rightarrow> string list \<Rightarrow> string list \<Rightarrow> string \<Rightarrow>
     string \<Rightarrow> string \<Rightarrow> bool \<Rightarrow> AuthContext \<Rightarrow> token_error + TokenPair" where
  "IssueTokenPairWithAuth sign s d now ctx userID roles scopes clientID fingerprint familyID rememberMe auth =
     (case d_jti d of
        None \<Rightarrow> Inl ErrRandom
      | Some jti \<Rightarrow>
          let newFamily = (familyID = []);
              claims = accessClaims s ctx now jti userID roles scopes clientID fingerprint auth
          in case sign claims (ts_privateKey s) (ts_kid s) of
               None \<Rightarrow> Inl ErrSign
             | Some accessToken \<Rightarrow>
                 (case d_token d of
                    None \<Rightarrow> Inl ErrRandom
                  | Some refreshToken \<Rightarrow>
                      let refreshTTL = (if rememberMe then ts_rememberMeTTL s else ts_refreshTokenTTL s)
                      in case (if newFamily then d_family d else Some familyID) of
                           None \<Rightarrow> Inl ErrRandom
                         | Some family \<Rightarrow>
                             let exp0 = now + refreshTTL;
                                 exp1 = (if newFamily
                                         then clampExpiry exp0 (sessionDeadline now (ts_maxSessionLifetime s))
                                         else exp0);
                                 exp2 = clampExpiry exp1 (sessionDeadline now (ts_inactivityTimeout s))
                             in Inr \<lparr> p_accessToken = accessToken, p_refreshToken = refreshToken,
                                      p_expiresAt = now + ts_accessTokenTTL s, p_refreshExpAt = exp2,
                                      p_familyID = family \<rparr>))"

definition IssueTokenPair ::
  "'k signer \<Rightarrow> 'k TokenService \<Rightarrow> draws \<Rightarrow> time \<Rightarrow> Ctx \<Rightarrow> string \<Rightarrow> string list \<Rightarrow> string list \<Rightarrow> string \<Rightarrow>
     string \<Rightarrow> string \<Rightarrow> bool \<Rightarrow> token_error + TokenPair" where
  "IssueTokenPair sign s d now ctx userID roles scopes clientID fingerprint familyID rememberMe =
     IssueTokenPairWithAuth sign s d now ctx userID roles scopes clientID fingerprint familyID rememberMe no_auth"

definition IssueRotatedPair ::
  "'k signer \<Rightarrow> 'k TokenService \<Rightarrow> draws \<Rightarrow> time \<Rightarrow> Ctx \<Rightarrow> string \<Rightarrow> string list \<Rightarrow> string list \<Rightarrow> string \<Rightarrow>
     string \<Rightarrow> string \<Rightarrow> time \<Rightarrow> token_error + TokenPair" where
  "IssueRotatedPair sign s d now ctx userID roles scopes clientID fingerprint familyID familyOrigin =
     (case IssueTokenPairWithAuth sign s d now ctx userID roles scopes clientID fingerprint familyID False
             (no_auth\<lparr> ac_authTime := familyOrigin \<rparr>) of
        Inl e \<Rightarrow> Inl e
      | Inr pair \<Rightarrow>
          Inr (pair\<lparr> p_refreshExpAt :=
                 clampExpiry (p_refreshExpAt pair) (sessionDeadline familyOrigin (ts_maxSessionLifetime s)) \<rparr>))"

definition challengeClaims :: "'k TokenService \<Rightarrow> Ctx \<Rightarrow> time \<Rightarrow> string \<Rightarrow> string \<Rightarrow> string \<Rightarrow> string list \<Rightarrow> VaultClaims" where
  "challengeClaims s ctx now jti userID fingerprint factors =
     \<lparr> c_iss = ts_issuer s, c_aud = [ts_audience s], c_sub = userID,
       c_exp = Some (NewNumericDate (now + 5 * Minute)),
       c_nbf = Some (NewNumericDate now), c_iat = Some (NewNumericDate now), c_jti = jti,
       c_roles = [], c_scopes = [], c_client_id = [], c_fingerprint = fingerprint,
       c_cnf = cnf_of ctx, c_token_type = ''2fa_challenge'', c_minted_by = [], c_acr = [],
       c_amr = [], c_auth_time = 0, c_factors = factors, c_email = [] \<rparr>"

definition IssueChallengeToken ::
  "'k signer \<Rightarrow> 'k TokenService \<Rightarrow> draws \<Rightarrow> time \<Rightarrow> Ctx \<Rightarrow> string \<Rightarrow> string \<Rightarrow> string list \<Rightarrow> token_error + string" where
  "IssueChallengeToken sign s d now ctx userID fingerprint factors =
     (case d_jti d of
        None \<Rightarrow> Inl ErrRandom
      | Some jti \<Rightarrow>
          (case sign (challengeClaims s ctx now jti userID fingerprint factors) (ts_privateKey s) (ts_kid s) of
             None \<Rightarrow> Inl ErrSign
           | Some t \<Rightarrow> Inr t))"

section \<open>Lemmas\<close>

lemma factorsFrom_foldl:
  "f_password (foldl add_factor f ms) \<longleftrightarrow> f_password f \<or> MethodPassword \<in> set ms"
  "f_totp (foldl add_factor f ms) \<longleftrightarrow> f_totp f \<or> MethodTOTP \<in> set ms"
  "f_emailOTP (foldl add_factor f ms) \<longleftrightarrow> f_emailOTP f \<or> MethodEmailOTP \<in> set ms"
  "f_backupCode (foldl add_factor f ms) \<longleftrightarrow> f_backupCode f \<or> MethodBackupCode \<in> set ms"
  "f_webAuthn (foldl add_factor f ms) \<longleftrightarrow> f_webAuthn f \<or> MethodWebAuthn \<in> set ms"
  "f_federated (foldl add_factor f ms) \<longleftrightarrow> f_federated f \<or> MethodFederated \<in> set ms"
  by (induction ms arbitrary: f) (auto simp: add_factor_def)

lemma factorsFrom_simps [simp]:
  "f_password (factorsFrom ms) \<longleftrightarrow> MethodPassword \<in> set ms"
  "f_totp (factorsFrom ms) \<longleftrightarrow> MethodTOTP \<in> set ms"
  "f_emailOTP (factorsFrom ms) \<longleftrightarrow> MethodEmailOTP \<in> set ms"
  "f_backupCode (factorsFrom ms) \<longleftrightarrow> MethodBackupCode \<in> set ms"
  "f_webAuthn (factorsFrom ms) \<longleftrightarrow> MethodWebAuthn \<in> set ms"
  "f_federated (factorsFrom ms) \<longleftrightarrow> MethodFederated \<in> set ms"
  by (simp_all add: factorsFrom_def factorsFrom_foldl)

text \<open>The deadlines that bound an expiry: none when the bound is off or the origin is unknown.\<close>

definition deadline_set :: "time \<Rightarrow> duration \<Rightarrow> time set" where
  "deadline_set origin d = (if 0 < d \<and> \<not> IsZero origin then {origin + d} else {})"

lemma clampExpiry_le: "clampExpiry e d \<le> e"
  by (simp add: clampExpiry_def)

lemma clamp_is_min:
  assumes "0 \<le> origin"
  shows "clampExpiry e (sessionDeadline origin d) = Min (insert e (deadline_set origin d))"
  using assms by (auto simp: clampExpiry_def sessionDeadline_def deadline_set_def min_def)

lemma finite_deadline_set [simp]: "finite (deadline_set origin d)"
  by (simp add: deadline_set_def)

lemma clamp_Min:
  assumes "0 \<le> origin" "finite A" "A \<noteq> {}"
  shows "clampExpiry (Min A) (sessionDeadline origin d) = Min (A \<union> deadline_set origin d)"
proof (cases "deadline_set origin d = {}")
  case True
  with assms show ?thesis by (simp add: clamp_is_min)
next
  case False
  with assms show ?thesis by (simp add: clamp_is_min Min_Un)
qed

lemma issue_cases:
  assumes "IssueTokenPairWithAuth sign s d now ctx u roles scopes c fp fam rm auth = Inr pair"
  obtains jti where "d_jti d = Some jti"
    "sign (accessClaims s ctx now jti u roles scopes c fp auth) (ts_privateKey s) (ts_kid s) =
       Some (p_accessToken pair)"
    "d_token d = Some (p_refreshToken pair)"
    "(if fam = [] then d_family d else Some fam) = Some (p_familyID pair)"
    "p_refreshExpAt pair =
       clampExpiry
         (if fam = [] then clampExpiry (now + (if rm then ts_rememberMeTTL s else ts_refreshTokenTTL s))
                             (sessionDeadline now (ts_maxSessionLifetime s))
          else now + (if rm then ts_rememberMeTTL s else ts_refreshTokenTTL s))
         (sessionDeadline now (ts_inactivityTimeout s))"
  using assms unfolding IssueTokenPairWithAuth_def Let_def
  by (auto split: option.splits if_splits)

lemma rotated_cases:
  assumes "IssueRotatedPair sign s d now ctx u roles scopes c fp fam origin = Inr pair" "fam \<noteq> []"
  obtains jti where "d_jti d = Some jti"
    "sign (accessClaims s ctx now jti u roles scopes c fp (no_auth\<lparr> ac_authTime := origin \<rparr>))
       (ts_privateKey s) (ts_kid s) = Some (p_accessToken pair)"
    "d_token d = Some (p_refreshToken pair)" "p_familyID pair = fam"
    "p_refreshExpAt pair =
       clampExpiry (clampExpiry (now + ts_refreshTokenTTL s) (sessionDeadline now (ts_inactivityTimeout s)))
         (sessionDeadline origin (ts_maxSessionLifetime s))"
proof -
  obtain pair0 where p0: "IssueTokenPairWithAuth sign s d now ctx u roles scopes c fp fam False
      (no_auth\<lparr> ac_authTime := origin \<rparr>) = Inr pair0"
    and pair: "pair = pair0\<lparr> p_refreshExpAt :=
      clampExpiry (p_refreshExpAt pair0) (sessionDeadline origin (ts_maxSessionLifetime s)) \<rparr>"
    using assms(1) unfolding IssueRotatedPair_def by (auto split: sum.splits)
  from p0 show thesis
    by (rule issue_cases) (rule that, use assms(2) in \<open>auto simp: pair\<close>)
qed

lemma clampExpiry_deadline:
  assumes "0 < origin" "0 < d"
  shows "clampExpiry e (sessionDeadline origin d) \<le> origin + d"
  using assms by (simp add: clampExpiry_def sessionDeadline_def)

lemma rotated_expiry_bounds:
  assumes "IssueRotatedPair sign s d now ctx u roles scopes c fp fam origin = Inr pair" "fam \<noteq> []"
  shows "p_refreshExpAt pair \<le> now + ts_refreshTokenTTL s"
    and "0 < now \<Longrightarrow> 0 < ts_inactivityTimeout s \<Longrightarrow> p_refreshExpAt pair \<le> now + ts_inactivityTimeout s"
    and "0 < origin \<Longrightarrow> 0 < ts_maxSessionLifetime s \<Longrightarrow> p_refreshExpAt pair \<le> origin + ts_maxSessionLifetime s"
  using assms by (rule rotated_cases; metis clampExpiry_le clampExpiry_deadline order_trans)+

section \<open>Properties\<close>

text \<open>The refresh expiry of a new family is the earliest of the refresh TTL, the absolute session
  lifetime and the inactivity window that are configured, all measured from the instant of issue.\<close>

theorem new_family_expiry_is_earliest_bound:
  assumes "0 < now"
    and "IssueTokenPairWithAuth sign s d now ctx u roles scopes c fp [] rm auth = Inr pair"
  shows "p_refreshExpAt pair =
           Min ({now + (if rm then ts_rememberMeTTL s else ts_refreshTokenTTL s)} \<union>
                deadline_set now (ts_maxSessionLifetime s) \<union> deadline_set now (ts_inactivityTimeout s))"
  using assms(2)
proof (rule issue_cases)
  assume "p_refreshExpAt pair = clampExpiry
         (if [] = [] then clampExpiry (now + (if rm then ts_rememberMeTTL s else ts_refreshTokenTTL s))
                             (sessionDeadline now (ts_maxSessionLifetime s))
          else now + (if rm then ts_rememberMeTTL s else ts_refreshTokenTTL s))
         (sessionDeadline now (ts_inactivityTimeout s))"
  with assms(1) show ?thesis
    by (simp add: clamp_is_min [of now _ "ts_maxSessionLifetime s"] clamp_Min)
qed

definition sample_service :: "nat TokenService" where
  "sample_service = SetInactivityTimeout (SetMaxSessionLifetime
     (NewTokenService (Some 0) ''k'' ''iss'' ''aud'' 10 100 200) 150) 60"

definition sample_draws :: draws where
  "sample_draws = \<lparr> d_jti = Some ''j'', d_token = Some ''t'', d_family = Some ''f'', d_row = Some ''r'' \<rparr>"

definition sample_sign :: "nat signer" where
  "sample_sign c k kid = (case k of None \<Rightarrow> None | Some _ \<Rightarrow> Some (c_sub c @ kid))"

lemmas token_sample_simps = sample_service_def sample_draws_def sample_sign_def SetInactivityTimeout_def
  SetMaxSessionLifetime_def NewTokenService_def IssueTokenPairWithAuth_def IssueRotatedPair_def
  clampExpiry_def sessionDeadline_def accessClaims_def

theorem new_family_expiry_is_earliest_bound_witness:
  "\<exists>pair. IssueTokenPairWithAuth sample_sign sample_service sample_draws 1000 \<lparr> ctx_thumbprint = [] \<rparr> ''u''
       [] [] [] [] [] True no_auth = Inr pair \<and> p_refreshExpAt pair = Min {1200, 1150, 1060}"
proof -
  obtain pair where p: "IssueTokenPairWithAuth sample_sign sample_service sample_draws 1000
      \<lparr> ctx_thumbprint = [] \<rparr> ''u'' [] [] [] [] [] True no_auth = Inr pair"
    by (simp add: token_sample_simps)
  from new_family_expiry_is_earliest_bound [OF _ p] have "p_refreshExpAt pair = Min {1200, 1150, 1060}"
    by (simp add: deadline_set_def sample_service_def SetInactivityTimeout_def SetMaxSessionLifetime_def
        NewTokenService_def insert_commute)
  with p show ?thesis by blast
qed

text \<open>A rotated refresh token can never outlive the family: its expiry is the earliest of the
  refresh TTL, the inactivity window from now, and the absolute lifetime from the family's origin;
  the access token it comes with names the origin as its \<open>auth_time\<close> and restates no factors.\<close>

theorem rotated_expiry_is_earliest_bound:
  assumes "0 < now" and "0 \<le> origin" and "fam \<noteq> []"
    and "IssueRotatedPair sign s d now ctx u roles scopes c fp fam origin = Inr pair"
  shows "p_refreshExpAt pair =
           Min ({now + ts_refreshTokenTTL s} \<union> deadline_set now (ts_inactivityTimeout s) \<union>
                deadline_set origin (ts_maxSessionLifetime s)) \<and>
         p_familyID pair = fam \<and>
         (\<exists>claims. sign claims (ts_privateKey s) (ts_kid s) = Some (p_accessToken pair) \<and>
            c_sub claims = u \<and> c_roles claims = roles \<and> c_cnf claims = cnf_of ctx \<and>
            c_auth_time claims = authTimeSeconds origin \<and> c_acr claims = [] \<and> c_amr claims = [])"
  using assms(4,3)
proof (rule rotated_cases)
  fix jti
  assume sig: "sign (accessClaims s ctx now jti u roles scopes c fp (no_auth\<lparr> ac_authTime := origin \<rparr>))
       (ts_privateKey s) (ts_kid s) = Some (p_accessToken pair)"
    and fam: "p_familyID pair = fam"
    and exp: "p_refreshExpAt pair =
       clampExpiry (clampExpiry (now + ts_refreshTokenTTL s) (sessionDeadline now (ts_inactivityTimeout s)))
         (sessionDeadline origin (ts_maxSessionLifetime s))"
  have "p_refreshExpAt pair = Min ({now + ts_refreshTokenTTL s} \<union> deadline_set now (ts_inactivityTimeout s) \<union>
      deadline_set origin (ts_maxSessionLifetime s))"
    using assms(1,2) by (simp add: exp clamp_is_min [of now] clamp_Min)
  with sig fam show ?thesis
    by (intro conjI exI [of _ "accessClaims s ctx now jti u roles scopes c fp (no_auth\<lparr> ac_authTime := origin \<rparr>)"])
      (simp_all add: accessClaims_def no_auth_def)
qed

theorem rotated_expiry_is_earliest_bound_witness:
  "\<exists>pair. IssueRotatedPair sample_sign sample_service sample_draws 1000 \<lparr> ctx_thumbprint = [] \<rparr> ''u''
       [] [] [] [] ''f'' 900 = Inr pair \<and> p_refreshExpAt pair = Min {1100, 1060, 1050}"
proof -
  obtain pair where p: "IssueRotatedPair sample_sign sample_service sample_draws 1000
      \<lparr> ctx_thumbprint = [] \<rparr> ''u'' [] [] [] [] ''f'' 900 = Inr pair"
    by (simp add: token_sample_simps)
  have "p_refreshExpAt pair = Min {1100, 1060, 1050}"
    using rotated_expiry_is_earliest_bound [OF _ _ _ p, THEN conjunct1]
    by (simp add: deadline_set_def sample_service_def SetInactivityTimeout_def SetMaxSessionLifetime_def
        NewTokenService_def insert_commute)
  with p show ?thesis by blast
qed

text \<open>The assurance a token claims is the assurance the login reached: AAL3 is never claimed, AAL2 is
  claimed exactly for a user-verified WebAuthn assertion or for a first factor together with a
  possession factor, and \<open>mfa\<close> is listed in \<open>amr\<close> exactly then.\<close>

theorem assurance_matches_factors:
  "AALForMethods ms uv \<noteq> AAL3 \<and>
   (AALForMethods ms uv = AAL2 \<longleftrightarrow>
      MethodWebAuthn \<in> set ms \<and> uv \<or>
      (MethodPassword \<in> set ms \<or> MethodFederated \<in> set ms) \<and>
      (MethodTOTP \<in> set ms \<or> MethodEmailOTP \<in> set ms \<or> MethodBackupCode \<in> set ms \<or> MethodWebAuthn \<in> set ms)) \<and>
   (''mfa'' \<in> set (AMRForMethods ms uv) \<longleftrightarrow> AALForMethods ms uv = AAL2) \<and>
   ac_acr (NewAuthContext at ms uv) \<in> {''urn:vault42:aal:1'', ''urn:vault42:aal:2''}"
  by (auto simp: AALForMethods_def AMRForMethods_def NewAuthContext_def ACRForAAL_def Let_def)

end
