(* ===== verification/Fingerprint.thy ===== *)
theory Fingerprint
  imports Prelude
begin

text \<open>
  Device fingerprints and constant-time comparison: \<open>internal/crypto/fingerprint.go\<close> and
  \<open>internal/crypto/constant.go\<close>. A Go string is its list of bytes; SHA-256 in hexadecimal is the
  argument \<open>sha\<close>. The theory shows that the byte string that is hashed determines the four fields.
\<close>

definition SecureCompare :: "string \<Rightarrow> string \<Rightarrow> bool" where
  "SecureCompare a b = (if length a \<noteq> length b then False else a = b)"

record FingerprintInput =
  fi_ip :: string
  fi_userAgent :: string
  fi_acceptLanguage :: string
  fi_tlsFingerprint :: string

text \<open>\<open>PutUint32\<close> of the length, big-endian; \<open>uint32\<close> drops the higher bits.\<close>

definition put_uint32 :: "nat \<Rightarrow> string" where
  "put_uint32 n = map (\<lambda>k. char_of (n div 256 ^ k mod 256)) [3, 2, 1, 0]"

definition writeLengthPrefixed :: "string \<Rightarrow> string" where
  "writeLengthPrefixed s = put_uint32 (length s) @ s"

definition fingerprint_bytes :: "FingerprintInput \<Rightarrow> string" where
  "fingerprint_bytes i =
     writeLengthPrefixed (fi_ip i) @ writeLengthPrefixed (fi_userAgent i) @
     writeLengthPrefixed (fi_acceptLanguage i) @ writeLengthPrefixed (fi_tlsFingerprint i)"

definition ComputeFingerprint :: "(string \<Rightarrow> string) \<Rightarrow> FingerprintInput \<Rightarrow> string" where
  "ComputeFingerprint sha i = sha (fingerprint_bytes i)"

definition CompareFingerprints :: "string \<Rightarrow> string \<Rightarrow> bool" where
  "CompareFingerprints a b = SecureCompare a b"

lemma SecureCompare_eq [simp]: "SecureCompare a b \<longleftrightarrow> a = b"
  by (auto simp: SecureCompare_def)

lemma CompareFingerprints_eq [simp]: "CompareFingerprints a b \<longleftrightarrow> a = b"
  by (simp add: CompareFingerprints_def)

lemma length_put_uint32 [simp]: "length (put_uint32 n) = 4"
  by (simp add: put_uint32_def)

lemma base256_digits:
  fixes n :: nat
  assumes "n < 4294967296"
  shows "n = (n div 16777216 mod 256) * 16777216 + (n div 65536 mod 256) * 65536 +
             (n div 256 mod 256) * 256 + n mod 256"
proof -
  have "n div 65536 = (n div 16777216) * 256 + n div 65536 mod 256"
    using div_mult_mod_eq [of "n div 65536" 256] by (simp add: div_mult2_eq [symmetric])
  moreover have "n div 256 = (n div 65536) * 256 + n div 256 mod 256"
    using div_mult_mod_eq [of "n div 256" 256] by (simp add: div_mult2_eq [symmetric])
  moreover have "n div 16777216 mod 256 = n div 16777216"
    using assms by (simp add: less_mult_imp_div_less)
  ultimately show ?thesis using div_mult_mod_eq [of n 256] by linarith
qed

lemma put_uint32_inject:
  assumes "m < 4294967296" "n < 4294967296" "put_uint32 m = put_uint32 n"
  shows "m = n"
proof -
  have "m div 16777216 mod 256 = n div 16777216 mod 256" "m div 65536 mod 256 = n div 65536 mod 256"
    "m div 256 mod 256 = n div 256 mod 256" "m mod 256 = n mod 256"
    using assms(3) by (simp_all add: put_uint32_def char_of_eq_iff power_numeral_reduce take_bit_eq_mod)
  with base256_digits [OF assms(1)] base256_digits [OF assms(2)] show ?thesis by simp
qed

lemma writeLengthPrefixed_cut:
  assumes "length s < 4294967296" "length t < 4294967296"
    and "writeLengthPrefixed s @ xs = writeLengthPrefixed t @ ys"
  shows "s = t \<and> xs = ys"
proof -
  have "put_uint32 (length s) = put_uint32 (length t)" "s @ xs = t @ ys"
    using assms(3) by (simp_all add: writeLengthPrefixed_def append_eq_append_conv)
  moreover from this(1) have "length s = length t"
    by (rule put_uint32_inject [OF assms(1,2)])
  ultimately show ?thesis by simp
qed

definition fields_short :: "FingerprintInput \<Rightarrow> bool" where
  "fields_short i \<longleftrightarrow> length (fi_ip i) < 4294967296 \<and> length (fi_userAgent i) < 4294967296 \<and>
     length (fi_acceptLanguage i) < 4294967296 \<and> length (fi_tlsFingerprint i) < 4294967296"

text \<open>No separator collision: two requests whose fields are shorter than 4 GiB and whose hashed
  byte strings are equal agree on every field, so with a collision-free hash equal fingerprints mean
  equal address, user agent, language and TLS fingerprint.\<close>

theorem fingerprint_input_unambiguous:
  assumes "fields_short i" and "fields_short j" and "fingerprint_bytes i = fingerprint_bytes j"
  shows "i = j"
proof -
  note cut = writeLengthPrefixed_cut
  have short: "length (fi_ip i) < 4294967296" "length (fi_ip j) < 4294967296"
    "length (fi_userAgent i) < 4294967296" "length (fi_userAgent j) < 4294967296"
    "length (fi_acceptLanguage i) < 4294967296" "length (fi_acceptLanguage j) < 4294967296"
    "length (fi_tlsFingerprint i) < 4294967296" "length (fi_tlsFingerprint j) < 4294967296"
    using assms(1,2) by (simp_all add: fields_short_def)
  from cut [OF short(1,2) assms(3) [unfolded fingerprint_bytes_def]]
  have ip: "fi_ip i = fi_ip j"
    and r1: "writeLengthPrefixed (fi_userAgent i) @ writeLengthPrefixed (fi_acceptLanguage i) @
               writeLengthPrefixed (fi_tlsFingerprint i) =
             writeLengthPrefixed (fi_userAgent j) @ writeLengthPrefixed (fi_acceptLanguage j) @
               writeLengthPrefixed (fi_tlsFingerprint j)" by simp_all
  from cut [OF short(3,4) r1] have ua: "fi_userAgent i = fi_userAgent j"
    and r2: "writeLengthPrefixed (fi_acceptLanguage i) @ writeLengthPrefixed (fi_tlsFingerprint i) =
             writeLengthPrefixed (fi_acceptLanguage j) @ writeLengthPrefixed (fi_tlsFingerprint j)"
    by simp_all
  from cut [OF short(5,6) r2] have al: "fi_acceptLanguage i = fi_acceptLanguage j"
    and r3: "writeLengthPrefixed (fi_tlsFingerprint i) @ [] = writeLengthPrefixed (fi_tlsFingerprint j) @ []"
    by simp_all
  from cut [OF short(7,8) r3] ip ua al show ?thesis by simp
qed

theorem fingerprint_input_unambiguous_witness:
  "fingerprint_bytes \<lparr> fi_ip = ''1'', fi_userAgent = ''ab'', fi_acceptLanguage = [], fi_tlsFingerprint = [] \<rparr> \<noteq>
   fingerprint_bytes \<lparr> fi_ip = ''1a'', fi_userAgent = ''b'', fi_acceptLanguage = [], fi_tlsFingerprint = [] \<rparr>"
  using fingerprint_input_unambiguous
    [of "\<lparr> fi_ip = ''1'', fi_userAgent = ''ab'', fi_acceptLanguage = [], fi_tlsFingerprint = [] \<rparr>"
        "\<lparr> fi_ip = ''1a'', fi_userAgent = ''b'', fi_acceptLanguage = [], fi_tlsFingerprint = [] \<rparr>"]
  by (auto simp: fields_short_def)

end
