(* ===== verification/Roles.thy ===== *)
theory Roles
  imports Prelude
begin

text \<open>
  The roles a user token carries: \<open>ReservedAdminRoles\<close> and \<open>FilterUserRoles\<close> of
  \<open>internal/seed/seed.go\<close>, the catalog cache of \<open>internal/service/role_catalog.go\<close>, and
  \<open>effectiveRoles\<close> of \<open>internal/service/auth.go\<close>. The database read \<open>ListNames\<close> is an argument, as
  is the Unicode part of \<open>strings.ToLower\<close> and \<open>strings.TrimSpace\<close> (\<open>uni\<close>), which only applies to a
  name with a byte outside ASCII.
\<close>

definition is_ascii :: "string \<Rightarrow> bool" where
  "is_ascii s = list_all (\<lambda>c. of_char c < (128::nat)) s"

definition ascii_lower :: "char \<Rightarrow> char" where
  "ascii_lower c = (let n = of_char c :: nat in if 65 \<le> n \<and> n \<le> 90 then char_of (n + 32) else c)"

definition ascii_space :: "char \<Rightarrow> bool" where
  "ascii_space c = (let n = of_char c :: nat in n = 9 \<or> n = 10 \<or> n = 11 \<or> n = 12 \<or> n = 13 \<or> n = 32)"

definition trim_ascii :: "string \<Rightarrow> string" where
  "trim_ascii s = rev (dropWhile ascii_space (rev (dropWhile ascii_space s)))"

definition fold_name :: "(string \<Rightarrow> string) \<Rightarrow> string \<Rightarrow> string" where
  "fold_name uni s = (if is_ascii s then map ascii_lower (trim_ascii s) else uni s)"

definition ReservedAdminRoles :: "string list" where
  "ReservedAdminRoles = [''admin'', ''super_admin'']"

definition IsReservedAdminRole :: "(string \<Rightarrow> string) \<Rightarrow> string \<Rightarrow> bool" where
  "IsReservedAdminRole uni name = (fold_name uni name \<in> set ReservedAdminRoles)"

definition FilterUserRoles :: "(string \<Rightarrow> string) \<Rightarrow> string list \<Rightarrow> string list" where
  "FilterUserRoles uni roles = (if length roles = 0 then [] else filter (\<lambda>r. \<not> IsReservedAdminRole uni r) roles)"

section \<open>The catalog\<close>

record RoleCatalog =
  rc_ttl :: duration
  rc_names :: "string list option"
  rc_loadedAt :: time

definition NewRoleCatalog :: "duration \<Rightarrow> RoleCatalog" where
  "NewRoleCatalog ttl = \<lparr> rc_ttl = (if ttl \<le> 0 then 60 * Second else ttl), rc_names = None, rc_loadedAt = 0 \<rparr>"

definition rc_fresh :: "RoleCatalog \<Rightarrow> time \<Rightarrow> bool" where
  "rc_fresh c now \<longleftrightarrow> rc_names c \<noteq> None \<and> now - rc_loadedAt c < rc_ttl c"

text \<open>\<open>current\<close>: \<open>listed\<close> is what \<open>ListNames\<close> answers, \<open>None\<close> an error.\<close>

definition rc_current :: "RoleCatalog \<Rightarrow> time \<Rightarrow> string list option \<Rightarrow> RoleCatalog \<times> string list option" where
  "rc_current c now listed =
     (if rc_fresh c now then (c, rc_names c)
      else case listed of
             None \<Rightarrow> (c, rc_names c)
           | Some names \<Rightarrow> (c\<lparr> rc_names := Some names, rc_loadedAt := now \<rparr>, Some names))"

definition rc_Valid :: "RoleCatalog \<Rightarrow> time \<Rightarrow> string list option \<Rightarrow> string \<Rightarrow> RoleCatalog \<times> bool" where
  "rc_Valid c now listed name =
     (case rc_current c now listed of
        (c', None) \<Rightarrow> (c', True)
      | (c', Some names) \<Rightarrow> (c', name \<in> set names))"

definition rc_Filter :: "RoleCatalog \<Rightarrow> time \<Rightarrow> string list option \<Rightarrow> string list \<Rightarrow> RoleCatalog \<times> string list" where
  "rc_Filter c now listed roles =
     (if length roles = 0 then (c, roles)
      else case rc_current c now listed of
             (c', None) \<Rightarrow> (c', roles)
           | (c', Some names) \<Rightarrow> (c', filter (\<lambda>r. r \<in> set names) roles))"

definition effectiveRoles ::
  "(string \<Rightarrow> string) \<Rightarrow> RoleCatalog option \<Rightarrow> time \<Rightarrow> string list option \<Rightarrow> string list \<Rightarrow>
     RoleCatalog option \<times> string list" where
  "effectiveRoles uni cat now listed roles =
     (let out = FilterUserRoles uni roles;
          (cat', out') = (case cat of
                            None \<Rightarrow> (None, out)
                          | Some c \<Rightarrow> (case rc_Filter c now listed out of (c', o') \<Rightarrow> (Some c', o')))
      in (cat', if length out' = 0 then [''user''] else out'))"

lemma FilterUserRoles_set: "set (FilterUserRoles uni roles) = {r \<in> set roles. \<not> IsReservedAdminRole uni r}"
  by (auto simp: FilterUserRoles_def)

lemma rc_Filter_subset: "set (snd (rc_Filter c now listed roles)) \<subseteq> set roles"
  by (auto simp: rc_Filter_def split: prod.splits option.splits)

lemma user_not_reserved: "\<not> IsReservedAdminRole uni ''user''"
  by (simp add: IsReservedAdminRole_def ReservedAdminRoles_def fold_name_def is_ascii_def ascii_lower_def
      trim_ascii_def ascii_space_def Let_def)

lemma effectiveRoles_shape:
  obtains out' where "set out' \<subseteq> set (FilterUserRoles uni roles)"
    "snd (effectiveRoles uni cat now listed roles) = (if length out' = 0 then [''user''] else out')"
proof (cases cat)
  case None
  show thesis by (rule that [of "FilterUserRoles uni roles"]) (simp_all add: effectiveRoles_def None)
next
  case (Some c)
  show thesis
    by (rule that [of "snd (rc_Filter c now listed (FilterUserRoles uni roles))"])
      (auto simp: effectiveRoles_def Some Let_def split: prod.splits intro: rc_Filter_subset [THEN subsetD])
qed

lemma effectiveRoles_clean:
  "filter (IsReservedAdminRole uni) (snd (effectiveRoles uni cat now listed roles)) = []"
  by (rule effectiveRoles_shape [of uni roles cat now listed])
    (auto simp: filter_empty_conv FilterUserRoles_set user_not_reserved split: if_splits)

text \<open>No user token carries an admin-tier role: whatever the stored role list, the catalog and its
  freshness, the effective roles are non-empty, contain no reserved name in any ASCII case or with
  any surrounding ASCII white space, and apart from the fallback \<open>user\<close> every one of them was stored.\<close>

theorem effective_roles_never_admin:
  "let out = snd (effectiveRoles uni cat now listed roles)
   in out \<noteq> [] \<and> filter (IsReservedAdminRole uni) out = [] \<and> set out \<subseteq> insert ''user'' (set roles)"
  unfolding Let_def
proof (intro conjI effectiveRoles_clean)
  show "snd (effectiveRoles uni cat now listed roles) \<noteq> []"
    by (rule effectiveRoles_shape [of uni roles cat now listed]) auto
  show "set (snd (effectiveRoles uni cat now listed roles)) \<subseteq> insert ''user'' (set roles)"
    by (rule effectiveRoles_shape [of uni roles cat now listed]) (auto simp: FilterUserRoles_set)
qed

end
