(* ===== verification/Session.thy ===== *)
theory Session
  imports Refresh_Store Token_Service Fingerprint Roles
begin

text \<open>
  The session operations of \<open>internal/service/auth.go\<close>: \<open>Refresh\<close> with the checks it runs
  (\<open>enforceSessionLifetime\<close>, \<open>enforceSessionInactivity\<close>, the fingerprint, \<open>enforceDPoPBinding\<close>,
  \<open>accountStillHoldsSessions\<close>), the reuse response \<open>containRefreshReuse\<close>, the rotation
  \<open>issueRotatedPair\<close>, the login side \<open>checkSessionLimit\<close> and \<open>storeRefreshToken\<close>, and \<open>Logout\<close>.

  The state is the refresh-token store, the sequence of calls to the audit log, the two refresh
  counters of the metrics and the role catalog. What a request does not choose is the record
  \<open>env\<close>: which of its database calls succeed, what the clock says at each read, what the random
  source draws. The hash \<open>SHA256Hex\<close>, signing and the Unicode tables are the record \<open>deps\<close>.
\<close>

section \<open>State\<close>

datatype auth_error =
    ErrInvalidInput | ErrEmailTaken | ErrInvalidCredentials | ErrAccountLocked | ErrAccountBanned
  | ErrAccountDisabled | ErrPasswordBreached | ErrPasswordTooShort | ErrPasswordReused
  | ErrTokenExpired | ErrTokenUsed | ErrTokenInvalid | ErrReplayDetected | ErrEmailOTPNotAllowed
  | ErrMFARequired | ErrPasswordResetRequired | ErrChallengeConsumed | ErrTooManySessions
  | ErrSessionExpired | ErrSessionAgeUnknown | ErrSessionIdle
  | ErrStore repo_error | ErrIssue token_error

datatype audit_event =
    FingerprintAnomaly | RefreshTokenReplayed | DPoPBindingMismatch | TokenRevoke | TokenRefresh
  | RateLimit | LoginSuccess | LoginFailure | LoginNewCountry | Registration | TwoFASetup | TwoFAVerify
  | PasswordReset | PasswordChange | SessionRevoke

datatype meta = MStr string | MBool bool | MAge duration | MInt int

record audit_entry =
  ae_event :: audit_event
  ae_user :: string
  ae_client :: string
  ae_ip :: string
  ae_ua :: string
  ae_fingerprint :: string
  ae_device :: string
  ae_meta :: "(string \<times> meta) list"

record world =
  w_db :: refresh_db
  w_audit :: "audit_entry list"
  w_refreshed :: nat
  w_replayed :: nat
  w_catalog :: "RoleCatalog option"

text \<open>The service: \<open>as_datesFamilies\<close> says whether the store implements \<open>familyOriginReader\<close>.\<close>

record 'k AuthService =
  as_tokenSvc :: "'k TokenService"
  as_datesFamilies :: bool
  as_metrics :: bool
  as_maxSessionsPerUser :: int
  as_strictSessionLimit :: bool

record 'k deps =
  dp_sign :: "'k signer"
  dp_sha :: "string \<Rightarrow> string"
  dp_uni :: "string \<Rightarrow> string"

record env =
  e_lookup :: bool
  e_origin :: bool
  e_mark :: bool
  e_user :: bool
  e_create :: bool
  e_revoke :: "tx_stmt \<Rightarrow> bool"
  e_listed :: "string list option"
  e_draws :: draws
  k_expiry :: time
  k_lifetime :: time
  k_idle :: time
  k_locked :: time
  k_roles :: time
  k_issue :: time
  k_created :: time
  k_cookie :: time

record refresh_req =
  rq_token :: string
  rq_ip :: string
  rq_ua :: string
  rq_fp :: FingerprintInput
  rq_ctx :: Ctx

record RefreshResult =
  rr_accessToken :: string
  rr_tokenType :: string
  rr_expiresIn :: int
  rr_refreshToken :: string
  rr_cookieMaxAge :: int

definition Log ::
  "world \<Rightarrow> audit_event \<Rightarrow> string \<Rightarrow> string \<Rightarrow> string \<Rightarrow> string \<Rightarrow> string \<Rightarrow> string \<Rightarrow> (string \<times> meta) list \<Rightarrow> world" where
  "Log w ev user client ip ua fp device m =
     w\<lparr> w_audit := w_audit w @
         [\<lparr> ae_event = ev, ae_user = user, ae_client = client, ae_ip = ip, ae_ua = ua,
            ae_fingerprint = fp, ae_device = device, ae_meta = m \<rparr>] \<rparr>"

text \<open>\<open>int(d.Seconds())\<close>: whole seconds, towards zero.\<close>

definition whole_seconds :: "duration \<Rightarrow> int" where
  "whole_seconds d = (if d < 0 then - ((- d) div Second) else d div Second)"

section \<open>The checks of a rotation\<close>

definition revokeFamily :: "env \<Rightarrow> world \<Rightarrow> string \<Rightarrow> world \<times> bool" where
  "revokeFamily env w f =
     (case rt_RevokeFamily (e_revoke env) (w_db w) f of (db', r) \<Rightarrow> (w\<lparr> w_db := db' \<rparr>, r = Inr ()))"

definition containRefreshReuse ::
  "'k AuthService \<Rightarrow> env \<Rightarrow> world \<Rightarrow> RefreshToken \<Rightarrow> string \<Rightarrow> string \<Rightarrow> string \<Rightarrow> world" where
  "containRefreshReuse s env w stored ip ua reason =
     (case revokeFamily env w (t_familyID stored) of
        (w1, revoked) \<Rightarrow>
          let w2 = (if as_metrics s then w1\<lparr> w_replayed := w_replayed w1 + 1 \<rparr> else w1)
          in Log w2 RefreshTokenReplayed (t_userID stored) (t_clientID stored) ip ua [] []
               [(''reason'', MStr reason), (''family_id'', MStr (t_familyID stored)),
                (''family_revoked'', MBool revoked)])"

definition enforceSessionLifetime ::
  "'k AuthService \<Rightarrow> env \<Rightarrow> world \<Rightarrow> RefreshToken \<Rightarrow> string \<Rightarrow> string \<Rightarrow> world \<times> (auth_error + time)" where
  "enforceSessionLifetime s env w stored ip ua =
     (let maxLifetime = ts_maxSessionLifetime (as_tokenSvc s);
          bounded = 0 < maxLifetime;
          unavailable = (\<lambda>cause. Log w TokenRevoke (t_userID stored) (t_clientID stored) ip ua [] []
             [(''reason'', MStr ''session_age_unavailable''), (''cause'', MStr cause)])
      in if \<not> as_datesFamilies s then
           (if \<not> bounded then (w, Inr 0)
            else (unavailable ''store_unsupported'', Inl ErrSessionAgeUnknown))
         else
           case rt_FamilyOrigin (e_origin env) (w_db w) (t_familyID stored) of
             Inl e \<Rightarrow> (if \<not> bounded then (w, Inr 0)
                      else (unavailable ''lookup_failed'', Inl ErrSessionAgeUnknown))
           | Inr origin \<Rightarrow>
               if IsZero origin then
                 (if \<not> bounded then (w, Inr 0)
                  else (unavailable ''lookup_failed'', Inl ErrSessionAgeUnknown))
               else if bounded \<and> \<not> k_lifetime env < origin + maxLifetime then
                 (Log (fst (revokeFamily env w (t_familyID stored))) TokenRevoke
                    (t_userID stored) (t_clientID stored) ip ua [] []
                    [(''reason'', MStr ''session_lifetime_exceeded''), (''family_id'', MStr (t_familyID stored)),
                     (''age'', MAge (k_lifetime env - origin))],
                  Inl ErrSessionExpired)
               else (w, Inr origin))"

definition enforceSessionInactivity ::
  "'k AuthService \<Rightarrow> env \<Rightarrow> world \<Rightarrow> RefreshToken \<Rightarrow> string \<Rightarrow> string \<Rightarrow> world \<times> (auth_error + unit)" where
  "enforceSessionInactivity s env w stored ip ua =
     (let idleTimeout = ts_inactivityTimeout (as_tokenSvc s)
      in if idleTimeout \<le> 0 then (w, Inr ())
         else if IsZero (t_createdAt stored) then
           (Log w TokenRevoke (t_userID stored) (t_clientID stored) ip ua [] []
              [(''reason'', MStr ''session_age_unavailable''), (''cause'', MStr ''issued_at_missing'')],
            Inl ErrSessionAgeUnknown)
         else if \<not> k_idle env < t_createdAt stored + idleTimeout then
           (Log (fst (revokeFamily env w (t_familyID stored))) TokenRevoke
              (t_userID stored) (t_clientID stored) ip ua [] []
              [(''reason'', MStr ''session_inactivity_exceeded''), (''family_id'', MStr (t_familyID stored)),
               (''idle'', MAge (k_idle env - t_createdAt stored))],
            Inl ErrSessionIdle)
         else (w, Inr ()))"

definition enforceDPoPBinding ::
  "Ctx \<Rightarrow> world \<Rightarrow> RefreshToken \<Rightarrow> string \<Rightarrow> string \<Rightarrow> string \<Rightarrow> world \<times> (auth_error + unit)" where
  "enforceDPoPBinding ctx w stored ip ua fp =
     (if t_dpopJKT stored = [] then (w, Inr ())
      else let presented = Thumbprint ctx
           in if presented \<noteq> [] \<and> SecureCompare (t_dpopJKT stored) presented then (w, Inr ())
              else (Log w DPoPBindingMismatch (t_userID stored) (t_clientID stored) ip ua fp (t_deviceID stored)
                      [(''expected'', MStr (t_dpopJKT stored)), (''proof_presented'', MBool (presented \<noteq> [])),
                       (''family_id'', MStr (t_familyID stored))],
                    Inl ErrTokenInvalid))"

text \<open>\<open>users.GetByID\<close>: an error reads as no account.\<close>

definition getUser :: "env \<Rightarrow> world \<Rightarrow> string \<Rightarrow> User option" where
  "getUser env w u = (if e_user env then map_of (rd_users (w_db w)) u else None)"

definition user_locked :: "env \<Rightarrow> User option \<Rightarrow> bool" where
  "user_locked env user = (case user of None \<Rightarrow> False | Some x \<Rightarrow>
     (case u_lockedUntil x of None \<Rightarrow> False | Some t \<Rightarrow> k_locked env < t))"

definition account_refusal :: "env \<Rightarrow> User option \<Rightarrow> auth_error option" where
  "account_refusal env user =
     (case user of
        None \<Rightarrow> Some ErrTokenInvalid
      | Some x \<Rightarrow>
          if \<not> u_deleted x \<and> \<not> u_banned x \<and> \<not> u_disabled x \<and> \<not> user_locked env user then None
          else if u_banned x then Some ErrAccountBanned
          else if u_disabled x then Some ErrAccountDisabled
          else if user_locked env user then Some ErrAccountLocked
          else Some ErrTokenInvalid)"

definition accountStillHoldsSessions ::
  "env \<Rightarrow> world \<Rightarrow> RefreshToken \<Rightarrow> world \<times> (auth_error + User)" where
  "accountStillHoldsSessions env w stored =
     (let user = getUser env w (t_userID stored)
      in case (account_refusal env user, user) of
           (None, Some x) \<Rightarrow> (w, Inr x)
         | (Some e, _) \<Rightarrow> (fst (revokeFamily env w (t_familyID stored)), Inl e)
         | (None, None) \<Rightarrow> (w, Inl ErrTokenInvalid))"

section \<open>Rotation\<close>

definition successor ::
  "'k deps \<Rightarrow> env \<Rightarrow> RefreshToken \<Rightarrow> string \<Rightarrow> string \<Rightarrow> TokenPair \<Rightarrow> RefreshToken" where
  "successor dp env stored fp newID pair =
     \<lparr> t_id = newID, t_userID = t_userID stored, t_clientID = t_clientID stored,
       t_tokenHash = dp_sha dp (p_refreshToken pair), t_familyID = t_familyID stored,
       t_deviceID = t_deviceID stored, t_fingerprintHash = fp, t_dpopJKT = t_dpopJKT stored,
       t_expiresAt = p_refreshExpAt pair, t_used = False, t_revoked = False,
       t_createdAt = k_created env \<rparr>"

definition issueRotatedPair ::
  "'k deps \<Rightarrow> 'k AuthService \<Rightarrow> env \<Rightarrow> Ctx \<Rightarrow> world \<Rightarrow> RefreshToken \<Rightarrow> string list \<Rightarrow> string \<Rightarrow> time \<Rightarrow>
     string \<Rightarrow> string \<Rightarrow> world \<times> (auth_error + TokenPair)" where
  "issueRotatedPair dp s env ctx0 w stored roles fp familyOrigin ip ua =
     (let ctx = WithThumbprint ctx0 (t_dpopJKT stored)
      in case IssueRotatedPair (dp_sign dp) (as_tokenSvc s) (e_draws env) (k_issue env) ctx
                (t_userID stored) roles [''read'', ''write''] (t_clientID stored) fp
                (t_familyID stored) familyOrigin of
           Inl e \<Rightarrow> (w, Inl (ErrIssue e))
         | Inr pair \<Rightarrow>
             (case d_row (e_draws env) of
                None \<Rightarrow> (w, Inl (ErrIssue ErrRandom))
              | Some newID \<Rightarrow>
                  (case rt_Create (e_create env) (w_db w) (successor dp env stored fp newID pair) of
                     (db', Inr _) \<Rightarrow> (w\<lparr> w_db := db' \<rparr>, Inr pair)
                   | (db', Inl e) \<Rightarrow>
                       let w1 = w\<lparr> w_db := db' \<rparr>
                       in if e = ErrFamilyRevoked then
                            (Log (fst (revokeFamily env w1 (t_familyID stored))) TokenRevoke
                               (t_userID stored) (t_clientID stored) ip ua [] []
                               [(''reason'', MStr ''family_revoked_during_rotation''),
                                (''family_id'', MStr (t_familyID stored))],
                             Inl ErrReplayDetected)
                          else (w1, Inl (ErrStore e)))))"

text \<open>The part of \<open>Refresh\<close> after the row has been spent.\<close>

definition refresh_rotate ::
  "'k deps \<Rightarrow> 'k AuthService \<Rightarrow> env \<Rightarrow> refresh_req \<Rightarrow> world \<Rightarrow> RefreshToken \<Rightarrow> string \<Rightarrow> time \<Rightarrow>
     world \<times> (auth_error + RefreshResult)" where
  "refresh_rotate dp s env rq w stored fp familyOrigin =
     (case accountStillHoldsSessions env w stored of
        (w1, Inl e) \<Rightarrow> (w1, Inl e)
      | (w1, Inr user) \<Rightarrow>
          (case effectiveRoles (dp_uni dp) (w_catalog w1) (k_roles env) (e_listed env) (u_roles user) of
             (cat', roles) \<Rightarrow>
               (case issueRotatedPair dp s env (rq_ctx rq) (w1\<lparr> w_catalog := cat' \<rparr>) stored roles fp
                       familyOrigin (rq_ip rq) (rq_ua rq) of
                  (w2, Inl e) \<Rightarrow> (w2, Inl e)
                | (w2, Inr pair) \<Rightarrow>
                    let w3 = (if as_metrics s then w2\<lparr> w_refreshed := w_refreshed w2 + 1 \<rparr> else w2);
                        w4 = Log w3 TokenRefresh (t_userID stored) (t_clientID stored) (rq_ip rq) (rq_ua rq)
                               fp (t_deviceID stored) []
                    in (w4, Inr \<lparr> rr_accessToken = p_accessToken pair, rr_tokenType = ''Bearer'',
                                  rr_expiresIn = whole_seconds (ts_accessTokenTTL (as_tokenSvc s)),
                                  rr_refreshToken = p_refreshToken pair,
                                  rr_cookieMaxAge = whole_seconds (p_refreshExpAt pair - k_cookie env) \<rparr>))))"

text \<open>The part of \<open>Refresh\<close> between the read of the row and its compare-and-set.\<close>

definition refresh_checks ::
  "'k deps \<Rightarrow> 'k AuthService \<Rightarrow> env \<Rightarrow> refresh_req \<Rightarrow> world \<Rightarrow> RefreshToken \<Rightarrow>
     world \<times> (auth_error + string \<times> time)" where
  "refresh_checks dp s env rq w stored =
     (if t_expiresAt stored < k_expiry env then (w, Inl ErrTokenExpired)
      else case enforceSessionLifetime s env w stored (rq_ip rq) (rq_ua rq) of
        (w1, Inl e) \<Rightarrow> (w1, Inl e)
      | (w1, Inr familyOrigin) \<Rightarrow>
          (case enforceSessionInactivity s env w1 stored (rq_ip rq) (rq_ua rq) of
             (w2, Inl e) \<Rightarrow> (w2, Inl e)
           | (w2, Inr _) \<Rightarrow>
               let fp = ComputeFingerprint (dp_sha dp)
                          ((rq_fp rq)\<lparr> fi_ip := rq_ip rq, fi_userAgent := rq_ua rq \<rparr>)
               in if t_fingerprintHash stored \<noteq> [] \<and> \<not> CompareFingerprints (t_fingerprintHash stored) fp then
                    (Log (fst (revokeFamily env w2 (t_familyID stored))) FingerprintAnomaly
                       (t_userID stored) (t_clientID stored) (rq_ip rq) (rq_ua rq) fp []
                       [(''expected'', MStr (t_fingerprintHash stored))],
                     Inl ErrTokenInvalid)
                  else case enforceDPoPBinding (rq_ctx rq) w2 stored (rq_ip rq) (rq_ua rq) fp of
                         (w3, Inl e) \<Rightarrow> (w3, Inl e)
                       | (w3, Inr _) \<Rightarrow> (w3, Inr (fp, familyOrigin))))"

definition Refresh ::
  "'k deps \<Rightarrow> 'k AuthService \<Rightarrow> env \<Rightarrow> refresh_req \<Rightarrow> world \<Rightarrow> world \<times> (auth_error + RefreshResult)" where
  "Refresh dp s env rq w =
     (case rt_GetByTokenHash (e_lookup env) (w_db w) (dp_sha dp (rq_token rq)) of
        Inl e \<Rightarrow> (w, Inl (ErrStore e))
      | Inr None \<Rightarrow> (w, Inl ErrTokenInvalid)
      | Inr (Some stored) \<Rightarrow>
          if t_revoked stored then (w, Inl ErrTokenInvalid)
          else if t_used stored then
            (containRefreshReuse s env w stored (rq_ip rq) (rq_ua rq) ''replay_detected'', Inl ErrReplayDetected)
          else case refresh_checks dp s env rq w stored of
                 (w1, Inl e) \<Rightarrow> (w1, Inl e)
               | (w1, Inr (fp, familyOrigin)) \<Rightarrow>
                   (case rt_MarkUsed (e_mark env) (w_db w1) (t_id stored) of
                      (db', Inl e) \<Rightarrow> (w1\<lparr> w_db := db' \<rparr>, Inl (ErrStore e))
                    | (db', Inr updated) \<Rightarrow>
                        let w2 = w1\<lparr> w_db := db' \<rparr>
                        in if \<not> updated then
                             (containRefreshReuse s env w2 stored (rq_ip rq) (rq_ua rq) ''concurrent_replay_detected'',
                              Inl ErrReplayDetected)
                           else refresh_rotate dp s env rq w2 stored fp familyOrigin))"

section \<open>Login and logout\<close>

definition checkSessionLimit :: "'k AuthService \<Rightarrow> bool \<Rightarrow> time \<Rightarrow> world \<Rightarrow> string \<Rightarrow> world \<times> (auth_error + unit)" where
  "checkSessionLimit s up now w u =
     (if as_maxSessionsPerUser s \<le> 0 then (w, Inr ())
      else case rt_CountActiveFamilies up (w_db w) now u of
             Inl e \<Rightarrow>
               (if as_strictSessionLimit s then
                  (Log w RateLimit u [] [] [] [] [] [(''reason'', MStr ''session_limit_count_failed'')],
                   Inl ErrTooManySessions)
                else (w, Inr ()))
           | Inr count \<Rightarrow>
               (if as_maxSessionsPerUser s \<le> count then (w, Inl ErrTooManySessions) else (w, Inr ())))"

definition storeRefreshToken ::
  "'k deps \<Rightarrow> 'k AuthService \<Rightarrow> draws \<Rightarrow> (tx_stmt \<Rightarrow> bool) \<Rightarrow> time \<Rightarrow> time \<Rightarrow> Ctx \<Rightarrow> world \<Rightarrow> string \<Rightarrow> string \<Rightarrow>
     string \<Rightarrow> string \<Rightarrow> TokenPair \<Rightarrow> world \<times> (auth_error + unit)" where
  "storeRefreshToken dp s d up now db_now ctx w userID clientID deviceID fp pair =
     (case d_row d of
        None \<Rightarrow> (w, Inl (ErrIssue ErrRandom))
      | Some rtID \<Rightarrow>
          (case rt_CreateWithinCap up (w_db w) db_now
                  \<lparr> t_id = rtID, t_userID = userID, t_clientID = clientID,
                    t_tokenHash = dp_sha dp (p_refreshToken pair), t_familyID = p_familyID pair,
                    t_deviceID = deviceID, t_fingerprintHash = fp, t_dpopJKT = Thumbprint ctx,
                    t_expiresAt = p_refreshExpAt pair, t_used = False, t_revoked = False,
                    t_createdAt = now \<rparr> (as_maxSessionsPerUser s) of
             (db', Inr _) \<Rightarrow> (w\<lparr> w_db := db' \<rparr>, Inr ())
           | (db', Inl e) \<Rightarrow>
               (w\<lparr> w_db := db' \<rparr>, Inl (if e = ErrSessionLimitReached then ErrTooManySessions else ErrStore e))))"

definition Logout :: "(tx_stmt \<Rightarrow> bool) \<Rightarrow> world \<Rightarrow> string \<Rightarrow> string \<Rightarrow> string \<Rightarrow> world \<times> (auth_error + unit)" where
  "Logout up w userID ip ua =
     (case rt_RevokeAllForUser up (w_db w) userID of
        (db', Inl e) \<Rightarrow> (w\<lparr> w_db := db' \<rparr>, Inl (ErrStore e))
      | (db', Inr _) \<Rightarrow>
          (Log (w\<lparr> w_db := db' \<rparr>) TokenRevoke userID [] ip ua [] [] [(''reason'', MStr ''logout'')], Inr ()))"

definition RevokeAllTokensForUser :: "(tx_stmt \<Rightarrow> bool) \<Rightarrow> world \<Rightarrow> string \<Rightarrow> world \<times> (auth_error + unit)" where
  "RevokeAllTokensForUser up w userID =
     (case rt_RevokeAllForUser up (w_db w) userID of
        (db', Inl e) \<Rightarrow> (w\<lparr> w_db := db' \<rparr>, Inl (ErrStore e))
      | (db', Inr _) \<Rightarrow> (w\<lparr> w_db := db' \<rparr>, Inr ()))"

section \<open>What a success means, check by check\<close>

lemma Log_simps [simp]:
  "w_db (Log w ev u c ip ua fp d m) = w_db w" "w_catalog (Log w ev u c ip ua fp d m) = w_catalog w"
  "w_refreshed (Log w ev u c ip ua fp d m) = w_refreshed w"
  "w_replayed (Log w ev u c ip ua fp d m) = w_replayed w"
  "map ae_event (w_audit (Log w ev u c ip ua fp d m)) = map ae_event (w_audit w) @ [ev]"
  by (simp_all add: Log_def)

lemma enforceSessionLifetime_ok:
  assumes "enforceSessionLifetime s env w stored ip ua = (w1, Inr origin)"
  shows "w1 = w \<and>
    (origin \<noteq> 0 \<longrightarrow> rt_FamilyOrigin (e_origin env) (w_db w) (t_familyID stored) = Inr origin) \<and>
    (0 < ts_maxSessionLifetime (as_tokenSvc s) \<longrightarrow>
       origin \<noteq> 0 \<and> k_lifetime env < origin + ts_maxSessionLifetime (as_tokenSvc s))"
  using assms unfolding enforceSessionLifetime_def Let_def by (auto split: if_splits sum.splits)

lemma enforceSessionInactivity_ok:
  assumes "enforceSessionInactivity s env w stored ip ua = (w1, Inr x)"
  shows "w1 = w \<and> (0 < ts_inactivityTimeout (as_tokenSvc s) \<longrightarrow>
       t_createdAt stored \<noteq> 0 \<and> k_idle env < t_createdAt stored + ts_inactivityTimeout (as_tokenSvc s))"
  using assms unfolding enforceSessionInactivity_def Let_def by (auto split: if_splits)

lemma enforceDPoPBinding_ok:
  assumes "enforceDPoPBinding ctx w stored ip ua fp = (w1, Inr x)"
  shows "w1 = w \<and> (t_dpopJKT stored = [] \<or> t_dpopJKT stored = Thumbprint ctx)"
  using assms unfolding enforceDPoPBinding_def Let_def by (auto split: if_splits)

lemma accountStillHoldsSessions_ok:
  assumes "accountStillHoldsSessions env w stored = (w1, Inr x)"
  shows "w1 = w \<and> map_of (rd_users (w_db w)) (t_userID stored) = Some x \<and> \<not> u_deleted x \<and> \<not> u_banned x \<and>
    \<not> u_disabled x \<and> \<not> user_locked env (Some x)"
  using assms unfolding accountStillHoldsSessions_def Let_def getUser_def account_refusal_def
  by (auto split: if_splits option.splits)

definition request_fingerprint :: "'k deps \<Rightarrow> refresh_req \<Rightarrow> string" where
  "request_fingerprint dp rq =
     ComputeFingerprint (dp_sha dp) ((rq_fp rq)\<lparr> fi_ip := rq_ip rq, fi_userAgent := rq_ua rq \<rparr>)"

text \<open>The guards of a rotation, on the row the presented token names.\<close>

definition checks_pass :: "'k deps \<Rightarrow> 'k AuthService \<Rightarrow> env \<Rightarrow> refresh_req \<Rightarrow> world \<Rightarrow> RefreshToken \<Rightarrow> time \<Rightarrow> bool" where
  "checks_pass dp s env rq w stored origin \<longleftrightarrow>
     k_expiry env \<le> t_expiresAt stored \<and>
     (origin \<noteq> 0 \<longrightarrow> rt_FamilyOrigin (e_origin env) (w_db w) (t_familyID stored) = Inr origin) \<and>
     (0 < ts_maxSessionLifetime (as_tokenSvc s) \<longrightarrow>
        origin \<noteq> 0 \<and> k_lifetime env < origin + ts_maxSessionLifetime (as_tokenSvc s)) \<and>
     (0 < ts_inactivityTimeout (as_tokenSvc s) \<longrightarrow>
        t_createdAt stored \<noteq> 0 \<and> k_idle env < t_createdAt stored + ts_inactivityTimeout (as_tokenSvc s)) \<and>
     (t_fingerprintHash stored = [] \<or> t_fingerprintHash stored = request_fingerprint dp rq) \<and>
     (t_dpopJKT stored = [] \<or> t_dpopJKT stored = Thumbprint (rq_ctx rq))"

lemma refresh_checks_ok:
  assumes "refresh_checks dp s env rq w stored = (w1, Inr (fp, origin))"
  shows "w1 = w \<and> fp = request_fingerprint dp rq \<and> checks_pass dp s env rq w stored origin"
proof -
  obtain wa where l: "enforceSessionLifetime s env w stored (rq_ip rq) (rq_ua rq) = (wa, Inr origin)"
    and wb: "\<exists>x wb. enforceSessionInactivity s env wa stored (rq_ip rq) (rq_ua rq) = (wb, Inr x) \<and>
      (\<exists>y. enforceDPoPBinding (rq_ctx rq) wb stored (rq_ip rq) (rq_ua rq) fp = (w1, Inr y))"
    and rest: "k_expiry env \<le> t_expiresAt stored" "fp = request_fingerprint dp rq"
      "t_fingerprintHash stored = [] \<or> t_fingerprintHash stored = fp"
    using assms unfolding refresh_checks_def Let_def request_fingerprint_def [symmetric]
    by (auto split: if_splits sum.splits prod.splits)
  from wb obtain x wb y where i: "enforceSessionInactivity s env wa stored (rq_ip rq) (rq_ua rq) = (wb, Inr x)"
    and d: "enforceDPoPBinding (rq_ctx rq) wb stored (rq_ip rq) (rq_ua rq) fp = (w1, Inr y)" by blast
  from enforceSessionLifetime_ok [OF l] enforceSessionInactivity_ok [OF i] enforceDPoPBinding_ok [OF d] rest
  show ?thesis by (simp add: checks_pass_def)
qed

lemma issueRotatedPair_ok:
  assumes "issueRotatedPair dp s env ctx w stored roles fp origin ip ua = (w1, Inr pair)"
  obtains newID where "d_row (e_draws env) = Some newID"
    "IssueRotatedPair (dp_sign dp) (as_tokenSvc s) (e_draws env) (k_issue env)
       (WithThumbprint ctx (t_dpopJKT stored)) (t_userID stored) roles [''read'', ''write'']
       (t_clientID stored) fp (t_familyID stored) origin = Inr pair"
    "snd (rt_Create (e_create env) (w_db w) (successor dp env stored fp newID pair)) = Inr ()"
    "w1 = w\<lparr> w_db := fst (rt_Create (e_create env) (w_db w) (successor dp env stored fp newID pair)) \<rparr>"
proof -
  let ?I = "IssueRotatedPair (dp_sign dp) (as_tokenSvc s) (e_draws env) (k_issue env)
       (WithThumbprint ctx (t_dpopJKT stored)) (t_userID stored) roles [''read'', ''write'']
       (t_clientID stored) fp (t_familyID stored) origin"
  obtain p where I: "?I = Inr p"
    using assms by (cases ?I) (simp_all add: issueRotatedPair_def Let_def)
  obtain newID where d: "d_row (e_draws env) = Some newID"
    using assms by (cases "d_row (e_draws env)") (simp_all add: issueRotatedPair_def Let_def I)
  obtain db' c where C: "rt_Create (e_create env) (w_db w) (successor dp env stored fp newID p) = (db', c)"
    by (metis surj_pair)
  have "c = Inr () \<and> p = pair \<and> w1 = w\<lparr> w_db := db' \<rparr>"
    using assms by (cases c) (simp_all add: issueRotatedPair_def I d C Let_def split: if_splits)
  with d I C show thesis by (intro that [of newID]) simp_all
qed

lemma refresh_rotate_ok:
  assumes "refresh_rotate dp s env rq w stored fp origin = (w', Inr res)"
  obtains user roles newID pair where
    "map_of (rd_users (w_db w)) (t_userID stored) = Some user" "\<not> u_deleted user" "\<not> u_banned user"
    "\<not> u_disabled user" "\<not> user_locked env (Some user)"
    "roles = snd (effectiveRoles (dp_uni dp) (w_catalog w) (k_roles env) (e_listed env) (u_roles user))"
    "IssueRotatedPair (dp_sign dp) (as_tokenSvc s) (e_draws env) (k_issue env)
       (WithThumbprint (rq_ctx rq) (t_dpopJKT stored)) (t_userID stored) roles [''read'', ''write'']
       (t_clientID stored) fp (t_familyID stored) origin = Inr pair"
    "snd (rt_Create (e_create env) (w_db w) (successor dp env stored fp newID pair)) = Inr ()"
    "w_db w' = fst (rt_Create (e_create env) (w_db w) (successor dp env stored fp newID pair))"
    "rr_accessToken res = p_accessToken pair" "rr_refreshToken res = p_refreshToken pair"
    "last (map ae_event (w_audit w')) = TokenRefresh"
proof -
  obtain w1 user where a: "accountStillHoldsSessions env w stored = (w1, Inr user)"
    using assms unfolding refresh_rotate_def by (auto split: sum.splits prod.splits)
  from accountStillHoldsSessions_ok [OF a] have w1: "w1 = w" by simp
  obtain cat' roles where r: "effectiveRoles (dp_uni dp) (w_catalog w) (k_roles env) (e_listed env) (u_roles user) = (cat', roles)"
    by (metis surj_pair)
  obtain w2 pair where i: "issueRotatedPair dp s env (rq_ctx rq) (w\<lparr> w_catalog := cat' \<rparr>) stored roles fp origin
      (rq_ip rq) (rq_ua rq) = (w2, Inr pair)"
    and res: "rr_accessToken res = p_accessToken pair" "rr_refreshToken res = p_refreshToken pair"
    and w': "w_db w' = w_db w2" "last (map ae_event (w_audit w')) = TokenRefresh"
    using assms unfolding refresh_rotate_def a w1 Let_def
    by (auto simp: r split: sum.splits prod.splits if_splits)
  from i show thesis
  proof (rule issueRotatedPair_ok)
    fix newID
    assume "IssueRotatedPair (dp_sign dp) (as_tokenSvc s) (e_draws env) (k_issue env)
       (WithThumbprint (rq_ctx rq) (t_dpopJKT stored)) (t_userID stored) roles [''read'', ''write'']
       (t_clientID stored) fp (t_familyID stored) origin = Inr pair"
      "snd (rt_Create (e_create env) (w_db (w\<lparr> w_catalog := cat' \<rparr>)) (successor dp env stored fp newID pair)) = Inr ()"
      "w2 = w\<lparr> w_catalog := cat', w_db := fst (rt_Create (e_create env) (w_db (w\<lparr> w_catalog := cat' \<rparr>))
         (successor dp env stored fp newID pair)) \<rparr>"
    with accountStillHoldsSessions_ok [OF a] r res w' show thesis
      by (intro that [of user roles pair newID]) simp_all
  qed
qed

lemma Refresh_ok:
  assumes "Refresh dp s env rq w = (w', Inr res)"
  obtains r origin where
    "find (\<lambda>r. r_hash r = dp_sha dp (rq_token rq)) (rd_rows (w_db w)) = Some r"
    "\<not> r_revoked r" "\<not> r_used r" "checks_pass dp s env rq w (token_of_row r) origin"
    "snd (rt_MarkUsed (e_mark env) (w_db w) (r_id r)) = Inr True"
    "refresh_rotate dp s env rq (w\<lparr> w_db := fst (rt_MarkUsed (e_mark env) (w_db w) (r_id r)) \<rparr>) (token_of_row r)
       (request_fingerprint dp rq) origin = (w', Inr res)"
proof -
  obtain r where r: "find (\<lambda>r. r_hash r = dp_sha dp (rq_token rq)) (rd_rows (w_db w)) = Some r"
    and up: "rt_GetByTokenHash (e_lookup env) (w_db w) (dp_sha dp (rq_token rq)) = Inr (Some (token_of_row r))"
    using assms unfolding Refresh_def rt_GetByTokenHash_def by (auto split: if_splits option.splits)
  have fl: "\<not> r_revoked r" "\<not> r_used r"
    using assms unfolding Refresh_def up by (auto simp: token_of_row_def split: if_splits)
  obtain w1 fp origin where c: "refresh_checks dp s env rq w (token_of_row r) = (w1, Inr (fp, origin))"
    using assms unfolding Refresh_def up by (auto split: if_splits sum.splits prod.splits)
  from refresh_checks_ok [OF c] have w1: "w1 = w" "fp = request_fingerprint dp rq"
    "checks_pass dp s env rq w (token_of_row r) origin" by simp_all
  have tid: "t_id (token_of_row r) = r_id r" "t_revoked (token_of_row r) = r_revoked r" "t_used (token_of_row r) = r_used r"
    by (simp_all add: token_of_row_def)
  have m: "snd (rt_MarkUsed (e_mark env) (w_db w) (r_id r)) = Inr True"
    and ro: "refresh_rotate dp s env rq (w\<lparr> w_db := fst (rt_MarkUsed (e_mark env) (w_db w) (r_id r)) \<rparr>)
       (token_of_row r) (request_fingerprint dp rq) origin = (w', Inr res)"
    using assms fl unfolding Refresh_def up Let_def
    by (auto simp: c w1(1,2) tid split: if_splits sum.splits prod.splits)
  from that [OF r fl w1(3) m ro] show thesis .
qed

section \<open>Properties of a rotation\<close>

lemma token_of_row_simps [simp]:
  "t_id (token_of_row r) = r_id r" "t_userID (token_of_row r) = r_user r"
  "t_familyID (token_of_row r) = r_family r" "t_expiresAt (token_of_row r) = r_expires r"
  "t_used (token_of_row r) = r_used r" "t_revoked (token_of_row r) = r_revoked r"
  "t_createdAt (token_of_row r) = r_created r" "t_dpopJKT (token_of_row r) = deref (r_jkt r)"
  "t_fingerprintHash (token_of_row r) = deref (r_fingerprint r)"
  by (simp_all add: token_of_row_def)

lemma successor_simps [simp]:
  "t_userID (successor dp env st fp i p) = t_userID st" "t_familyID (successor dp env st fp i p) = t_familyID st"
  "t_tokenHash (successor dp env st fp i p) = dp_sha dp (p_refreshToken p)"
  "t_expiresAt (successor dp env st fp i p) = p_refreshExpAt p" "t_id (successor dp env st fp i p) = i"
  by (simp_all add: successor_def)

lemma MarkUsed_rows:
  assumes "snd (rt_MarkUsed up db i) = Inr x"
  shows "rd_rows (fst (rt_MarkUsed up db i)) =
           map (\<lambda>r. if r_id r = i \<and> \<not> r_used r \<and> \<not> r_revoked r then r\<lparr> r_used := True \<rparr> else r) (rd_rows db)"
    "rd_users (fst (rt_MarkUsed up db i)) = rd_users db"
  using assms by (cases up; simp add: rt_MarkUsed_def Let_def)+

lemma Create_rows:
  assumes "snd (rt_Create up db t) = Inr ()"
  shows "rd_rows (fst (rt_Create up db t)) = rd_rows db @ [inherit_family db (refreshTokenInsertArgs t)]"
  using assms by (simp add: rt_Create_ok_iff rt_Create_db)

text \<open>The table after a rotation: the presented row is spent and one row follows it.\<close>

definition rotated :: "refresh_row list \<Rightarrow> refresh_row \<Rightarrow> refresh_row \<Rightarrow> refresh_row list" where
  "rotated rows r row =
     map (\<lambda>x. if r_id x = r_id r \<and> \<not> r_used x \<and> \<not> r_revoked x then x\<lparr> r_used := True \<rparr> else x) rows @ [row]"

text \<open>C2: A refresh succeeds only for a live session. If \<open>Refresh\<close> answers with a token, the presented
  token named a row that was neither used nor revoked nor expired, the family was inside its absolute
  lifetime and its inactivity window, the device and the DPoP key were the bound ones, and the account
  was neither deleted, banned, disabled nor locked. The row is then spent and exactly one fresh row
  joins the same family, for the same user, under the hash of the new token.\<close>

theorem refresh_only_for_a_live_session:
  assumes "Refresh dp s env rq w = (w', Inr res)"
  shows "\<exists>r origin user row.
           find (\<lambda>r. r_hash r = dp_sha dp (rq_token rq)) (rd_rows (w_db w)) = Some r \<and>
           \<not> r_revoked r \<and> \<not> r_used r \<and> checks_pass dp s env rq w (token_of_row r) origin \<and>
           map_of (rd_users (w_db w)) (r_user r) = Some user \<and> account_refusal env (Some user) = None \<and>
           rd_rows (w_db w') = rotated (rd_rows (w_db w)) r row \<and>
           r_family row = r_family r \<and> r_user row = r_user r \<and>
           r_hash row = dp_sha dp (rr_refreshToken res) \<and> \<not> r_used row \<and> \<not> r_revoked row"
  using assms
proof (rule Refresh_ok)
  fix r origin
  assume r: "find (\<lambda>r. r_hash r = dp_sha dp (rq_token rq)) (rd_rows (w_db w)) = Some r"
    "\<not> r_revoked r" "\<not> r_used r" "checks_pass dp s env rq w (token_of_row r) origin"
    and m: "snd (rt_MarkUsed (e_mark env) (w_db w) (r_id r)) = Inr True"
    and ro: "refresh_rotate dp s env rq (w\<lparr> w_db := fst (rt_MarkUsed (e_mark env) (w_db w) (r_id r)) \<rparr>) (token_of_row r)
       (request_fingerprint dp rq) origin = (w', Inr res)"
  let ?db1 = "fst (rt_MarkUsed (e_mark env) (w_db w) (r_id r))"
  from ro show ?thesis
  proof (rule refresh_rotate_ok)
    fix user roles newID pair
    let ?t = "successor dp env (token_of_row r) (request_fingerprint dp rq) newID pair"
    assume u: "map_of (rd_users (w_db (w\<lparr> w_db := ?db1 \<rparr>))) (t_userID (token_of_row r)) = Some user"
        "\<not> u_deleted user" "\<not> u_banned user" "\<not> u_disabled user" "\<not> user_locked env (Some user)"
      and c: "snd (rt_Create (e_create env) (w_db (w\<lparr> w_db := ?db1 \<rparr>)) ?t) = Inr ()"
        "w_db w' = fst (rt_Create (e_create env) (w_db (w\<lparr> w_db := ?db1 \<rparr>)) ?t)"
      and p: "rr_refreshToken res = p_refreshToken pair"
    have rows: "rd_rows (w_db w') = rotated (rd_rows (w_db w)) r
        (inherit_family ?db1 (refreshTokenInsertArgs ?t))"
      using Create_rows [OF c(1)] by (simp add: c(2) MarkUsed_rows(1) [OF m] rotated_def)
    have user: "map_of (rd_users (w_db w)) (r_user r) = Some user" "account_refusal env (Some user) = None"
      using u by (simp_all add: MarkUsed_rows(2) [OF m] account_refusal_def)
    show ?thesis
      using r user rows
      by (intro exI [of _ r] exI [of _ origin] exI [of _ user]
          exI [of _ "inherit_family ?db1 (refreshTokenInsertArgs ?t)"] conjI) (simp_all add: p)
  qed
qed

definition sample_deps :: "nat deps" where
  "sample_deps = \<lparr> dp_sign = sample_sign, dp_sha = (\<lambda>b. if length b < 4 then b else ''fp''), dp_uni = id \<rparr>"

definition sample_env :: env where
  "sample_env = \<lparr> e_lookup = True, e_origin = True, e_mark = True, e_user = True, e_create = True,
     e_revoke = (\<lambda>_. True), e_listed = None, e_draws = sample_draws, k_expiry = 20, k_lifetime = 20,
     k_idle = 20, k_locked = 20, k_roles = 20, k_issue = 20, k_created = 20, k_cookie = 20 \<rparr>"

definition sample_rq :: refresh_req where
  "sample_rq = \<lparr> rq_token = ''1'', rq_ip = [], rq_ua = [], rq_fp = \<lparr> fi_ip = [], fi_userAgent = [],
     fi_acceptLanguage = [], fi_tlsFingerprint = [] \<rparr>, rq_ctx = \<lparr> ctx_thumbprint = ''jkt'' \<rparr> \<rparr>"

definition sample_auth :: "nat AuthService" where
  "sample_auth = \<lparr> as_tokenSvc = sample_service, as_datesFamilies = True, as_metrics = True,
     as_maxSessionsPerUser = 1, as_strictSessionLimit = False \<rparr>"

definition sample_world :: world where
  "sample_world = \<lparr> w_db = sample_db, w_audit = [], w_refreshed = 0, w_replayed = 0, w_catalog = None \<rparr>"

lemmas world_simps = sample_deps_def sample_env_def sample_rq_def sample_auth_def sample_world_def

lemmas refresh_simps = Refresh_def refresh_checks_def refresh_rotate_def enforceSessionLifetime_def
  enforceSessionInactivity_def enforceDPoPBinding_def accountStillHoldsSessions_def getUser_def
  account_refusal_def user_locked_def issueRotatedPair_def rt_GetByTokenHash_def rt_FamilyOrigin_def
  token_of_row_def deref_def ComputeFingerprint_def Thumbprint_def WithThumbprint_def
  successor_def effectiveRoles_def FilterUserRoles_def containRefreshReuse_def revokeFamily_def Log_def

lemma sample_fingerprint: "request_fingerprint sample_deps rq = ''fp''"
  by (simp add: request_fingerprint_def ComputeFingerprint_def sample_deps_def fingerprint_bytes_def
      writeLengthPrefixed_def)

lemma sample_refresh: "\<exists>w' res. Refresh sample_deps sample_auth sample_env sample_rq sample_world = (w', Inr res)"
proof -
  have "snd (Refresh sample_deps sample_auth sample_env sample_rq sample_world) \<noteq> Inl e" for e
    by (simp add: refresh_simps Let_def world_simps sample_simps token_sample_simps user_not_reserved
        fingerprint_bytes_def writeLengthPrefixed_def)
  then show ?thesis by (metis surj_pair snd_conv sum.exhaust)
qed

theorem refresh_only_for_a_live_session_witness:
  "\<exists>w' res r. Refresh sample_deps sample_auth sample_env sample_rq sample_world = (w', Inr res) \<and>
     find (\<lambda>r. r_hash r = ''1'') (rd_rows sample_db) = Some r \<and> \<not> r_used r \<and>
     length (rd_rows (w_db w')) = 2"
proof -
  obtain w' res where ok: "Refresh sample_deps sample_auth sample_env sample_rq sample_world = (w', Inr res)"
    using sample_refresh by blast
  have one: "length (rd_rows sample_db) = 1" by (simp add: sample_simps)
  from refresh_only_for_a_live_session [OF ok] obtain r row where
    "find (\<lambda>r. r_hash r = ''1'') (rd_rows sample_db) = Some r" "\<not> r_used r"
    "rd_rows (w_db w') = rotated (rd_rows sample_db) r row"
    by (auto simp: world_simps)
  with ok one show ?thesis by (intro exI [of _ w'] exI [of _ res] exI [of _ r]) (simp add: rotated_def)
qed

lemma FamilyOrigin_wf:
  assumes "store_wf db" "r \<in> set (rd_rows db)" "rt_FamilyOrigin up db (r_family r) = Inr origin"
  shows "origin = r_origin r"
proof -
  have "Some (r_origin s) = Some (r_origin r)" if "s \<in> set (family_rows db (r_family r))" for s
    using assms(1,2) that unfolding store_wf_def set_family_rows by (metis (lifting) mem_Collect_eq)
  moreover have "family_rows db (r_family r) \<noteq> []"
    using assms(2) unfolding family_rows_empty_iff by metis
  ultimately have "sql_min (map (\<lambda>s. Some (r_origin s)) (family_rows db (r_family r))) = Some (r_origin r)"
    by (intro sql_min_const) auto
  with assms(3) show ?thesis by (cases up) (simp_all add: rt_FamilyOrigin_def)
qed

text \<open>The successor row of a rotation, and the pair it was issued with.\<close>

lemma Refresh_successor:
  assumes ok: "Refresh dp s env rq w = (w', Inr res)" and wf: "store_wf (w_db w)"
  obtains r origin user pair row where
    "r \<in> set (rd_rows (w_db w))" "r_hash r = dp_sha dp (rq_token rq)"
    "checks_pass dp s env rq w (token_of_row r) origin"
    "IssueRotatedPair (dp_sign dp) (as_tokenSvc s) (e_draws env) (k_issue env)
       (WithThumbprint (rq_ctx rq) (deref (r_jkt r))) (r_user r)
       (snd (effectiveRoles (dp_uni dp) (w_catalog w) (k_roles env) (e_listed env) (u_roles user)))
       [''read'', ''write''] (deref (r_client r)) (request_fingerprint dp rq) (r_family r) origin = Inr pair"
    "map_of (rd_users (w_db w)) (r_user r) = Some user"
    "rr_accessToken res = p_accessToken pair"
    "rd_rows (w_db w') = rotated (rd_rows (w_db w)) r row"
    "r_family row = r_family r" "r_expires row = p_refreshExpAt pair"
    "r_origin row = r_origin r" "r_jkt row = r_jkt r" "r_created row = k_created env"
  using ok
proof (rule Refresh_ok)
  fix r origin
  assume r: "find (\<lambda>r. r_hash r = dp_sha dp (rq_token rq)) (rd_rows (w_db w)) = Some r"
    and ch: "checks_pass dp s env rq w (token_of_row r) origin"
    and m: "snd (rt_MarkUsed (e_mark env) (w_db w) (r_id r)) = Inr True"
    and ro: "refresh_rotate dp s env rq (w\<lparr> w_db := fst (rt_MarkUsed (e_mark env) (w_db w) (r_id r)) \<rparr>) (token_of_row r)
       (request_fingerprint dp rq) origin = (w', Inr res)"
  have mem: "r \<in> set (rd_rows (w_db w))" "r_hash r = dp_sha dp (rq_token rq)"
    using r by (auto simp: find_Some_iff)
  define db1 where "db1 = fst (rt_MarkUsed (e_mark env) (w_db w) (r_id r))"
  define g where "g = (\<lambda>x :: refresh_row. if r_id x = r_id r \<and> \<not> r_used x \<and> \<not> r_revoked x then x\<lparr> r_used := True \<rparr> else x)"
  have db1: "rd_rows db1 = map g (rd_rows (w_db w))" "rd_users db1 = rd_users (w_db w)"
    using MarkUsed_rows [OF m] by (simp_all add: db1_def g_def)
  have grow: "grows x (g x)" for x by (simp add: g_def)
  have wf1: "store_wf db1" by (rule store_wf_grow [OF wf db1(1) grow])
  from ro [folded db1_def] show thesis
  proof (rule refresh_rotate_ok)
    fix user roles newID pair
    let ?t = "successor dp env (token_of_row r) (request_fingerprint dp rq) newID pair"
    let ?row = "inherit_family db1 (refreshTokenInsertArgs ?t)"
    assume u: "map_of (rd_users (w_db (w\<lparr> w_db := db1 \<rparr>))) (t_userID (token_of_row r)) = Some user"
      and roles: "roles = snd (effectiveRoles (dp_uni dp) (w_catalog (w\<lparr> w_db := db1 \<rparr>)) (k_roles env) (e_listed env) (u_roles user))"
      and i: "IssueRotatedPair (dp_sign dp) (as_tokenSvc s) (e_draws env) (k_issue env)
       (WithThumbprint (rq_ctx rq) (t_dpopJKT (token_of_row r))) (t_userID (token_of_row r)) roles [''read'', ''write'']
       (t_clientID (token_of_row r)) (request_fingerprint dp rq) (t_familyID (token_of_row r)) origin = Inr pair"
      and c: "snd (rt_Create (e_create env) (w_db (w\<lparr> w_db := db1 \<rparr>)) ?t) = Inr ()"
        "w_db w' = fst (rt_Create (e_create env) (w_db (w\<lparr> w_db := db1 \<rparr>)) ?t)"
      and p: "rr_accessToken res = p_accessToken pair"
    have inh: "r_origin ?row = r_origin (g r) \<and> r_jkt ?row = r_jkt (g r)"
    proof (rule inherit_from_family [of "g r"])
      show "g r \<in> set (rd_rows db1)" using mem(1) by (simp add: db1(1))
      show "r_family (g r) = r_family (refreshTokenInsertArgs ?t)" by (simp add: growsD(4) [OF grow])
      show "r_origin x = r_origin (g r) \<and> r_jkt x = r_jkt (g r)"
        if "x \<in> set (rd_rows db1)" "r_family x = r_family (refreshTokenInsertArgs ?t)" for x
        using that wf1 \<open>g r \<in> set (rd_rows db1)\<close> \<open>r_family (g r) = r_family (refreshTokenInsertArgs ?t)\<close>
        unfolding store_wf_def by metis
    qed
    have rows: "rd_rows (w_db w') = rotated (rd_rows (w_db w)) r ?row"
      using Create_rows [OF c(1)] by (simp add: c(2) db1(1) rotated_def g_def)
    show thesis
    proof (rule that [OF mem ch _ _ p rows])
      show "map_of (rd_users (w_db w)) (r_user r) = Some user" using u by (simp add: db1(2))
      show "IssueRotatedPair (dp_sign dp) (as_tokenSvc s) (e_draws env) (k_issue env)
         (WithThumbprint (rq_ctx rq) (deref (r_jkt r))) (r_user r)
         (snd (effectiveRoles (dp_uni dp) (w_catalog w) (k_roles env) (e_listed env) (u_roles user)))
         [''read'', ''write''] (deref (r_client r)) (request_fingerprint dp rq) (r_family r) origin = Inr pair"
        using i by (simp add: roles token_of_row_def)
    qed (use inh in \<open>simp_all add: growsD(5,6) [OF grow] successor_def\<close>)
  qed
qed

text \<open>C29: The absolute session lifetime holds however often the session is refreshed. The row a rotation
  adds keeps the birth date of the row it replaces, and with a lifetime configured it expires no later
  than birth date plus lifetime; with an inactivity window configured it expires no later than one
  window after its issue; and it never outlives the refresh TTL.\<close>

theorem rotation_stays_inside_session_bounds:
  assumes "Refresh dp s env rq w = (w', Inr res)" and "store_wf (w_db w)" and "0 < k_issue env"
    and "list_all (\<lambda>r. 0 < r_origin r \<and> r_family r \<noteq> []) (rd_rows (w_db w))"
  shows "\<exists>r row. r \<in> set (rd_rows (w_db w)) \<and> r_hash r = dp_sha dp (rq_token rq) \<and>
           rd_rows (w_db w') = rotated (rd_rows (w_db w)) r row \<and>
           r_origin row = r_origin r \<and>
           r_expires row \<le> k_issue env + ts_refreshTokenTTL (as_tokenSvc s) \<and>
           (0 < ts_maxSessionLifetime (as_tokenSvc s) \<longrightarrow>
              r_expires row \<le> r_origin row + ts_maxSessionLifetime (as_tokenSvc s)) \<and>
           (0 < ts_inactivityTimeout (as_tokenSvc s) \<longrightarrow>
              r_expires row \<le> k_issue env + ts_inactivityTimeout (as_tokenSvc s))"
  using assms(1,2)
proof (rule Refresh_successor)
  fix r origin user pair row
  assume r: "r \<in> set (rd_rows (w_db w))" "r_hash r = dp_sha dp (rq_token rq)"
    and ch: "checks_pass dp s env rq w (token_of_row r) origin"
    and i: "IssueRotatedPair (dp_sign dp) (as_tokenSvc s) (e_draws env) (k_issue env)
       (WithThumbprint (rq_ctx rq) (deref (r_jkt r))) (r_user r)
       (snd (effectiveRoles (dp_uni dp) (w_catalog w) (k_roles env) (e_listed env) (u_roles user)))
       [''read'', ''write''] (deref (r_client r)) (request_fingerprint dp rq) (r_family r) origin = Inr pair"
    and rows: "rd_rows (w_db w') = rotated (rd_rows (w_db w)) r row"
    and row: "r_expires row = p_refreshExpAt pair" "r_origin row = r_origin r"
  have fam: "0 < r_origin r" "r_family r \<noteq> []"
    using assms(4) r(1) by (simp_all add: list_all_iff)
  have origin: "origin = r_origin r" if "0 < ts_maxSessionLifetime (as_tokenSvc s)"
    using ch that by (intro FamilyOrigin_wf [OF assms(2) r(1), of "e_origin env"]) (simp add: checks_pass_def)
  note b = rotated_expiry_bounds [OF i fam(2)]
  show ?thesis
    using r rows row b fam(1) origin assms(3) by (intro exI [of _ r] exI [of _ row] conjI impI) simp_all
qed

lemma sample_wf: "store_wf sample_db"
  by (simp add: sample_simps store_wf_def)

theorem rotation_stays_inside_session_bounds_witness:
  "\<exists>w' res row. Refresh sample_deps sample_auth sample_env sample_rq sample_world = (w', Inr res) \<and>
     row \<in> set (rd_rows (w_db w')) \<and> r_origin row = 10 \<and> r_expires row \<le> 20 + 60"
proof -
  obtain w' res where ok: "Refresh sample_deps sample_auth sample_env sample_rq sample_world = (w', Inr res)"
    using sample_refresh by blast
  have db: "w_db sample_world = sample_db" by (simp add: sample_world_def)
  have pos: "list_all (\<lambda>r. 0 < r_origin r \<and> r_family r \<noteq> []) (rd_rows sample_db)"
    and all10: "\<And>r. r \<in> set (rd_rows sample_db) \<Longrightarrow> r_origin r = 10"
    by (simp_all add: sample_simps)
  from rotation_stays_inside_session_bounds [OF ok] obtain r row where
    "r \<in> set (rd_rows sample_db)" "rd_rows (w_db w') = rotated (rd_rows sample_db) r row"
    "r_origin row = r_origin r" "r_expires row \<le> 20 + 60"
    using sample_wf pos unfolding db
    by (auto simp: sample_env_def sample_auth_def sample_service_def SetInactivityTimeout_def
        SetMaxSessionLifetime_def NewTokenService_def)
  with ok all10 show ?thesis
    by (intro exI [of _ w'] exI [of _ res] exI [of _ row]) (simp add: rotated_def)
qed

text \<open>The sender constraint survives rotation. The access token a refresh answers with is signed
  over claims whose \<open>cnf.jkt\<close> is the binding stored on the family and not the key of the request, for
  the family's user, with no admin-tier role; the new row carries the same binding, and a bound family
  was only rotated by a request that proved the bound key.\<close>

theorem rotation_binds_token_to_family_key:
  assumes "Refresh dp s env rq w = (w', Inr res)" and "store_wf (w_db w)"
    and "list_all (\<lambda>r. r_family r \<noteq> []) (rd_rows (w_db w))"
  shows "\<exists>r row claims. r \<in> set (rd_rows (w_db w)) \<and> r_hash r = dp_sha dp (rq_token rq) \<and>
           rd_rows (w_db w') = rotated (rd_rows (w_db w)) r row \<and> r_jkt row = r_jkt r \<and>
           dp_sign dp claims (ts_privateKey (as_tokenSvc s)) (ts_kid (as_tokenSvc s)) = Some (rr_accessToken res) \<and>
           c_cnf claims = nullStr (deref (r_jkt r)) \<and> c_sub claims = r_user r \<and>
           filter (IsReservedAdminRole (dp_uni dp)) (c_roles claims) = [] \<and>
           (deref (r_jkt r) = [] \<or> Thumbprint (rq_ctx rq) = deref (r_jkt r))"
  using assms(1,2)
proof (rule Refresh_successor)
  fix r origin user pair row
  assume r: "r \<in> set (rd_rows (w_db w))" "r_hash r = dp_sha dp (rq_token rq)"
    and ch: "checks_pass dp s env rq w (token_of_row r) origin"
    and i: "IssueRotatedPair (dp_sign dp) (as_tokenSvc s) (e_draws env) (k_issue env)
       (WithThumbprint (rq_ctx rq) (deref (r_jkt r))) (r_user r)
       (snd (effectiveRoles (dp_uni dp) (w_catalog w) (k_roles env) (e_listed env) (u_roles user)))
       [''read'', ''write''] (deref (r_client r)) (request_fingerprint dp rq) (r_family r) origin = Inr pair"
    and p: "rr_accessToken res = p_accessToken pair"
    and rows: "rd_rows (w_db w') = rotated (rd_rows (w_db w)) r row" and row: "r_jkt row = r_jkt r"
  have fam: "r_family r \<noteq> []" using assms(3) r(1) by (simp add: list_all_iff)
  let ?roles = "snd (effectiveRoles (dp_uni dp) (w_catalog w) (k_roles env) (e_listed env) (u_roles user))"
  let ?cl = "\<lambda>jti. accessClaims (as_tokenSvc s) (WithThumbprint (rq_ctx rq) (deref (r_jkt r))) (k_issue env) jti
    (r_user r) ?roles [''read'', ''write''] (deref (r_client r)) (request_fingerprint dp rq)
    (no_auth\<lparr> ac_authTime := origin \<rparr>)"
  from i fam obtain jti where
    "dp_sign dp (?cl jti) (ts_privateKey (as_tokenSvc s)) (ts_kid (as_tokenSvc s)) = Some (p_accessToken pair)"
    by (rule rotated_cases)
  moreover have "c_cnf (?cl jti) = nullStr (deref (r_jkt r))" "c_sub (?cl jti) = r_user r" "c_roles (?cl jti) = ?roles"
    by (simp_all add: accessClaims_def cnf_of_def WithThumbprint_def Thumbprint_def nullStr_def)
  moreover have "filter (IsReservedAdminRole (dp_uni dp)) ?roles = []"
    by (rule effectiveRoles_clean)
  moreover have "deref (r_jkt r) = [] \<or> Thumbprint (rq_ctx rq) = deref (r_jkt r)"
    using ch by (auto simp: checks_pass_def)
  ultimately show ?thesis
    using r rows row p by (intro exI [of _ r] exI [of _ row] exI [of _ "?cl jti"] conjI) simp_all
qed

theorem rotation_binds_token_to_family_key_witness:
  "\<exists>w' res claims. Refresh sample_deps sample_auth sample_env sample_rq sample_world = (w', Inr res) \<and>
     sample_sign claims (Some 0) ''k'' = Some (rr_accessToken res) \<and> c_cnf claims = Some ''jkt''"
proof -
  obtain w' res where ok: "Refresh sample_deps sample_auth sample_env sample_rq sample_world = (w', Inr res)"
    using sample_refresh by blast
  have db: "w_db sample_world = sample_db" by (simp add: sample_world_def)
  have fam: "list_all (\<lambda>r. r_family r \<noteq> []) (rd_rows sample_db)"
    and jkt: "\<And>r. r \<in> set (rd_rows sample_db) \<Longrightarrow> nullStr (deref (r_jkt r)) = Some ''jkt''"
    by (simp_all add: sample_simps deref_def)
  from rotation_binds_token_to_family_key [OF ok] obtain r claims where
    "r \<in> set (rd_rows sample_db)" "c_cnf claims = nullStr (deref (r_jkt r))"
    "sample_sign claims (Some 0) ''k'' = Some (rr_accessToken res)"
    using sample_wf fam unfolding db
    by (auto simp: sample_deps_def sample_auth_def sample_service_def SetInactivityTimeout_def
        SetMaxSessionLifetime_def NewTokenService_def)
  with ok jkt show ?thesis by auto
qed

definition found :: "'k deps \<Rightarrow> env \<Rightarrow> refresh_req \<Rightarrow> world \<Rightarrow> refresh_row \<Rightarrow> bool" where
  "found dp env rq w r \<longleftrightarrow> e_lookup env \<and>
     find (\<lambda>r. r_hash r = dp_sha dp (rq_token rq)) (rd_rows (w_db w)) = Some r"

lemma found_lookup:
  "found dp env rq w r \<Longrightarrow>
     rt_GetByTokenHash (e_lookup env) (w_db w) (dp_sha dp (rq_token rq)) = Inr (Some (token_of_row r))"
  by (simp add: found_def rt_GetByTokenHash_def)

lemma found_mem: "found dp env rq w r \<Longrightarrow> r \<in> set (rd_rows (w_db w)) \<and> r_hash r = dp_sha dp (rq_token rq)"
  by (auto simp: found_def find_Some_iff)

definition last_audit :: "world \<Rightarrow> audit_entry" where
  "last_audit w = last (w_audit w)"


definition sample_spent :: world where
  "sample_spent = sample_world\<lparr> w_db := fst (rt_MarkUsed True sample_db ''1'') \<rparr>"


text \<open>A stolen cookie without the key does nothing. When the family is bound to a DPoP key and the
  request does not prove that key, no token is issued; if the earlier checks pass, the table is left
  exactly as it was, so the session of the legitimate holder goes on, and the mismatch is audited.\<close>

theorem wrong_dpop_key_leaves_session_intact:
  assumes "found dp env rq w r" and "\<not> r_used r" and "\<not> r_revoked r"
    and "deref (r_jkt r) \<noteq> []" and "Thumbprint (rq_ctx rq) \<noteq> deref (r_jkt r)"
    and "Refresh dp s env rq w = (w', out)"
  shows "(\<exists>e. out = Inl e) \<and>
         (k_expiry env \<le> r_expires r \<and>
          snd (enforceSessionLifetime s env w (token_of_row r) (rq_ip rq) (rq_ua rq)) = Inr origin \<and>
          snd (enforceSessionInactivity s env w (token_of_row r) (rq_ip rq) (rq_ua rq)) = Inr () \<and>
          (deref (r_fingerprint r) = [] \<or> deref (r_fingerprint r) = request_fingerprint dp rq) \<longrightarrow>
          out = Inl ErrTokenInvalid \<and> w_db w' = w_db w \<and> ae_event (last_audit w') = DPoPBindingMismatch)"
proof -
  have fail: "\<exists>e. out = Inl e"
  proof (cases out)
    case (Inr res)
    with assms(6) have "Refresh dp s env rq w = (w', Inr res)" by simp
    then show ?thesis
    proof (rule Refresh_ok)
      fix r' origin'
      assume "find (\<lambda>r. r_hash r = dp_sha dp (rq_token rq)) (rd_rows (w_db w)) = Some r'"
        "checks_pass dp s env rq w (token_of_row r') origin'"
      with assms(1,4,5) show ?thesis by (auto simp: found_def checks_pass_def)
    qed
  qed simp
  have "out = Inl ErrTokenInvalid \<and> w_db w' = w_db w \<and> ae_event (last_audit w') = DPoPBindingMismatch"
    if live: "k_expiry env \<le> r_expires r"
      and l: "snd (enforceSessionLifetime s env w (token_of_row r) (rq_ip rq) (rq_ua rq)) = Inr origin"
      and i: "snd (enforceSessionInactivity s env w (token_of_row r) (rq_ip rq) (rq_ua rq)) = Inr ()"
      and fp: "deref (r_fingerprint r) = [] \<or> deref (r_fingerprint r) = request_fingerprint dp rq"
  proof -
    have l': "enforceSessionLifetime s env w (token_of_row r) (rq_ip rq) (rq_ua rq) = (w, Inr origin)"
      using l enforceSessionLifetime_ok by (metis prod.collapse)
    have i': "enforceSessionInactivity s env w (token_of_row r) (rq_ip rq) (rq_ua rq) = (w, Inr ())"
      using i enforceSessionInactivity_ok by (metis prod.collapse)
    have d: "\<exists>wd. enforceDPoPBinding (rq_ctx rq) w (token_of_row r) (rq_ip rq) (rq_ua rq) (request_fingerprint dp rq)
        = (wd, Inl ErrTokenInvalid) \<and> w_db wd = w_db w \<and> ae_event (last_audit wd) = DPoPBindingMismatch"
      using assms(4,5) by (simp add: enforceDPoPBinding_def Let_def last_audit_def Log_def)
    then obtain wd where "refresh_checks dp s env rq w (token_of_row r) = (wd, Inl ErrTokenInvalid)"
      "w_db wd = w_db w" "ae_event (last_audit wd) = DPoPBindingMismatch"
      using live fp by (auto simp: refresh_checks_def l' i' request_fingerprint_def)
    with assms(2,3,6) found_lookup [OF assms(1)] show ?thesis
      by (simp add: Refresh_def)
  qed
  with fail show ?thesis by blast
qed

definition thief_rq :: refresh_req where
  "thief_rq = sample_rq\<lparr> rq_ctx := \<lparr> ctx_thumbprint = ''thief'' \<rparr> \<rparr>"

theorem wrong_dpop_key_leaves_session_intact_witness:
  "\<exists>w'. Refresh sample_deps sample_auth sample_env thief_rq sample_world = (w', Inl ErrTokenInvalid) \<and>
        w_db w' = sample_db"
proof -
  obtain w' out where ok: "Refresh sample_deps sample_auth sample_env thief_rq sample_world = (w', out)"
    by (metis surj_pair)
  define r where "r = hd (rd_rows sample_db)"
  have "found sample_deps sample_env thief_rq sample_world r" "\<not> r_used r" "\<not> r_revoked r"
    "deref (r_jkt r) \<noteq> []" "Thumbprint (rq_ctx thief_rq) \<noteq> deref (r_jkt r)"
    by (simp_all add: r_def found_def thief_rq_def Thumbprint_def deref_def world_simps sample_simps)
  note refused = wrong_dpop_key_leaves_session_intact [OF this ok, of 10, THEN conjunct2, THEN mp]
  have "out = Inl ErrTokenInvalid \<and> w_db w' = w_db sample_world"
    using refused by (simp add: r_def sample_fingerprint enforceSessionLifetime_def enforceSessionInactivity_def
        rt_FamilyOrigin_def sample_env_def sample_auth_def sample_world_def sample_simps
        token_sample_simps deref_def)
  with ok show ?thesis by (simp add: sample_world_def)
qed

text \<open>A session whose age cannot be established is refused. With a lifetime configured, a store that
  cannot date families, or fails to, makes the request end in \<open>ErrSessionAgeUnknown\<close>; nothing is
  spent or revoked.\<close>

theorem unknown_session_age_fails_closed:
  assumes "found dp env rq w r" and "\<not> r_used r" and "\<not> r_revoked r" and "k_expiry env \<le> r_expires r"
    and "0 < ts_maxSessionLifetime (as_tokenSvc s)" and "\<not> as_datesFamilies s \<or> \<not> e_origin env"
  shows "snd (Refresh dp s env rq w) = Inl ErrSessionAgeUnknown \<and> w_db (fst (Refresh dp s env rq w)) = w_db w"
proof -
  have "\<exists>w1. enforceSessionLifetime s env w (token_of_row r) (rq_ip rq) (rq_ua rq) = (w1, Inl ErrSessionAgeUnknown) \<and>
      w_db w1 = w_db w"
    using assms(5,6) by (auto simp: enforceSessionLifetime_def Let_def rt_FamilyOrigin_def)
  then obtain w1 where "refresh_checks dp s env rq w (token_of_row r) = (w1, Inl ErrSessionAgeUnknown)"
    "w_db w1 = w_db w"
    using assms(4) by (auto simp: refresh_checks_def)
  with assms(2,3) found_lookup [OF assms(1)] show ?thesis by (simp add: Refresh_def)
qed

theorem unknown_session_age_fails_closed_witness:
  "snd (Refresh sample_deps sample_auth (sample_env\<lparr> e_origin := False \<rparr>) sample_rq sample_world) =
     Inl ErrSessionAgeUnknown"
proof -
  define r where "r = hd (rd_rows sample_db)"
  have "found sample_deps (sample_env\<lparr> e_origin := False \<rparr>) sample_rq sample_world r" "\<not> r_used r" "\<not> r_revoked r"
    "k_expiry (sample_env\<lparr> e_origin := False \<rparr>) \<le> r_expires r"
    by (simp_all add: r_def found_def world_simps sample_simps)
  from unknown_session_age_fails_closed [OF this, of sample_auth] show ?thesis
    by (simp add: sample_env_def sample_auth_def token_sample_simps)
qed

lemma refresh_checks_pass:
  assumes "checks_pass dp s env rq w stored origin" "origin \<noteq> 0" "as_datesFamilies s"
  shows "refresh_checks dp s env rq w stored = (w, Inr (request_fingerprint dp rq, origin))"
proof -
  have "enforceSessionLifetime s env w stored (rq_ip rq) (rq_ua rq) = (w, Inr origin)"
    using assms by (simp add: enforceSessionLifetime_def checks_pass_def Let_def)
  moreover have "enforceSessionInactivity s env w stored (rq_ip rq) (rq_ua rq) = (w, Inr ())"
    using assms by (simp add: enforceSessionInactivity_def checks_pass_def Let_def)
  moreover have "enforceDPoPBinding (rq_ctx rq) w stored (rq_ip rq) (rq_ua rq) fp = (w, Inr ())" for fp
    using assms by (auto simp: enforceDPoPBinding_def checks_pass_def Let_def)
  ultimately show ?thesis
    using assms by (simp add: refresh_checks_def checks_pass_def Let_def request_fingerprint_def)
qed

lemma MarkUsed_live:
  assumes "store_wf db" "r \<in> set (rd_rows db)" "\<not> r_used r" "\<not> r_revoked r"
  shows "snd (rt_MarkUsed True db (r_id r)) = Inr True"
proof -
  let ?p = "\<lambda>x. r_id x = r_id r \<and> \<not> r_used x \<and> \<not> r_revoked x"
  have "distinct (filter ?p (rd_rows db))"
    using assms(1) by (simp add: store_wf_def distinct_map)
  moreover have "set (filter ?p (rd_rows db)) = {r}"
  proof (rule set_eqI)
    fix x show "x \<in> set (filter ?p (rd_rows db)) \<longleftrightarrow> x \<in> {r}"
      using store_wf_id_unique [OF assms(1,2), of x] assms(2-4) by (cases "x = r") auto
  qed
  ultimately have "length (filter ?p (rd_rows db)) = 1"
    by (metis distinct_card card_1_singleton_iff One_nat_def)
  then show ?thesis by (simp add: rt_MarkUsed_def Let_def)
qed

lemma IssueRotatedPair_total:
  assumes "d_jti d = Some jti" "d_token d = Some tok" "fam \<noteq> []"
    and "\<And>claims. sign claims (ts_privateKey s) (ts_kid s) \<noteq> None"
  shows "\<exists>pair. IssueRotatedPair sign s d now ctx u roles scopes c fp fam origin = Inr pair \<and> p_refreshToken pair = tok"
  using assms(1-3) assms(4) [of "accessClaims s ctx now jti u roles scopes c fp (no_auth\<lparr> ac_authTime := origin \<rparr>)"]
  by (auto simp: IssueRotatedPair_def IssueTokenPairWithAuth_def Let_def)

text \<open>C30: A legitimate refresh goes through. When the row is live, the checks pass, the account may hold
  sessions, the family carries no revoked row, the database, the random source and the signer answer
  and the drawn id and hash are new, \<open>Refresh\<close> answers with a token pair.\<close>

theorem legitimate_refresh_succeeds:
  assumes "found dp env rq w r" and "store_wf (w_db w)" and "\<not> r_used r" and "\<not> r_revoked r"
    and "e_mark env" and "e_user env" and "e_create env" and "as_datesFamilies s" and "e_origin env"
    and "r_origin r \<noteq> 0" and "r_family r \<noteq> []"
    and "checks_pass dp s env rq w (token_of_row r) (r_origin r)"
    and "map_of (rd_users (w_db w)) (r_user r) = Some user" and "account_refusal env (Some user) = None"
    and "list_all (\<lambda>x. r_family x = r_family r \<longrightarrow> \<not> r_revoked x) (rd_rows (w_db w))"
    and "e_draws env = \<lparr> d_jti = Some jti, d_token = Some tok, d_family = fam, d_row = Some rid \<rparr>"
    and "list_all (\<lambda>x. r_id x \<noteq> rid \<and> r_hash x \<noteq> dp_sha dp tok) (rd_rows (w_db w))"
    and "\<And>claims. dp_sign dp claims (ts_privateKey (as_tokenSvc s)) (ts_kid (as_tokenSvc s)) \<noteq> None"
  shows "\<exists>w' res. Refresh dp s env rq w = (w', Inr res) \<and> rr_refreshToken res = tok"
proof -
  let ?st = "token_of_row r" and ?fp = "request_fingerprint dp rq"
  define db1 where "db1 = fst (rt_MarkUsed (e_mark env) (w_db w) (r_id r))"
  have mem: "r \<in> set (rd_rows (w_db w))" using found_mem [OF assms(1)] by simp
  have mark: "snd (rt_MarkUsed (e_mark env) (w_db w) (r_id r)) = Inr True"
    using MarkUsed_live [OF assms(2) mem assms(3,4)] assms(5) by simp
  have db1: "rd_users db1 = rd_users (w_db w)"
    "rd_rows db1 = map (\<lambda>x. if r_id x = r_id r \<and> \<not> r_used x \<and> \<not> r_revoked x then x\<lparr> r_used := True \<rparr> else x) (rd_rows (w_db w))"
    using MarkUsed_rows [OF mark] by (simp_all add: db1_def)
  have acct: "accountStillHoldsSessions env (w\<lparr> w_db := db1 \<rparr>) ?st = (w\<lparr> w_db := db1 \<rparr>, Inr user)"
    using assms(6,13,14) by (simp add: accountStillHoldsSessions_def getUser_def db1)
  obtain cat' roles where roles: "effectiveRoles (dp_uni dp) (w_catalog w) (k_roles env) (e_listed env) (u_roles user) = (cat', roles)"
    by (metis surj_pair)
  have draws: "d_jti (e_draws env) = Some jti" "d_token (e_draws env) = Some tok" "d_row (e_draws env) = Some rid"
    using assms(16) by simp_all
  obtain pair where pair: "IssueRotatedPair (dp_sign dp) (as_tokenSvc s) (e_draws env) (k_issue env)
       (WithThumbprint (rq_ctx rq) (t_dpopJKT ?st)) (t_userID ?st) roles [''read'', ''write'']
       (t_clientID ?st) ?fp (t_familyID ?st) (r_origin r) = Inr pair" and tok: "p_refreshToken pair = tok"
    using IssueRotatedPair_total [OF draws(1,2) assms(11), of "dp_sign dp" "as_tokenSvc s"] assms(18) by fastforce
  have "admits db1 (refreshTokenInsertArgs (successor dp env ?st ?fp rid pair))"
    using assms(13,14,15,17) tok
    by (auto simp: admits_def db1 list_all_iff account_kept_def account_refusal_def split: if_splits)
  then have create: "snd (rt_Create (e_create env) db1 (successor dp env ?st ?fp rid pair)) = Inr ()"
    using assms(7) by (simp add: rt_Create_ok_iff)
  then obtain db2 where create2: "rt_Create (e_create env) db1 (successor dp env ?st ?fp rid pair) = (db2, Inr ())"
    by (metis prod.collapse)
  have "issueRotatedPair dp s env (rq_ctx rq) (w\<lparr> w_db := db1, w_catalog := cat' \<rparr>) ?st roles ?fp
      (r_origin r) (rq_ip rq) (rq_ua rq) = (w\<lparr> w_db := db2, w_catalog := cat' \<rparr>, Inr pair)"
    using draws(3) pair by (simp add: issueRotatedPair_def Let_def create2)
  then have "\<exists>w' res. refresh_rotate dp s env rq (w\<lparr> w_db := db1 \<rparr>) ?st ?fp (r_origin r) = (w', Inr res) \<and> rr_refreshToken res = tok"
    using tok by (simp add: refresh_rotate_def acct roles Let_def)
  moreover have "rt_MarkUsed (e_mark env) (w_db w) (r_id r) = (db1, Inr True)"
    using mark unfolding db1_def by (metis prod.collapse)
  ultimately show ?thesis
    using assms(3,4) by (simp add: Refresh_def Let_def refresh_checks_pass [OF assms(12,10,8)] found_lookup [OF assms(1)])
qed

theorem legitimate_refresh_succeeds_witness:
  "\<exists>w' res. Refresh sample_deps sample_auth sample_env sample_rq sample_world = (w', Inr res) \<and>
     rr_refreshToken res = ''t''"
proof (rule legitimate_refresh_succeeds [where jti = "''j''" and fam = "Some ''f''" and rid = "''r''"
      and r = "hd (rd_rows sample_db)" and user = sample_user])
  show "store_wf (w_db sample_world)" using sample_wf by (simp add: sample_world_def)
  show "checks_pass sample_deps sample_auth sample_env sample_rq sample_world (token_of_row (hd (rd_rows sample_db)))
      (r_origin (hd (rd_rows sample_db)))"
    unfolding checks_pass_def sample_fingerprint
    by (simp add: sample_env_def sample_auth_def sample_rq_def sample_world_def rt_FamilyOrigin_def
        sample_simps token_sample_simps deref_def Thumbprint_def)
qed (simp_all add: found_def world_simps sample_simps account_refusal_def user_locked_def sample_sign_def
    sample_draws_def sample_service_def SetInactivityTimeout_def SetMaxSessionLifetime_def NewTokenService_def)

end
