(* ===== verification/Session_Interleaving.thy ===== *)
theory Session_Interleaving
  imports Session
begin

text \<open>
  Concurrent refreshes. A request is a thread whose steps are the database statements \<open>Refresh\<close> of
  \<open>internal/service/auth.go\<close> issues, one statement per step; any number of threads interleave with
  each other and with statements of the rest of the service. The first half shows that a thread run
  alone does what \<open>Session.Refresh\<close> does to the table and answers what it answers; the second half
  proves by rule induction what no schedule can break.
\<close>

section \<open>Threads\<close>

datatype phase =
    PLookup
  | PCheck RefreshToken
  | PMark RefreshToken string time
  | PUser RefreshToken string time
  | PCreate RefreshToken RefreshToken string
  | PRevoke string auth_error
  | PDone "auth_error + RefreshToken \<times> string"

text \<open>The checks without their effects: an error, and whether the family is to be revoked with it.\<close>

definition session_origin :: "'k AuthService \<Rightarrow> env \<Rightarrow> refresh_db \<Rightarrow> RefreshToken \<Rightarrow> time" where
  "session_origin s env db st =
     (if \<not> as_datesFamilies s then 0
      else case rt_FamilyOrigin (e_origin env) db (t_familyID st) of Inl _ \<Rightarrow> 0 | Inr t \<Rightarrow> t)"

definition refresh_decide ::
  "'k deps \<Rightarrow> 'k AuthService \<Rightarrow> env \<Rightarrow> refresh_req \<Rightarrow> refresh_db \<Rightarrow> RefreshToken \<Rightarrow>
     (auth_error \<times> bool) + (string \<times> time)" where
  "refresh_decide dp s env rq db st =
     (let maxLifetime = ts_maxSessionLifetime (as_tokenSvc s);
          idle = ts_inactivityTimeout (as_tokenSvc s);
          fp = request_fingerprint dp rq;
          origin = session_origin s env db st
      in if t_expiresAt st < k_expiry env then Inl (ErrTokenExpired, False)
         else if 0 < maxLifetime \<and> IsZero origin then Inl (ErrSessionAgeUnknown, False)
         else if 0 < maxLifetime \<and> \<not> k_lifetime env < origin + maxLifetime then Inl (ErrSessionExpired, True)
         else if 0 < idle \<and> IsZero (t_createdAt st) then Inl (ErrSessionAgeUnknown, False)
         else if 0 < idle \<and> \<not> k_idle env < t_createdAt st + idle then Inl (ErrSessionIdle, True)
         else if t_fingerprintHash st \<noteq> [] \<and> t_fingerprintHash st \<noteq> fp then Inl (ErrTokenInvalid, True)
         else if t_dpopJKT st \<noteq> [] \<and> t_dpopJKT st \<noteq> Thumbprint (rq_ctx rq) then Inl (ErrTokenInvalid, False)
         else Inr (fp, origin))"

fun rstep ::
  "'k deps \<Rightarrow> 'k AuthService \<Rightarrow> RoleCatalog option \<Rightarrow> env \<Rightarrow> refresh_req \<Rightarrow> phase \<Rightarrow> refresh_db \<Rightarrow>
     phase \<times> refresh_db" where
  "rstep dp s cat env rq PLookup db =
     (case rt_GetByTokenHash (e_lookup env) db (dp_sha dp (rq_token rq)) of
        Inl e \<Rightarrow> (PDone (Inl (ErrStore e)), db)
      | Inr None \<Rightarrow> (PDone (Inl ErrTokenInvalid), db)
      | Inr (Some st) \<Rightarrow>
          if t_revoked st then (PDone (Inl ErrTokenInvalid), db)
          else if t_used st then (PRevoke (t_familyID st) ErrReplayDetected, db)
          else (PCheck st, db))"
| "rstep dp s cat env rq (PCheck st) db =
     (case refresh_decide dp s env rq db st of
        Inl (e, revoke) \<Rightarrow> (if revoke then PRevoke (t_familyID st) e else PDone (Inl e), db)
      | Inr (fp, origin) \<Rightarrow> (PMark st fp origin, db))"
| "rstep dp s cat env rq (PMark st fp origin) db =
     (case rt_MarkUsed (e_mark env) db (t_id st) of
        (db', Inl e) \<Rightarrow> (PDone (Inl (ErrStore e)), db')
      | (db', Inr updated) \<Rightarrow>
          (if updated then PUser st fp origin else PRevoke (t_familyID st) ErrReplayDetected, db'))"
| "rstep dp s cat env rq (PUser st fp origin) db =
     (let user = (if e_user env then map_of (rd_users db) (t_userID st) else None)
      in case (account_refusal env user, user) of
           (Some e, _) \<Rightarrow> (PRevoke (t_familyID st) e, db)
         | (None, None) \<Rightarrow> (PDone (Inl ErrTokenInvalid), db)
         | (None, Some x) \<Rightarrow>
             (case IssueRotatedPair (dp_sign dp) (as_tokenSvc s) (e_draws env) (k_issue env)
                     (WithThumbprint (rq_ctx rq) (t_dpopJKT st)) (t_userID st)
                     (snd (effectiveRoles (dp_uni dp) cat (k_roles env) (e_listed env) (u_roles x)))
                     [''read'', ''write''] (t_clientID st) fp (t_familyID st) origin of
                Inl e \<Rightarrow> (PDone (Inl (ErrIssue e)), db)
              | Inr pair \<Rightarrow>
                  (case d_row (e_draws env) of
                     None \<Rightarrow> (PDone (Inl (ErrIssue ErrRandom)), db)
                   | Some i \<Rightarrow> (PCreate st (successor dp env st fp i pair) (p_refreshToken pair), db))))"
| "rstep dp s cat env rq (PCreate st t tok) db =
     (case rt_Create (e_create env) db t of
        (db', Inr _) \<Rightarrow> (PDone (Inr (st, tok)), db')
      | (db', Inl e) \<Rightarrow>
          (if e = ErrFamilyRevoked then PRevoke (t_familyID st) ErrReplayDetected else PDone (Inl (ErrStore e)), db'))"
| "rstep dp s cat env rq (PRevoke f e) db = (PDone (Inl e), fst (rt_RevokeFamily (e_revoke env) db f))"
| "rstep dp s cat env rq (PDone x) db = (PDone x, db)"

text \<open>A thread run alone: six steps reach \<open>PDone\<close> from the start.\<close>

fun rrun ::
  "nat \<Rightarrow> 'k deps \<Rightarrow> 'k AuthService \<Rightarrow> RoleCatalog option \<Rightarrow> env \<Rightarrow> refresh_req \<Rightarrow> phase \<Rightarrow> refresh_db \<Rightarrow>
     phase \<times> refresh_db" where
  "rrun 0 dp s cat env rq p db = (p, db)"
| "rrun (Suc n) dp s cat env rq p db =
     (case rstep dp s cat env rq p db of (p', db') \<Rightarrow> rrun n dp s cat env rq p' db')"

section \<open>A thread alone is Refresh\<close>

lemma rrun_done [simp]: "rrun n dp s cat env rq (PDone x) db = (PDone x, db)"
  by (induction n) simp_all

lemma rrun_revoke [simp]:
  "0 < n \<Longrightarrow> rrun n dp s cat env rq (PRevoke f e) db = (PDone (Inl e), fst (rt_RevokeFamily (e_revoke env) db f))"
  by (cases n) simp_all

lemma revokeFamily_db [simp]: "w_db (fst (revokeFamily env w f)) = fst (rt_RevokeFamily (e_revoke env) (w_db w) f)"
  by (simp add: revokeFamily_def split: prod.splits)

lemma lifetime_unknown:
  assumes "0 < ts_maxSessionLifetime (as_tokenSvc s)" "IsZero (session_origin s env (w_db w) st)"
  shows "\<exists>w1. enforceSessionLifetime s env w st ip ua = (w1, Inl ErrSessionAgeUnknown) \<and> w_db w1 = w_db w"
  using assms
  by (cases "rt_FamilyOrigin (e_origin env) (w_db w) (t_familyID st)"; cases "as_datesFamilies s")
    (simp_all add: enforceSessionLifetime_def session_origin_def Let_def)

lemma lifetime_over:
  assumes "0 < ts_maxSessionLifetime (as_tokenSvc s)" "\<not> IsZero (session_origin s env (w_db w) st)"
    and "\<not> k_lifetime env < session_origin s env (w_db w) st + ts_maxSessionLifetime (as_tokenSvc s)"
  shows "\<exists>w1. enforceSessionLifetime s env w st ip ua = (w1, Inl ErrSessionExpired) \<and>
    w_db w1 = fst (rt_RevokeFamily (e_revoke env) (w_db w) (t_familyID st))"
  using assms
  by (cases "rt_FamilyOrigin (e_origin env) (w_db w) (t_familyID st)"; cases "as_datesFamilies s")
    (simp_all add: enforceSessionLifetime_def session_origin_def Let_def)

lemma lifetime_inside:
  assumes "0 < ts_maxSessionLifetime (as_tokenSvc s) \<Longrightarrow> \<not> IsZero (session_origin s env (w_db w) st) \<and>
      k_lifetime env < session_origin s env (w_db w) st + ts_maxSessionLifetime (as_tokenSvc s)"
  shows "enforceSessionLifetime s env w st ip ua = (w, Inr (session_origin s env (w_db w) st))"
  using assms
  by (cases "rt_FamilyOrigin (e_origin env) (w_db w) (t_familyID st)"; cases "as_datesFamilies s";
      cases "0 < ts_maxSessionLifetime (as_tokenSvc s)")
    (simp_all add: enforceSessionLifetime_def session_origin_def Let_def)

text \<open>What the checks decide is what they do, with the revocation as a step of its own.\<close>

definition decided ::
  "env \<Rightarrow> world \<Rightarrow> RefreshToken \<Rightarrow> (auth_error \<times> bool) + (string \<times> time) \<Rightarrow>
     world \<times> (auth_error + string \<times> time) \<Rightarrow> bool" where
  "decided env w st d x =
     (case d of
        Inr fo \<Rightarrow> x = (w, Inr fo)
      | Inl (e, revoke) \<Rightarrow> snd x = Inl e \<and>
          w_db (fst x) = (if revoke then fst (rt_RevokeFamily (e_revoke env) (w_db w) (t_familyID st)) else w_db w))"

lemma refresh_checks_decide:
  "decided env w st (refresh_decide dp s env rq (w_db w) st) (refresh_checks dp s env rq w st)"
proof -
  let ?max = "ts_maxSessionLifetime (as_tokenSvc s)" and ?o = "session_origin s env (w_db w) st"
  let ?L = "enforceSessionLifetime s env w st (rq_ip rq) (rq_ua rq)"
  consider (expired) "t_expiresAt st < k_expiry env"
    | (unknown) "\<not> t_expiresAt st < k_expiry env" "0 < ?max" "IsZero ?o"
    | (over) "\<not> t_expiresAt st < k_expiry env" "0 < ?max" "\<not> IsZero ?o" "\<not> k_lifetime env < ?o + ?max"
    | (inside) "\<not> t_expiresAt st < k_expiry env" "0 < ?max \<Longrightarrow> \<not> IsZero ?o \<and> k_lifetime env < ?o + ?max"
    by blast
  then show ?thesis
  proof cases
    case expired
    then show ?thesis by (simp add: decided_def refresh_decide_def refresh_checks_def)
  next
    case unknown
    then obtain w1 where "?L = (w1, Inl ErrSessionAgeUnknown)" "w_db w1 = w_db w" using lifetime_unknown by blast
    with unknown show ?thesis by (simp add: decided_def refresh_decide_def refresh_checks_def)
  next
    case over
    then obtain w1 where "?L = (w1, Inl ErrSessionExpired)"
      "w_db w1 = fst (rt_RevokeFamily (e_revoke env) (w_db w) (t_familyID st))" using lifetime_over by blast
    with over show ?thesis by (simp add: decided_def refresh_decide_def refresh_checks_def)
  next
    case inside
    from lifetime_inside [of s env w st, OF inside(2)] have L: "?L = (w, Inr ?o)" by blast
    have nb: "\<not> (0 < ?max \<and> IsZero ?o)" "\<not> (0 < ?max \<and> \<not> k_lifetime env < ?o + ?max)"
      using inside(2) by blast+
    show ?thesis
      unfolding decided_def refresh_decide_def refresh_checks_def L Let_def prod.case sum.case if_not_P [OF inside(1)]
        if_not_P [OF nb(1)] if_not_P [OF nb(2)] request_fingerprint_def [symmetric]
      by (simp add: enforceSessionInactivity_def enforceDPoPBinding_def Let_def)
  qed
qed

definition answer_of :: "auth_error + RefreshResult \<Rightarrow> auth_error + string" where
  "answer_of out = map_sum id rr_refreshToken out"

definition thread_answer :: "phase \<Rightarrow> (auth_error + string) option" where
  "thread_answer p = (case p of PDone x \<Rightarrow> Some (map_sum id snd x) | _ \<Rightarrow> None)"

definition agrees :: "phase \<times> refresh_db \<Rightarrow> world \<times> (auth_error + RefreshResult) \<Rightarrow> bool" where
  "agrees c x \<longleftrightarrow> thread_answer (fst c) = Some (answer_of (snd x)) \<and> snd c = w_db (fst x)"

lemma agrees_simps [simp]:
  "agrees (PDone (Inl e), db) (w, Inl e') \<longleftrightarrow> e = e' \<and> db = w_db w"
  "agrees (PDone (Inr (st, tok)), db) (w, Inr res) \<longleftrightarrow> tok = rr_refreshToken res \<and> db = w_db w"
  by (simp_all add: agrees_def thread_answer_def answer_of_def)

lemma rotate_agrees:
  "agrees (rrun 3 dp s (w_catalog w) env rq (PUser st fp origin) (w_db w))
     (refresh_rotate dp s env rq w st fp origin)"
proof -
  let ?user = "getUser env w (t_userID st)"
  have three: "rrun 3 dp s c env rq p db = rrun (Suc (Suc (Suc 0))) dp s c env rq p db" for c p db
    by (simp add: numeral_3_eq_3)
  show ?thesis
  proof (cases "account_refusal env ?user")
    case (Some e)
    then show ?thesis
      by (simp add: three refresh_rotate_def accountStillHoldsSessions_def getUser_def Let_def)
  next
    case None
    then obtain x where x: "?user = Some x" by (cases ?user) (simp_all add: account_refusal_def)
    obtain cat' roles where roles: "effectiveRoles (dp_uni dp) (w_catalog w) (k_roles env) (e_listed env) (u_roles x) = (cat', roles)"
      by (metis surj_pair)
    let ?I = "IssueRotatedPair (dp_sign dp) (as_tokenSvc s) (e_draws env) (k_issue env)
       (WithThumbprint (rq_ctx rq) (t_dpopJKT st)) (t_userID st) roles [''read'', ''write'']
       (t_clientID st) fp (t_familyID st) origin"
    have acct: "accountStillHoldsSessions env w st = (w, Inr x)"
      using None x by (simp add: accountStillHoldsSessions_def)
    note user = None [unfolded x] x [unfolded getUser_def]
    show ?thesis
    proof (cases ?I)
      case (Inl e)
      then show ?thesis
        by (simp add: three refresh_rotate_def acct roles user issueRotatedPair_def Let_def)
    next
      case I: (Inr pair)
      show ?thesis
      proof (cases "d_row (e_draws env)")
        case None
        then show ?thesis
          by (simp add: three refresh_rotate_def acct roles user issueRotatedPair_def I Let_def)
      next
        case (Some i)
        obtain db' c where C: "rt_Create (e_create env) (w_db w) (successor dp env st fp i pair) = (db', c)"
          by (metis surj_pair)
        show ?thesis
          by (cases c)
            (simp_all add: three refresh_rotate_def acct roles user issueRotatedPair_def I Some C Let_def)
      qed
    qed
  qed
qed

lemma containRefreshReuse_db [simp]:
  "w_db (containRefreshReuse s env w st ip ua reason) =
     fst (rt_RevokeFamily (e_revoke env) (w_db w) (t_familyID st))"
  by (simp add: containRefreshReuse_def revokeFamily_def Let_def split: prod.splits)


section \<open>Interleavings\<close>

record thread =
  th_env :: env
  th_rq :: refresh_req
  th_phase :: phase

type_synonym config = "thread list \<times> refresh_db"

text \<open>One statement of one thread, or one statement of the rest of the service that \<open>ok\<close> allows.\<close>

inductive cstep ::
  "'k deps \<Rightarrow> 'k AuthService \<Rightarrow> RoleCatalog option \<Rightarrow> (store_op \<Rightarrow> bool) \<Rightarrow> config \<Rightarrow> config \<Rightarrow> bool"
  for dp s cat ok where
  request: "i < length ths \<Longrightarrow>
     rstep dp s cat (th_env (ths ! i)) (th_rq (ths ! i)) (th_phase (ths ! i)) db = (p, db') \<Longrightarrow>
     cstep dp s cat ok (ths, db) (ths[i := (ths ! i)\<lparr> th_phase := p \<rparr>], db')"
| environment: "ok e \<Longrightarrow> cstep dp s cat ok (ths, db) (ths, store_exec db e)"

inductive_cases cstepE: "cstep dp s cat ok (ths, db) c"

abbreviation csteps where
  "csteps dp s cat ok \<equiv> (cstep dp s cat ok)\<^sup>*\<^sup>*"

definition at_start :: "thread list \<Rightarrow> bool" where
  "at_start ths \<longleftrightarrow> list_all (\<lambda>th. th_phase th = PLookup) ths"

text \<open>Every step of a thread is at most one store operation, and it inserts only what it announced.\<close>

lemma rstep_store:
  assumes "rstep dp s cat env rq p db = (p', db')"
  shows "db' = db \<or> (\<exists>e. db' = store_exec db e \<and> \<not> deletes_rows e \<and>
           (\<forall>t. creates e = Some t \<longrightarrow> (\<exists>st tok. p = PCreate st t tok)))"
proof (cases p)
  case (PMark st fp origin)
  with assms have "db' = store_exec db (OpMarkUsed (e_mark env) (t_id st))"
    by (auto split: prod.splits sum.splits)
  then show ?thesis by (intro disjI2 exI [of _ "OpMarkUsed (e_mark env) (t_id st)"]) simp
next
  case (PCreate st t tok)
  with assms have "db' = store_exec db (OpCreate (e_create env) t)"
    by (auto split: prod.splits sum.splits)
  with PCreate show ?thesis by (intro disjI2 exI [of _ "OpCreate (e_create env) t"]) simp
next
  case (PRevoke f e)
  with assms have "db' = store_exec db (OpRevokeFamily (e_revoke env) f)" by simp
  then show ?thesis by (intro disjI2 exI [of _ "OpRevokeFamily (e_revoke env) f"]) simp
qed (use assms in \<open>auto simp: Let_def split: prod.splits sum.splits option.splits if_splits\<close>)

section \<open>At most one winner\<close>

definition won :: "string \<Rightarrow> phase \<Rightarrow> bool" where
  "won i p \<longleftrightarrow> (case p of
       PUser st fp origin \<Rightarrow> t_id st = i
     | PCreate st t tok \<Rightarrow> t_id st = i
     | PDone (Inr (st, tok)) \<Rightarrow> t_id st = i
     | _ \<Rightarrow> False)"

lemma won_simps [simp]:
  "\<not> won i PLookup" "won i (PDone (Inr (st, tok))) \<longleftrightarrow> t_id st = i"
  by (simp_all add: won_def)

text \<open>A thread that draws other ids, and what it is about to insert.\<close>

definition draws_other :: "string \<Rightarrow> thread \<Rightarrow> bool" where
  "draws_other i th \<longleftrightarrow> d_row (e_draws (th_env th)) \<noteq> Some i"

definition announces :: "thread \<Rightarrow> bool" where
  "announces th \<longleftrightarrow> (case th_phase th of
       PCreate st t tok \<Rightarrow> d_row (e_draws (th_env th)) = Some (t_id t) \<and> t_familyID t = t_familyID st
     | _ \<Rightarrow> True)"

lemma rstep_announces:
  assumes "announces th" "rstep dp s cat (th_env th) (th_rq th) (th_phase th) db = (p, db')"
  shows "announces (th\<lparr> th_phase := p \<rparr>)"
  using assms unfolding announces_def
  by (cases "th_phase th")
    (auto simp: Let_def split: prod.splits sum.splits option.splits if_splits phase.splits)

lemma rstep_won:
  assumes "rstep dp s cat env rq p db = (p', db')" "won i p'"
  shows "won i p \<or> (snd (rt_MarkUsed (e_mark env) db i) = Inr True \<and> db' = fst (rt_MarkUsed (e_mark env) db i))"
  using assms unfolding won_def
  by (cases p) (auto simp: Let_def split: prod.splits sum.splits option.splits if_splits)

definition one_winner :: "string \<Rightarrow> config \<Rightarrow> bool" where
  "one_winner i c \<longleftrightarrow>
     list_all (\<lambda>th. draws_other i th \<and> announces th) (fst c) \<and>
     (\<forall>j k. j < length (fst c) \<and> k < length (fst c) \<and> won i (th_phase (fst c ! j)) \<and> won i (th_phase (fst c ! k)) \<longrightarrow> j = k) \<and>
     (\<forall>j. j < length (fst c) \<and> won i (th_phase (fst c ! j)) \<longrightarrow> spent i (snd c))"

lemma one_winner_request:
  assumes inv: "one_winner i (ths, db)" and j: "j < length ths"
    and st: "rstep dp s cat (th_env (ths ! j)) (th_rq (ths ! j)) (th_phase (ths ! j)) db = (p, db')"
  shows "one_winner i (ths[j := (ths ! j)\<lparr> th_phase := p \<rparr>], db')"
proof -
  let ?ths = "ths[j := (ths ! j)\<lparr> th_phase := p \<rparr>]"
  have th: "draws_other i (ths ! j)" "announces (ths ! j)"
    using inv j by (simp_all add: one_winner_def list_all_length)
  have keep: "list_all (\<lambda>th. draws_other i th \<and> announces th) ?ths"
    using inv rstep_announces [OF th(2) st] th(1)
    by (intro list_all_update) (simp_all add: one_winner_def draws_other_def)
  have sp: "spent i db'" if "spent i db"
    using rstep_store [OF st]
  proof (elim disjE exE conjE)
    fix e assume e: "db' = store_exec db e" "\<forall>t. creates e = Some t \<longrightarrow> (\<exists>st tok. th_phase (ths ! j) = PCreate st t tok)"
    then have "\<forall>t. creates e = Some t \<longrightarrow> t_id t \<noteq> i"
      using th by (auto simp: announces_def draws_other_def)
    with e(1) that show ?thesis by (simp add: spent.keeps)
  qed (use that in simp)
  have new: "won i (th_phase (ths ! j)) \<or> (\<not> spent i db \<and> spent i db')" if "won i p"
    using rstep_won [OF st that] spent_not_marked mark_used_spends by metis
  have phase: "th_phase (?ths ! k) = (if k = j then p else th_phase (ths ! k))" if "k < length ths" for k
    using that j by (simp add: nth_list_update)
  show ?thesis
    unfolding one_winner_def fst_conv snd_conv
  proof (intro conjI allI impI keep)
    fix k l assume "k < length ?ths \<and> l < length ?ths \<and> won i (th_phase (?ths ! k)) \<and> won i (th_phase (?ths ! l))"
    with phase new inv j show "k = l"
      unfolding one_winner_def fst_conv snd_conv length_list_update by metis
  next
    fix k assume "k < length ?ths \<and> won i (th_phase (?ths ! k))"
    with phase new inv j sp show "spent i db'"
      unfolding one_winner_def fst_conv snd_conv length_list_update by metis
  qed
qed

lemma one_winner_step:
  assumes "one_winner i c" "cstep dp s cat (\<lambda>e. \<forall>t. creates e = Some t \<longrightarrow> t_id t \<noteq> i) c c'"
  shows "one_winner i c'"
  using assms(2,1)
proof (induction rule: cstep.induct)
  case (request j ths db p db')
  then show ?case by (intro one_winner_request)
next
  case (environment e ths db)
  then show ?case using spent.keeps [of i db e] by (simp add: one_winner_def)
qed

text \<open>C1: However requests interleave, one refresh token is rotated at most once. Any number of
  requests start against any table and interleave statement by statement with each other and with the
  rest of the service; two requests that have both rotated the same stored token are the same request.\<close>

theorem concurrent_refreshes_have_one_winner:
  assumes "csteps dp s cat (\<lambda>e. \<forall>t. creates e = Some t \<longrightarrow> t_id t \<noteq> i) (ths0, db0) (ths, db)"
    and "at_start ths0" and "list_all (draws_other i) ths0"
    and "j < length ths" and "k < length ths"
    and "th_phase (ths ! j) = PDone (Inr (st, tok))" and "th_phase (ths ! k) = PDone (Inr (st', tok'))"
    and "t_id st = i" and "t_id st' = i"
  shows "j = k"
proof -
  have "one_winner i (ths0, db0)"
    using assms(2,3) by (auto simp: one_winner_def at_start_def list_all_length announces_def)
  with assms(1) have "one_winner i (ths, db)"
    by (induction rule: rtranclp_induct) (auto intro: one_winner_step)
  with assms(4-9) show ?thesis by (simp add: one_winner_def)
qed

lemma csteps_run:
  assumes "i < length ths"
    and "rrun n dp s cat (th_env (ths ! i)) (th_rq (ths ! i)) (th_phase (ths ! i)) db = (p, db')"
  shows "csteps dp s cat ok (ths, db) (ths[i := (ths ! i)\<lparr> th_phase := p \<rparr>], db')"
  using assms
proof (induction n arbitrary: ths db)
  case 0
  then have "ths[i := (ths ! i)\<lparr> th_phase := p \<rparr>] = ths" by (metis fst_conv list_update_id rrun.simps(1) thread.surjective thread.update_convs(3) Pair_inject)
  with 0 show ?case by simp
next
  case (Suc n)
  obtain p1 db1 where st: "rstep dp s cat (th_env (ths ! i)) (th_rq (ths ! i)) (th_phase (ths ! i)) db = (p1, db1)"
    by (metis surj_pair)
  let ?ths = "ths[i := (ths ! i)\<lparr> th_phase := p1 \<rparr>]"
  have "csteps dp s cat ok (?ths, db1) (?ths[i := (?ths ! i)\<lparr> th_phase := p \<rparr>], db')"
    using Suc.prems st by (intro Suc.IH) simp_all
  moreover have "cstep dp s cat ok (ths, db) (?ths, db1)"
    by (rule cstep.request [OF Suc.prems(1) st])
  ultimately have "csteps dp s cat ok (ths, db) (?ths[i := (?ths ! i)\<lparr> th_phase := p \<rparr>], db')"
    by (rule converse_rtranclp_into_rtranclp [rotated])
  then show ?case using Suc.prems(1) by simp
qed

definition sample_thread :: thread where
  "sample_thread = \<lparr> th_env = sample_env, th_rq = sample_rq, th_phase = PLookup \<rparr>"

lemma sample_thread_wins:
  "\<exists>st tok db'. rrun 6 sample_deps sample_auth None sample_env sample_rq PLookup sample_db = (PDone (Inr (st, tok)), db') \<and>
     t_id st = ''1''"
  by (simp add: eval_nat_numeral refresh_decide_def session_origin_def request_fingerprint_def refresh_simps
      Let_def world_simps sample_simps token_sample_simps user_not_reserved fingerprint_bytes_def
      writeLengthPrefixed_def)

theorem concurrent_refreshes_have_one_winner_witness:
  "\<exists>p db st tok. csteps sample_deps sample_auth None (\<lambda>e. \<forall>t. creates e = Some t \<longrightarrow> t_id t \<noteq> ''1'')
     ([sample_thread, sample_thread], sample_db)
     ([sample_thread\<lparr> th_phase := PDone (Inr (st, tok)) \<rparr>, sample_thread\<lparr> th_phase := p \<rparr>], db) \<and>
     t_id st = ''1'' \<and> (\<nexists>st' tok'. p = PDone (Inr (st', tok')) \<and> t_id st' = ''1'')"
proof -
  let ?steps = "csteps sample_deps sample_auth None (\<lambda>e. \<forall>t. creates e = Some t \<longrightarrow> t_id t \<noteq> ''1'')"
  obtain st tok db1 where w: "rrun 6 sample_deps sample_auth None sample_env sample_rq PLookup sample_db =
      (PDone (Inr (st, tok)), db1)" "t_id st = ''1''"
    using sample_thread_wins by blast
  obtain p db where l: "rrun 6 sample_deps sample_auth None sample_env sample_rq PLookup db1 = (p, db)"
    by (metis surj_pair)
  let ?w = "sample_thread\<lparr> th_phase := PDone (Inr (st, tok)) \<rparr>" and ?l = "sample_thread\<lparr> th_phase := p \<rparr>"
  have "?steps ([sample_thread, sample_thread], sample_db) ([?w, sample_thread], db1)"
    using csteps_run [of 0 "[sample_thread, sample_thread]"] w(1) by (simp add: sample_thread_def)
  also have "?steps ([?w, sample_thread], db1) ([?w, ?l], db)"
    using csteps_run [of 1 "[?w, sample_thread]"] l by (simp add: sample_thread_def)
  finally have run: "?steps ([sample_thread, sample_thread], sample_db) ([?w, ?l], db)" .
  have "\<not> (p = PDone (Inr (st', tok')) \<and> t_id st' = ''1'')" for st' tok'
  proof
    assume "p = PDone (Inr (st', tok')) \<and> t_id st' = ''1''"
    with w(2) have "(0::nat) = 1"
      by (intro concurrent_refreshes_have_one_winner [OF run, where st = st and st' = st' and tok = tok and tok' = tok'])
        (simp_all add: at_start_def draws_other_def sample_thread_def sample_env_def sample_draws_def)
    then show False by simp
  qed
  with run w(2) show ?thesis by blast
qed

section \<open>Containment under interleaving\<close>

lemma cstep_announces:
  assumes "cstep dp s cat ok c c'" "list_all announces (fst c)"
  shows "list_all announces (fst c')"
  using assms
proof (induction rule: cstep.induct)
  case (request i ths db p db')
  then have "announces (ths ! i)" by (simp add: list_all_length)
  from rstep_announces [OF this request(2)] request(3) show ?case by (simp add: list_all_update)
qed simp

lemma csteps_announces:
  "csteps dp s cat ok c c' \<Longrightarrow> list_all announces (fst c) \<Longrightarrow> list_all announces (fst c')"
  by (induction rule: rtranclp_induct) (auto intro: cstep_announces)

lemma at_start_announces: "at_start ths \<Longrightarrow> list_all announces ths"
  by (simp add: at_start_def list_all_length announces_def)

lemma rstep_dead:
  assumes "rstep dp s cat env rq p db = (p', db')" "family_dead f db"
  shows "family_dead f db'"
  using rstep_store [OF assms(1)] assms(2) dead.keeps by blast

lemma rstep_dead_answer:
  assumes "rstep dp s cat (th_env th) (th_rq th) (th_phase th) db = (PDone (Inr (st, tok)), db')"
    and "family_dead f db" "announces th" "t_familyID st = f"
  shows "th_phase th = PDone (Inr (st, tok))"
proof (cases "th_phase th")
  case (PCreate st' t tok')
  then have "t_familyID t = f" "snd (rt_Create (e_create (th_env th)) db t) = Inr ()"
    using assms by (auto simp: announces_def split: prod.splits sum.splits if_splits)
  with assms(2) show ?thesis
    by (auto simp: rt_Create_ok_iff admits_def family_dead_def family_rows_empty_iff list_all_iff)
qed (use assms in \<open>auto simp: Let_def split: prod.splits sum.splits option.splits if_splits\<close>)

definition no_new_answer :: "string \<Rightarrow> thread list \<Rightarrow> config \<Rightarrow> bool" where
  "no_new_answer f ths c \<longleftrightarrow> family_dead f (snd c) \<and> list_all announces (fst c) \<and> length (fst c) = length ths \<and>
     (\<forall>j st tok. j < length ths \<and> th_phase (fst c ! j) = PDone (Inr (st, tok)) \<and> t_familyID st = f \<longrightarrow>
        th_phase (ths ! j) = PDone (Inr (st, tok)))"

lemma no_new_answer_step:
  assumes "no_new_answer f ths0 c" "cstep dp s cat (\<lambda>e. \<not> deletes_rows e) c c'"
  shows "no_new_answer f ths0 c'"
  using assms(2,1)
proof (induction rule: cstep.induct)
  case (request i ths db p db')
  then have inv: "family_dead f db" "list_all announces ths" "length ths = length ths0"
    and ans: "\<And>j st tok. j < length ths0 \<Longrightarrow> th_phase (ths ! j) = PDone (Inr (st, tok)) \<Longrightarrow>
      t_familyID st = f \<Longrightarrow> th_phase (ths0 ! j) = PDone (Inr (st, tok))"
    by (simp_all add: no_new_answer_def)
  have th: "announces (ths ! i)" using inv(2) request(1) by (simp add: list_all_length)
  have "th_phase (ths0 ! j) = PDone (Inr (st, tok))"
    if j: "j < length ths0" "t_familyID st = f"
      and ph: "th_phase (ths[i := (ths ! i)\<lparr> th_phase := p \<rparr>] ! j) = PDone (Inr (st, tok))" for j st tok
  proof (cases "j = i")
    case True
    with ph request(1) have "p = PDone (Inr (st, tok))" by simp
    with request(2) rstep_dead_answer [OF _ inv(1) th j(2)] have "th_phase (ths ! i) = PDone (Inr (st, tok))" by blast
    with ans j True show ?thesis by blast
  next
    case False
    with ans j ph show ?thesis by simp
  qed
  moreover have "list_all announces (ths[i := (ths ! i)\<lparr> th_phase := p \<rparr>])"
    using inv(2) rstep_announces [OF th request(2)] by (rule list_all_update)
  ultimately show ?case
    using rstep_dead [OF request(2) inv(1)] inv(3) by (simp add: no_new_answer_def)
next
  case (environment e ths db)
  then show ?case using dead.keeps by (simp add: no_new_answer_def)
qed

text \<open>Containment beats a rotation in flight. Once every row of a family is revoked, at whatever
  point the other requests of the family are, no interleaving (row removal aside) lets one of them
  finish with a token: whoever holds an answer for the family held it before.\<close>

theorem contained_family_issues_nothing:
  assumes "csteps dp s cat ok (ths0, db0) (ths, db)" and "at_start ths0" and "family_dead f db"
    and "csteps dp s cat (\<lambda>e. \<not> deletes_rows e) (ths, db) (ths', db')"
    and "j < length ths'" and "th_phase (ths' ! j) = PDone (Inr (st, tok))" and "t_familyID st = f"
  shows "j < length ths \<and> th_phase (ths ! j) = PDone (Inr (st, tok))"
proof -
  have "list_all announces ths"
    using csteps_announces [OF assms(1)] at_start_announces [OF assms(2)] by simp
  then have "no_new_answer f ths (ths, db)" using assms(3) by (simp add: no_new_answer_def)
  with assms(4) have "no_new_answer f ths (ths', db')"
    by (induction rule: rtranclp_induct) (auto intro: no_new_answer_step)
  with assms(5-7) show ?thesis by (simp add: no_new_answer_def)
qed

theorem contained_family_issues_nothing_witness:
  "\<exists>p db. csteps sample_deps sample_auth None (\<lambda>e. \<not> deletes_rows e)
     ([sample_thread], fst (rt_RevokeFamily (\<lambda>_. True) sample_db ''f'')) ([sample_thread\<lparr> th_phase := p \<rparr>], db) \<and>
     (\<nexists>st tok. p = PDone (Inr (st, tok)) \<and> t_familyID st = ''f'')"
proof -
  let ?db = "fst (rt_RevokeFamily (\<lambda>_. True) sample_db ''f'')"
  obtain p db where r: "rrun 6 sample_deps sample_auth None sample_env sample_rq PLookup ?db = (p, db)"
    by (metis surj_pair)
  have run: "csteps sample_deps sample_auth None (\<lambda>e. \<not> deletes_rows e) ([sample_thread], ?db)
      ([sample_thread\<lparr> th_phase := p \<rparr>], db)"
    using csteps_run [of 0 "[sample_thread]"] r by (simp add: sample_thread_def)
  have dead: "family_dead ''f'' ?db"
    by (rule RevokeFamily_dead) (simp_all add: sample_simps)
  have "\<not> (p = PDone (Inr (st, tok)) \<and> t_familyID st = ''f'')" for st tok
    using contained_family_issues_nothing [OF rtranclp.rtrancl_refl _ dead run, of 0 st tok]
    by (auto simp: at_start_def sample_thread_def)
  with run show ?thesis by blast
qed

end
