(* ===== verification/Lockout.thy ===== *)
theory Lockout
  imports Session Memory_Cache
begin

text \<open>
  Brute-force lockout of \<open>internal/service/auth.go\<close>: the per-source and account-wide counters kept in
  the cache, the generation that namespaces them, the fallback to the durable count, the per-address
  lockout and the login throttle. The operations take the cache as a \<open>Cache\<close> record, \<open>None\<close> for a
  nil cache, so they run over every backend; the theorems rest on the contract \<open>reliable_cache\<close>,
  an extension of \<open>ttl_cache\<close> that the memory backend meets.

  The clock is read at every cache call. \<open>clk i\<close> is the \<open>i\<close>-th reading of an operation.
\<close>

section \<open>Constants and keys\<close>

definition lockoutThreshold :: int where "lockoutThreshold = 5"
definition distributedLockoutThreshold :: int where "distributedLockoutThreshold = 50"
definition ipLockoutThreshold :: int where "ipLockoutThreshold = 20"
definition lockoutDuration :: duration where "lockoutDuration = 15 * Minute"
definition lockoutGenerationTTL :: duration where "lockoutGenerationTTL = 2 * lockoutDuration"
definition loginThrottleBase :: duration where "loginThrottleBase = 100 * Millisecond"
definition loginThrottleMax :: duration where "loginThrottleMax = 2 * Second"

definition accountLockoutKey :: "string \<Rightarrow> string" where
  "accountLockoutKey userID = ''lockout:'' @ userID"

definition sourceLockoutKey :: "string \<Rightarrow> string \<Rightarrow> int \<Rightarrow> string" where
  "sourceLockoutKey userID ip generation =
     (if generation = 0 then ''lockout:'' @ userID @ ''|'' @ ip
      else ''lockout:'' @ userID @ ''|g'' @ FormatInt generation @ ''|'' @ ip)"

definition lockoutGenerationKey :: "string \<Rightarrow> string" where
  "lockoutGenerationKey userID = ''lockout_gen:'' @ userID"

definition ipLockoutKey :: "string \<Rightarrow> string" where
  "ipLockoutKey ip = ''lockout_ip:'' @ ip"

section \<open>State\<close>

text \<open>
  \<open>lw_refusedAt\<close> is \<open>lockoutCounterRefusedAt\<close>, Unix nanoseconds with 0 for never; \<open>lw_rates\<close> is
  the table \<open>auth.rate_limits\<close>; \<open>lw_mail\<close> collects the lock notices handed to the mailer.
\<close>

record 'c lockout_world =
  lw_cache :: 'c
  lw_refusedAt :: int
  lw_users :: "(string, User) gomap"
  lw_rates :: "(string \<times> time, int) gomap"
  lw_failed :: nat
  lw_audit :: "audit_entry list"
  lw_mail :: "(string \<times> string) list"

text \<open>The wiring of the service, and whether its two database statements are answered.\<close>

record 'c lockout_svc =
  lk_cache :: "'c Cache option"
  lk_rateLimits :: bool
  lk_metrics :: bool
  lk_auditLog :: bool
  lk_emailSender :: bool
  lk_pepper :: string
  lk_sha :: "string \<Rightarrow> string"
  lk_usersUp :: bool
  lk_ratesUp :: bool

type_synonym clock = "nat \<Rightarrow> time"

definition UnixNano :: "time \<Rightarrow> int" where
  "UnixNano t = t - unix_epoch_seconds * Second"

definition time_Unix_0 :: "int \<Rightarrow> time" where
  "time_Unix_0 n = n + unix_epoch_seconds * Second"

section \<open>Reading the counters\<close>

definition cachedCount :: "'c Cache \<Rightarrow> 'c \<Rightarrow> time \<Rightarrow> string \<Rightarrow> int option" where
  "cachedCount C s now key =
     (case Get C s now key of
        Inl ErrNotFound \<Rightarrow> Some 0
      | Inl _ \<Rightarrow> None
      | Inr v \<Rightarrow> if v = [] then Some 0 else Some (Sscanf_d v))"

definition lockoutGeneration :: "'c Cache \<Rightarrow> 'c \<Rightarrow> time \<Rightarrow> string \<Rightarrow> int option" where
  "lockoutGeneration C s now userID = cachedCount C s now (lockoutGenerationKey userID)"

definition lockedByStoredCount :: "'c lockout_svc \<Rightarrow> 'c lockout_world \<Rightarrow> string \<Rightarrow> bool" where
  "lockedByStoredCount k w userID =
     (if \<not> lk_usersUp k then False
      else case map_of (lw_users w) userID of
             None \<Rightarrow> False
           | Some user \<Rightarrow> lockoutThreshold \<le> u_failedLoginCount user)"

definition noteLockoutCounterRefused :: "time \<Rightarrow> 'c lockout_world \<Rightarrow> 'c lockout_world" where
  "noteLockoutCounterRefused now w = w\<lparr> lw_refusedAt := UnixNano now \<rparr>"

definition lockoutCountersUnwritable :: "time \<Rightarrow> 'c lockout_world \<Rightarrow> bool" where
  "lockoutCountersUnwritable now w \<longleftrightarrow>
     lw_refusedAt w \<noteq> 0 \<and> now - time_Unix_0 (lw_refusedAt w) < lockoutDuration"

definition isAccountLocked ::
  "'c lockout_svc \<Rightarrow> clock \<Rightarrow> 'c lockout_world \<Rightarrow> string \<Rightarrow> string \<Rightarrow> bool" where
  "isAccountLocked k clk w userID ip =
     (case lk_cache k of
        None \<Rightarrow> lockedByStoredCount k w userID
      | Some C \<Rightarrow>
          let unwritable = lockoutCountersUnwritable (clk 0) w in
          (case lockoutGeneration C (lw_cache w) (clk 1) userID of
             None \<Rightarrow> lockedByStoredCount k w userID
           | Some generation \<Rightarrow>
               (case cachedCount C (lw_cache w) (clk 2) (sourceLockoutKey userID ip generation) of
                  None \<Rightarrow> lockedByStoredCount k w userID
                | Some perSource \<Rightarrow>
                    if perSource = 0 \<and> unwritable then lockedByStoredCount k w userID
                    else if lockoutThreshold \<le> perSource then True
                    else (case cachedCount C (lw_cache w) (clk 3) (accountLockoutKey userID) of
                            None \<Rightarrow> lockedByStoredCount k w userID
                          | Some account \<Rightarrow>
                              if account = 0 \<and> unwritable then lockedByStoredCount k w userID
                              else distributedLockoutThreshold \<le> account))))"

section \<open>Writing the counters\<close>

text \<open>One \<open>Increment\<close> whose error is latched.\<close>

definition bump ::
  "'c Cache \<Rightarrow> time \<Rightarrow> time \<Rightarrow> string \<Rightarrow> duration \<Rightarrow> 'c lockout_world \<Rightarrow> 'c lockout_world" where
  "bump C now later key ttl w =
     (case Increment C (lw_cache w) now key ttl of
        (c', Inr _) \<Rightarrow> w\<lparr> lw_cache := c' \<rparr>
      | (c', Inl _) \<Rightarrow> noteLockoutCounterRefused later (w\<lparr> lw_cache := c' \<rparr>))"

definition recordFailedAttempt ::
  "'c lockout_svc \<Rightarrow> clock \<Rightarrow> 'c lockout_world \<Rightarrow> string \<Rightarrow> string \<Rightarrow> 'c lockout_world" where
  "recordFailedAttempt k clk w userID ip =
     (case lk_cache k of
        None \<Rightarrow> w
      | Some C \<Rightarrow>
          let w1 = (case lockoutGeneration C (lw_cache w) (clk 0) userID of
                      None \<Rightarrow> noteLockoutCounterRefused (clk 1) w
                    | Some generation \<Rightarrow>
                        bump C (clk 1) (clk 2) (sourceLockoutKey userID ip generation) lockoutDuration w)
          in bump C (clk 3) (clk 4) (accountLockoutKey userID) lockoutDuration w1)"

definition clearLockout ::
  "'c lockout_svc \<Rightarrow> clock \<Rightarrow> 'c lockout_world \<Rightarrow> string \<Rightarrow> string \<Rightarrow> 'c lockout_world" where
  "clearLockout k clk w userID ip =
     (case lk_cache k of
        None \<Rightarrow> w
      | Some C \<Rightarrow>
          (case lockoutGeneration C (lw_cache w) (clk 0) userID of
             None \<Rightarrow> w
           | Some generation \<Rightarrow>
               w\<lparr> lw_cache := fst (Delete C (lw_cache w) (clk 1) (sourceLockoutKey userID ip generation)) \<rparr>))"

definition ClearAccountLockout ::
  "'c Cache option \<Rightarrow> clock \<Rightarrow> 'c \<Rightarrow> string \<Rightarrow> 'c \<times> (cache_error + unit)" where
  "ClearAccountLockout c clk s userID =
     (case c of
        None \<Rightarrow> (s, Inr ())
      | Some C \<Rightarrow>
          (case Delete C s (clk 0) (accountLockoutKey userID) of
             (s1, Inl e) \<Rightarrow> (s1, Inl e)
           | (s1, Inr _) \<Rightarrow>
               (case Increment C s1 (clk 1) (lockoutGenerationKey userID) lockoutGenerationTTL of
                  (s2, Inl e) \<Rightarrow> (s2, Inl e)
                | (s2, Inr _) \<Rightarrow> (s2, Inr ()))))"

section \<open>The login throttle\<close>

definition identityThrottleKey :: "'c lockout_svc \<Rightarrow> string \<Rightarrow> string" where
  "identityThrottleKey k email =
     ''auththrottle:'' @ lk_sha k (lk_pepper k @ ''|auththrottle|'' @ email)"

text \<open>\<open>n\<close> is the number of iterations left.\<close>

fun throttle_loop :: "duration \<Rightarrow> nat \<Rightarrow> duration" where
  "throttle_loop d 0 = d"
| "throttle_loop d (Suc n) =
     (let d' = d * 2 in if loginThrottleMax \<le> d' then loginThrottleMax else throttle_loop d' n)"

definition loginThrottleDelay :: "int \<Rightarrow> duration" where
  "loginThrottleDelay failures =
     (if failures \<le> lockoutThreshold then 0
      else throttle_loop loginThrottleBase (nat (failures - (lockoutThreshold + 1))))"

text \<open>The time \<open>throttleLogin\<close> waits, unless the caller hangs up first.\<close>

definition throttleLogin :: "'c lockout_svc \<Rightarrow> time \<Rightarrow> 'c lockout_world \<Rightarrow> string \<Rightarrow> duration" where
  "throttleLogin k now w email =
     (case lk_cache k of
        None \<Rightarrow> 0
      | Some C \<Rightarrow>
          (case cachedCount C (lw_cache w) now (identityThrottleKey k email) of
             None \<Rightarrow> 0
           | Some n \<Rightarrow> let d = loginThrottleDelay n in if d \<le> 0 then 0 else d))"

definition recordIdentityFailure ::
  "'c lockout_svc \<Rightarrow> time \<Rightarrow> 'c lockout_world \<Rightarrow> string \<Rightarrow> 'c lockout_world" where
  "recordIdentityFailure k now w email =
     (case lk_cache k of
        None \<Rightarrow> w
      | Some C \<Rightarrow>
          w\<lparr> lw_cache := fst (Increment C (lw_cache w) now (identityThrottleKey k email) lockoutDuration) \<rparr>)"

definition clearIdentityFailures ::
  "'c lockout_svc \<Rightarrow> time \<Rightarrow> 'c lockout_world \<Rightarrow> string \<Rightarrow> 'c lockout_world" where
  "clearIdentityFailures k now w email =
     (case lk_cache k of
        None \<Rightarrow> w
      | Some C \<Rightarrow>
          w\<lparr> lw_cache := fst (Delete C (lw_cache w) now (identityThrottleKey k email)) \<rparr>)"

section \<open>The lockout of an address\<close>

text \<open>\<open>t.Truncate(d)\<close> rounds down to a multiple of \<open>d\<close> since Go's zero instant.\<close>

definition Truncate :: "time \<Rightarrow> duration \<Rightarrow> time" where
  "Truncate t d = (if d \<le> 0 then t else t - t mod d)"

definition rl_Get :: "bool \<Rightarrow> (string \<times> time, int) gomap \<Rightarrow> string \<Rightarrow> time \<Rightarrow> repo_error + int" where
  "rl_Get up rows key window =
     (if \<not> up then Inl ErrDB
      else case map_of rows (key, window) of None \<Rightarrow> Inr 0 | Some n \<Rightarrow> Inr n)"

definition rl_Increment ::
  "bool \<Rightarrow> (string \<times> time, int) gomap \<Rightarrow> string \<Rightarrow> time \<Rightarrow> (string \<times> time, int) gomap \<times> (repo_error + int)" where
  "rl_Increment up rows key window =
     (if \<not> up then (rows, Inl ErrDB)
      else let n = (case map_of rows (key, window) of None \<Rightarrow> 1 | Some n \<Rightarrow> n + 1)
           in (AList.update (key, window) n rows, Inr n))"

definition rl_DeleteExpired ::
  "bool \<Rightarrow> (string \<times> time, int) gomap \<Rightarrow> time \<Rightarrow> (string \<times> time, int) gomap \<times> (repo_error + unit)" where
  "rl_DeleteExpired up rows before =
     (if \<not> up then (rows, Inl ErrDB) else (filter (\<lambda>((k, window), n). \<not> window < before) rows, Inr ()))"

definition isIPLocked :: "'c lockout_svc \<Rightarrow> time \<Rightarrow> 'c lockout_world \<Rightarrow> string \<Rightarrow> bool" where
  "isIPLocked k now w ip =
     (if ip = [] then False
      else case lk_cache k of
        None \<Rightarrow>
          if lk_rateLimits k then
            (case rl_Get (lk_ratesUp k) (lw_rates w) (ipLockoutKey ip) (Truncate now lockoutDuration) of
               Inl _ \<Rightarrow> False
             | Inr count \<Rightarrow> ipLockoutThreshold \<le> count)
          else False
      | Some C \<Rightarrow>
          (case Get C (lw_cache w) now (ipLockoutKey ip) of
             Inl _ \<Rightarrow> False
           | Inr v \<Rightarrow> if v = [] then False else ipLockoutThreshold \<le> Sscanf_d v))"

definition recordFailedIP :: "'c lockout_svc \<Rightarrow> time \<Rightarrow> 'c lockout_world \<Rightarrow> string \<Rightarrow> 'c lockout_world" where
  "recordFailedIP k now w ip =
     (if ip = [] then w
      else case lk_cache k of
        None \<Rightarrow>
          if lk_rateLimits k then
            w\<lparr> lw_rates := fst (rl_Increment (lk_ratesUp k) (lw_rates w) (ipLockoutKey ip)
                                   (Truncate now lockoutDuration)) \<rparr>
          else w
      | Some C \<Rightarrow>
          w\<lparr> lw_cache := fst (Increment C (lw_cache w) now (ipLockoutKey ip) lockoutDuration) \<rparr>)"

section \<open>Failed logins\<close>

definition IncrementFailedLogin :: "bool \<Rightarrow> (string, User) gomap \<Rightarrow> string \<Rightarrow> (string, User) gomap" where
  "IncrementFailedLogin up users userID =
     (if \<not> up then users
      else case map_of users userID of
             None \<Rightarrow> users
           | Some x \<Rightarrow> AList.update userID (x\<lparr> u_failedLoginCount := u_failedLoginCount x + 1 \<rparr>) users)"

definition ResetFailedLogin :: "bool \<Rightarrow> (string, User) gomap \<Rightarrow> string \<Rightarrow> (string, User) gomap" where
  "ResetFailedLogin up users userID =
     (if \<not> up then users
      else case map_of users userID of
             None \<Rightarrow> users
           | Some x \<Rightarrow> AList.update userID (x\<lparr> u_failedLoginCount := 0 \<rparr>) users)"

definition lw_Log ::
  "'c lockout_world \<Rightarrow> audit_event \<Rightarrow> string \<Rightarrow> string \<Rightarrow> string \<Rightarrow> (string \<times> meta) list \<Rightarrow> 'c lockout_world" where
  "lw_Log w ev user ip ua m =
     w\<lparr> lw_audit := lw_audit w @
         [\<lparr> ae_event = ev, ae_user = user, ae_client = [], ae_ip = ip, ae_ua = ua,
            ae_fingerprint = [], ae_device = [], ae_meta = m \<rparr>] \<rparr>"

definition recordLoginFailure ::
  "'c lockout_svc \<Rightarrow> clock \<Rightarrow> clock \<Rightarrow> 'c lockout_world \<Rightarrow> User \<Rightarrow> string \<Rightarrow> string \<Rightarrow> string \<Rightarrow> 'c lockout_world" where
  "recordLoginFailure k clk clk' w user ip ua reason =
     (let w1 = w\<lparr> lw_users := IncrementFailedLogin (lk_usersUp k) (lw_users w) (u_id user) \<rparr>;
          w2 = recordFailedAttempt k clk w1 (u_id user) ip;
          w3 = recordFailedIP k (clk 5) w2 ip;
          w4 = (if lk_metrics k then w3\<lparr> lw_failed := lw_failed w3 + 1 \<rparr> else w3);
          w5 = lw_Log w4 LoginFailure (u_id user) ip ua [(''reason'', MStr reason)]
      in if isAccountLocked k clk' w5 (u_id user) ip \<and> lk_emailSender k then
           (case lk_cache k of
              None \<Rightarrow> w5
            | Some C \<Rightarrow>
                (case SetIfNotExists C (lw_cache w5) (clk' 4) (''lock_notified:'' @ u_id user) ''1'' lockoutDuration of
                   (c', Inr True) \<Rightarrow> w5\<lparr> lw_cache := c', lw_mail := lw_mail w5 @ [(u_email user, ip)] \<rparr>
                 | (c', _) \<Rightarrow> w5\<lparr> lw_cache := c' \<rparr>))
         else w5)"

text \<open>The source address of the two MFA entry points is the one the request context carries.\<close>

definition MFAVerifyLocked :: "'c lockout_svc \<Rightarrow> clock \<Rightarrow> 'c lockout_world \<Rightarrow> string \<Rightarrow> string \<Rightarrow> bool" where
  "MFAVerifyLocked k clk w ctxIP userID = isAccountLocked k clk w userID ctxIP"

definition RecordMFAFailure ::
  "'c lockout_svc \<Rightarrow> clock \<Rightarrow> 'c lockout_world \<Rightarrow> string \<Rightarrow> string \<Rightarrow> string \<Rightarrow> 'c lockout_world" where
  "RecordMFAFailure k clk w userID ip ua =
     (let w1 = recordFailedAttempt k clk w userID ip
      in if lk_auditLog k then lw_Log w1 LoginFailure userID ip ua [(''reason'', MStr ''mfa_failed'')] else w1)"

section \<open>Keys never collide\<close>

text \<open>User ids are UUIDs and addresses are textual IPs: neither contains the separator.\<close>

definition plain :: "string \<Rightarrow> bool" where
  "plain s \<longleftrightarrow> CHR ''|'' \<notin> set s"

lemma digit_not_bar: "is_digit c \<Longrightarrow> c \<noteq> CHR ''|''"
  by (auto simp: is_digit_def)

lemma FormatInt_plain [simp]: "CHR ''|'' \<notin> set (FormatInt n)"
  using digits10_digits [THEN digit_not_bar] by (auto simp: FormatInt_def)

lemma plain_prefix:
  assumes "plain u" and "plain v" and "u @ CHR ''|'' # xs = v @ CHR ''|'' # ys"
  shows "u = v \<and> xs = ys"
  using assms unfolding plain_def
proof (induction u arbitrary: v)
  case Nil
  then show ?case by (cases v) auto
next
  case (Cons a u)
  then show ?case by (cases v) auto
qed

lemma sourceLockoutKey_inject:
  assumes "plain u" and "plain v" and "plain a" and "plain b" and "in_int64 g" and "in_int64 h"
    and "sourceLockoutKey u a g = sourceLockoutKey v b h"
  shows "u = v \<and> a = b \<and> g = h"
proof -
  define tail where "tail = (\<lambda>(a :: string) (g :: int). if g = 0 then a else ''g'' @ FormatInt g @ ''|'' @ a)"
  have key: "sourceLockoutKey u a g = ''lockout:'' @ u @ CHR ''|'' # tail a g" for u a g
    by (simp add: sourceLockoutKey_def tail_def)
  from assms(7) plain_prefix [OF assms(1,2), of "tail a g" "tail b h"]
  have uv: "u = v" and tl: "tail a g = tail b h" by (auto simp: key)
  have bar: "CHR ''|'' \<in> set (tail c i) \<longleftrightarrow> i \<noteq> 0" if "plain c" for c i
    using that by (auto simp: tail_def plain_def)
  from tl bar [OF assms(3), of g] bar [OF assms(4), of h] have "g = 0 \<longleftrightarrow> h = 0" by auto
  moreover
  have "FormatInt g = FormatInt h \<and> a = b" if "g \<noteq> 0" "h \<noteq> 0"
    using tl that plain_prefix [of "FormatInt g" "FormatInt h" a b] by (auto simp: tail_def plain_def)
  ultimately show ?thesis
    using uv tl FormatInt_inject [OF assms(5,6)] by (auto simp: tail_def split: if_splits)
qed

lemma account_not_source [simp]: "plain u \<Longrightarrow> accountLockoutKey u \<noteq> sourceLockoutKey v ip g"
  by (auto simp: accountLockoutKey_def sourceLockoutKey_def plain_def)

lemma generation_not_source [simp]: "lockoutGenerationKey u \<noteq> sourceLockoutKey v ip g"
  by (simp add: lockoutGenerationKey_def sourceLockoutKey_def)

lemma generation_not_account [simp]: "lockoutGenerationKey u \<noteq> accountLockoutKey v"
  by (simp add: lockoutGenerationKey_def accountLockoutKey_def)

lemma lockout_keys_inject [simp]:
  "lockoutGenerationKey u = lockoutGenerationKey v \<longleftrightarrow> u = v"
  "accountLockoutKey u = accountLockoutKey v \<longleftrightarrow> u = v"
  by (simp_all add: lockoutGenerationKey_def accountLockoutKey_def)

lemma ip_not_lockout [simp]:
  "ipLockoutKey ip \<noteq> sourceLockoutKey v a g" "ipLockoutKey ip \<noteq> accountLockoutKey v"
  "ipLockoutKey ip \<noteq> lockoutGenerationKey v"
  by (simp_all add: ipLockoutKey_def sourceLockoutKey_def accountLockoutKey_def lockoutGenerationKey_def)

lemma throttle_not_lockout [simp]:
  "identityThrottleKey k e \<noteq> sourceLockoutKey v a g" "identityThrottleKey k e \<noteq> accountLockoutKey v"
  "identityThrottleKey k e \<noteq> lockoutGenerationKey v"
  by (simp_all add: identityThrottleKey_def sourceLockoutKey_def accountLockoutKey_def lockoutGenerationKey_def)

lemmas lockout_keys_apart [simp] =
  account_not_source [symmetric] generation_not_source [symmetric] generation_not_account [symmetric]
  ip_not_lockout [symmetric] throttle_not_lockout [symmetric]

section \<open>The contract of a backend that answers\<close>

text \<open>A backend inside the process: reads and deletions are always answered, an increment touches no
  other key and is never refused on a key that is present.\<close>

locale reliable_cache = ttl_cache C view inv
  for C :: "'s Cache" and view :: "'s \<Rightarrow> string \<Rightarrow> cache_entry" and inv :: "'s \<Rightarrow> bool" +
  assumes get_up: "inv s \<Longrightarrow> Get C s now k = Inl e \<Longrightarrow> e = ErrNotFound"
    and delete_up: "inv s \<Longrightarrow> \<exists>s'. Delete C s now k = (s', Inr ())"
    and incr_frame:
      "inv s \<Longrightarrow> Increment C s now k ttl = (s', r) \<Longrightarrow> inv s' \<and> (\<forall>k'. k' \<noteq> k \<longrightarrow> view s' k' = view s k')"
    and incr_present: "inv s \<Longrightarrow> view s k \<noteq> None \<Longrightarrow> \<exists>s' n. Increment C s now k ttl = (s', Inr n)"
begin

lemma count_live:
  "inv s \<Longrightarrow> view s k = Some (FormatInt n, x) \<Longrightarrow> in_int64 n \<Longrightarrow> x = 0 \<or> now < x \<Longrightarrow> cachedCount C s now k = Some n"
  using get_live [of s k "FormatInt n" x now] get_up [of s now k] by (auto simp: cachedCount_def)

lemma count_dead: "inv s \<Longrightarrow> entry_dead (view s k) now \<Longrightarrow> cachedCount C s now k = Some 0"
  using get_dead [of s k now] get_up [of s now k] by (auto simp: cachedCount_def)

lemma incr_counter:
  assumes "inv s" and "view s k = Some (FormatInt n, x)" and "x \<noteq> 0" and "now < x" and "in_int64 n" and "n < MaxInt64"
  shows "\<exists>s'. Increment C s now k ttl = (s', Inr (n + 1)) \<and> inv s' \<and> view s' = (view s)(k \<mapsto> (FormatInt (n + 1), x))"
proof -
  from incr_present [OF assms(1), of k now ttl] assms(2)
  obtain s' m where step: "Increment C s now k ttl = (s', Inr m)" by auto
  from incr_live [OF assms step] step show ?thesis by auto
qed

lemma delete_view:
  "inv s \<Longrightarrow> inv (fst (Delete C s now k)) \<and> view (fst (Delete C s now k)) = (view s)(k := None)"
  using delete_up [of s now k] delete_ok [of s now k] by (metis fst_conv)

end

lemma mem_Increment_frame:
  assumes "mem_inv m" and "mem_Increment m now k ttl = (m', r)" and "k' \<noteq> k"
  shows "mem_view m' k' = mem_view m k'"
  using assms
  by (auto simp: mem_Increment_def mem_put_def mem_view_def mem_admit_def gomap_simps Let_def
           split: if_splits option.splits prod.splits)

interpretation rmc: reliable_cache memory_cache mem_view mem_inv
proof unfold_locales
  fix s :: MemoryCache and now :: time and k ttl s' r e
  assume inv: "mem_inv s"
  show "Get memory_cache s now k = Inl e \<Longrightarrow> e = ErrNotFound"
    by (auto simp: mem_Get_def split: option.splits if_splits)
  show "\<exists>s'. Delete memory_cache s now k = (s', Inr ())"
    by (simp add: mem_Delete_def)
  show "mem_view s k \<noteq> None \<Longrightarrow> \<exists>s' n. Increment memory_cache s now k ttl = (s', Inr n)"
    by (auto simp: mem_view_def mem_Increment_def mem_admit_def split: prod.splits)
  assume "Increment memory_cache s now k ttl = (s', r)"
  then have step: "mem_Increment s now k ttl = (s', r)" by simp
  have "mem_inv s'"
    using mem_exec_inv [OF inv, of now "MIncrement k ttl"] step by simp
  with mem_Increment_frame [OF inv step]
  show "mem_inv s' \<and> (\<forall>k'. k' \<noteq> k \<longrightarrow> mem_view s' k' = mem_view s k')" by blast
qed

section \<open>Sequences of login events\<close>

datatype lock_event =
    Failed string string | Cleared string string | WasReset string
  | ThrottleFailed string | ThrottleCleared string | AddressFailed string

fun lock_exec :: "'c lockout_svc \<Rightarrow> 'c lockout_world \<Rightarrow> clock \<times> lock_event \<Rightarrow> 'c lockout_world" where
  "lock_exec k w (clk, Failed u ip) = recordFailedAttempt k clk w u ip"
| "lock_exec k w (clk, Cleared u ip) = clearLockout k clk w u ip"
| "lock_exec k w (clk, WasReset u) = w\<lparr> lw_cache := fst (ClearAccountLockout (lk_cache k) clk (lw_cache w) u) \<rparr>"
| "lock_exec k w (clk, ThrottleFailed e) = recordIdentityFailure k (clk 0) w e"
| "lock_exec k w (clk, ThrottleCleared e) = clearIdentityFailures k (clk 0) w e"
| "lock_exec k w (clk, AddressFailed ip) = recordFailedIP k (clk 0) w ip"

fun event_plain :: "lock_event \<Rightarrow> bool" where
  "event_plain (Failed u ip) \<longleftrightarrow> plain u \<and> plain ip"
| "event_plain (Cleared u ip) \<longleftrightarrow> plain u \<and> plain ip"
| "event_plain (WasReset u) \<longleftrightarrow> plain u"
| "event_plain _ \<longleftrightarrow> True"

text \<open>The events of a window \<open>[lo, hi)\<close> that leave the counter of \<open>u\<close> and \<open>ip\<close> in place: anything
  but a successful login of that pair and a reset of that account.\<close>

definition within :: "time \<Rightarrow> time \<Rightarrow> clock \<Rightarrow> bool" where
  "within lo hi clk \<longleftrightarrow> (\<forall>i. lo \<le> clk i \<and> clk i < hi)"

lemma within_before: "within lo hi clk \<Longrightarrow> hi \<le> x \<Longrightarrow> clk i < x"
  unfolding within_def by (meson order_less_le_trans)

definition keeps_lock :: "string \<Rightarrow> string \<Rightarrow> time \<Rightarrow> time \<Rightarrow> clock \<times> lock_event \<Rightarrow> bool" where
  "keeps_lock u ip lo hi e \<longleftrightarrow>
     within lo hi (fst e) \<and> event_plain (snd e) \<and> snd e \<noteq> Cleared u ip \<and> snd e \<noteq> WasReset u"

text \<open>Throughout the window the generation of \<open>u\<close> reads as \<open>g\<close>.\<close>

definition gen_is :: "(string \<Rightarrow> cache_entry) \<Rightarrow> string \<Rightarrow> int \<Rightarrow> time \<Rightarrow> time \<Rightarrow> bool" where
  "gen_is v u g lo hi \<longleftrightarrow> in_int64 g \<and>
     (case v (lockoutGenerationKey u) of
        None \<Rightarrow> g = 0
      | Some (d, y) \<Rightarrow> if g = 0 then y \<noteq> 0 \<and> y < lo else d = FormatInt g \<and> (y = 0 \<or> hi \<le> y))"

definition counter_is :: "(string \<Rightarrow> cache_entry) \<Rightarrow> string \<Rightarrow> string \<Rightarrow> int \<Rightarrow> int \<Rightarrow> time \<Rightarrow> time \<Rightarrow> time \<Rightarrow> bool" where
  "counter_is v u ip g n lo hi x \<longleftrightarrow>
     gen_is v u g lo hi \<and> hi \<le> x \<and> v (sourceLockoutKey u ip g) = Some (FormatInt n, x)"

definition failures :: "string \<Rightarrow> string \<Rightarrow> (clock \<times> lock_event) list \<Rightarrow> int" where
  "failures u ip es = int (length (filter (\<lambda>e. snd e = Failed u ip) es))"

lemma in_int64_ParseInt: "in_int64 (fst (ParseInt s))"
  by (auto simp: ParseInt_def in_int64_def MinInt64_def MaxInt64_def Let_def split: sum.splits num_error.splits prod.splits)

lemma in_int64_Sscanf_d: "in_int64 (Sscanf_d s)"
  using in_int64_ParseInt by (auto simp: Sscanf_d_def split: prod.splits option.splits) (metis fst_conv)

lemma in_int64_cachedCount: "cachedCount C s now key = Some n \<Longrightarrow> in_int64 n"
  by (auto simp: cachedCount_def in_int64_Sscanf_d split: sum.splits cache_error.splits if_splits)

lemma counter_is_frame:
  "counter_is v u ip g n lo hi x \<Longrightarrow> v' (lockoutGenerationKey u) = v (lockoutGenerationKey u) \<Longrightarrow>
     v' (sourceLockoutKey u ip g) = v (sourceLockoutKey u ip g) \<Longrightarrow> counter_is v' u ip g n lo hi x"
  by (simp add: counter_is_def gen_is_def)

context reliable_cache
begin

lemma generation_read:
  "inv s \<Longrightarrow> gen_is (view s) u g lo hi \<Longrightarrow> lo \<le> t \<Longrightarrow> t < hi \<Longrightarrow> lockoutGeneration C s t u = Some g"
  using count_live [of s "lockoutGenerationKey u" g _ t] count_dead [of s "lockoutGenerationKey u" t]
  by (auto simp: gen_is_def lockoutGeneration_def entry_dead_def split: option.splits if_splits)

lemma generation_some: "inv s \<Longrightarrow> \<exists>g. lockoutGeneration C s t u = Some g \<and> in_int64 g"
  using get_up [of s t "lockoutGenerationKey u"] get_value [of s t "lockoutGenerationKey u"]
    in_int64_cachedCount [of C s t "lockoutGenerationKey u"]
  by (cases "lockoutGeneration C s t u")
     (auto simp: lockoutGeneration_def cachedCount_def split: sum.splits cache_error.splits if_splits)

lemma bump_frame:
  "inv (lw_cache w) \<Longrightarrow> inv (lw_cache (bump C t t' k ttl w)) \<and>
     (\<forall>k'. k' \<noteq> k \<longrightarrow> view (lw_cache (bump C t t' k ttl w)) k' = view (lw_cache w) k')"
  using incr_frame [of "lw_cache w" t k ttl]
  by (simp add: bump_def noteLockoutCounterRefused_def split: prod.splits sum.splits)

lemma bump_counter:
  assumes "inv (lw_cache w)" and "view (lw_cache w) k = Some (FormatInt n, x)" and "x \<noteq> 0" and "t < x"
    and "in_int64 n" and "n < MaxInt64"
  shows "view (lw_cache (bump C t t' k ttl w)) = (view (lw_cache w))(k \<mapsto> (FormatInt (n + 1), x))"
  using incr_counter [OF assms, of ttl] by (auto simp: bump_def)

text \<open>A failure of the pair itself advances its counter.\<close>

lemma failed_self:
  assumes svc: "lk_cache k = Some C" and inv: "inv (lw_cache w)" and cnt: "counter_is (view (lw_cache w)) u ip g n lo hi x"
    and win: "within lo hi clk" and pl: "plain u" and n: "in_int64 n" "n < MaxInt64" and x: "x \<noteq> 0"
  shows "counter_is (view (lw_cache (recordFailedAttempt k clk w u ip))) u ip g (n + 1) lo hi x"
proof -
  let ?key = "sourceLockoutKey u ip g"
  let ?w1 = "bump C (clk 1) (clk 2) ?key lockoutDuration w"
  let ?w2 = "bump C (clk 3) (clk 4) (accountLockoutKey u) lockoutDuration ?w1"
  from cnt win have "lockoutGeneration C (lw_cache w) (clk 0) u = Some g"
    by (intro generation_read [OF inv, of u g lo hi]) (auto simp: counter_is_def within_def)
  with svc have run: "recordFailedAttempt k clk w u ip = ?w2"
    by (simp add: recordFailedAttempt_def)
  from cnt have key: "view (lw_cache w) ?key = Some (FormatInt n, x)" by (simp add: counter_is_def)
  have w1: "view (lw_cache ?w1) = (view (lw_cache w))(?key \<mapsto> (FormatInt (n + 1), x))"
    using bump_counter [OF inv key x _ n] within_before [OF win] cnt by (simp add: counter_is_def)
  have "inv (lw_cache ?w1)" using bump_frame [OF inv] by blast
  then have "\<forall>k'. k' \<noteq> accountLockoutKey u \<longrightarrow> view (lw_cache ?w2) k' = view (lw_cache ?w1) k'"
    using bump_frame by blast
  with w1 pl cnt show ?thesis
    unfolding run counter_is_def gen_is_def by (simp add: account_not_source [symmetric])
qed

text \<open>Every other event of the window leaves it.\<close>

lemma failed_other:
  assumes svc: "lk_cache k = Some C" and inv: "inv (lw_cache w)" and cnt: "counter_is (view (lw_cache w)) u ip g n lo hi x"
    and win: "within lo hi clk" and pl: "plain u" "plain ip" "plain u'" "plain ip'" and other: "(u', ip') \<noteq> (u, ip)"
  shows "counter_is (view (lw_cache (recordFailedAttempt k clk w u' ip'))) u ip g n lo hi x"
proof -
  obtain g' where g': "lockoutGeneration C (lw_cache w) (clk 0) u' = Some g'" "in_int64 g'"
    using generation_some [OF inv] by blast
  let ?key = "sourceLockoutKey u' ip' g'"
  let ?w1 = "bump C (clk 1) (clk 2) ?key lockoutDuration w"
  let ?w2 = "bump C (clk 3) (clk 4) (accountLockoutKey u') lockoutDuration ?w1"
  from svc g' have run: "recordFailedAttempt k clk w u' ip' = ?w2"
    by (simp add: recordFailedAttempt_def)
  from cnt have "in_int64 g" by (simp add: counter_is_def gen_is_def)
  with sourceLockoutKey_inject [OF pl(1,3,2,4) _ g'(2), of g] other
  have ne: "sourceLockoutKey u ip g \<noteq> ?key" by blast
  have inv1: "inv (lw_cache ?w1)" using bump_frame [OF inv] by blast
  have "view (lw_cache ?w2) q = view (lw_cache w) q" if "q \<noteq> accountLockoutKey u'" "q \<noteq> ?key" for q
    using bump_frame [OF inv, of "clk 1" "clk 2" ?key lockoutDuration]
      bump_frame [OF inv1, of "clk 3" "clk 4" "accountLockoutKey u'" lockoutDuration] that by simp
  from this [of "sourceLockoutKey u ip g"] this [of "lockoutGenerationKey u"] ne
    account_not_source [OF pl(3), of u ip g, symmetric]
  show ?thesis
    unfolding run by (intro counter_is_frame [OF cnt]) simp_all
qed

end

context reliable_cache
begin

lemma recorded_inv: "lk_cache k = Some C \<Longrightarrow> inv (lw_cache w) \<Longrightarrow> inv (lw_cache (recordFailedAttempt k clk w u ip))"
  using generation_some [of "lw_cache w" "clk 0" u] bump_frame
  by (auto simp: recordFailedAttempt_def)

lemma cleared_view:
  assumes "lk_cache k = Some C" and "inv (lw_cache w)"
  shows "\<exists>g. in_int64 g \<and> inv (lw_cache (clearLockout k clk w u ip)) \<and>
             view (lw_cache (clearLockout k clk w u ip)) = (view (lw_cache w))(sourceLockoutKey u ip g := None)"
  using generation_some [OF assms(2), of "clk 0" u] delete_view [OF assms(2)] assms(1)
  by (auto simp: clearLockout_def)

lemma reset_view:
  assumes "inv s" and "q \<noteq> accountLockoutKey u" and "q \<noteq> lockoutGenerationKey u"
  shows "inv (fst (ClearAccountLockout (Some C) clk s u)) \<and> view (fst (ClearAccountLockout (Some C) clk s u)) q = view s q"
proof -
  obtain s1 where del: "Delete C s (clk 0) (accountLockoutKey u) = (s1, Inr ())"
    using delete_up [OF assms(1)] by blast
  from delete_ok [OF assms(1) del] have s1: "inv s1" "view s1 = (view s)(accountLockoutKey u := None)" by auto
  obtain s2 r where inc: "Increment C s1 (clk 1) (lockoutGenerationKey u) lockoutGenerationTTL = (s2, r)" by fastforce
  from incr_frame [OF s1(1) inc] s1(2) assms(2,3) have "inv s2" "view s2 q = view s q" by auto
  moreover have "fst (ClearAccountLockout (Some C) clk s u) = s2"
    using del inc by (simp add: ClearAccountLockout_def split: sum.splits)
  ultimately show ?thesis by simp
qed

lemma keeps_counter:
  assumes svc: "lk_cache k = Some C" and inv: "inv (lw_cache w)" and cnt: "counter_is (view (lw_cache w)) u ip g n lo hi x"
    and ev: "keeps_lock u ip lo hi e" and pl: "plain u" "plain ip" and n: "in_int64 n" "n < MaxInt64" and x: "x \<noteq> 0"
  shows "inv (lw_cache (lock_exec k w e)) \<and>
         counter_is (view (lw_cache (lock_exec k w e))) u ip g (n + failures u ip [e]) lo hi x"
proof (cases e)
  case (Pair clk ev')
  note ev = ev [unfolded keeps_lock_def Pair fst_conv snd_conv]
  show ?thesis
  proof (cases ev')
    case (Failed a b)
    with ev Pair pl show ?thesis
      using recorded_inv [OF svc inv] failed_self [OF svc inv cnt _ pl(1) n x, of clk]
        failed_other [OF svc inv cnt _ pl, of clk a b]
      by (auto simp: failures_def)
  next
    case (Cleared a b)
    then obtain h where h: "in_int64 h" "inv (lw_cache (lock_exec k w e))"
      "view (lw_cache (lock_exec k w e)) = (view (lw_cache w))(sourceLockoutKey a b h := None)"
      using cleared_view [OF svc inv, of clk a b] Pair by auto
    have "in_int64 g" using cnt by (simp add: counter_is_def gen_is_def)
    with ev Cleared pl h(1) have "sourceLockoutKey u ip g \<noteq> sourceLockoutKey a b h"
      using sourceLockoutKey_inject [of u a ip b g h] by auto
    with h Cleared Pair show ?thesis
      using counter_is_frame [OF cnt, of "view (lw_cache (lock_exec k w e))"] by (simp add: failures_def)
  next
    case (WasReset a)
    with ev svc Pair pl show ?thesis
      using reset_view [OF inv, of "sourceLockoutKey u ip g" a clk] reset_view [OF inv, of "lockoutGenerationKey u" a clk]
        counter_is_frame [OF cnt, of "view (lw_cache (lock_exec k w e))"] account_not_source [of a u ip g]
      by (auto simp: failures_def)
  next
    case (ThrottleFailed a)
    obtain s' r where inc: "Increment C (lw_cache w) (clk 0) (identityThrottleKey k a) lockoutDuration = (s', r)" by fastforce
    from incr_frame [OF inv inc] ThrottleFailed svc Pair inc show ?thesis
      using counter_is_frame [OF cnt, of "view s'"] throttle_not_lockout(1) [of k a u ip g] throttle_not_lockout(3) [of k a u]
      by (auto simp: failures_def recordIdentityFailure_def)
  next
    case (ThrottleCleared a)
    with svc Pair show ?thesis
      using counter_is_frame [OF cnt, of "(view (lw_cache w))(identityThrottleKey k a := None)"]
        delete_view [OF inv, of "clk 0" "identityThrottleKey k a"]
        throttle_not_lockout(1) [of k a u ip g] throttle_not_lockout(3) [of k a u]
      by (auto simp: failures_def clearIdentityFailures_def)
  next
    case (AddressFailed a)
    obtain s' r where inc: "Increment C (lw_cache w) (clk 0) (ipLockoutKey a) lockoutDuration = (s', r)" by fastforce
    from incr_frame [OF inv inc] AddressFailed svc Pair inc show ?thesis
      using counter_is_frame [OF cnt, of "view s'"] ip_not_lockout(1) [of a u ip g] ip_not_lockout(3) [of a u] inv cnt
      by (auto simp: failures_def recordFailedIP_def)
  qed
qed

lemma keeps_counter_run:
  assumes "lk_cache k = Some C" and "inv (lw_cache w)" and "counter_is (view (lw_cache w)) u ip g n lo hi x"
    and "list_all (keeps_lock u ip lo hi) es" and "plain u" and "plain ip"
    and "0 \<le> n" and "n + int (length es) \<le> MaxInt64" and "x \<noteq> 0"
  shows "inv (lw_cache (foldl (lock_exec k) w es)) \<and>
         counter_is (view (lw_cache (foldl (lock_exec k) w es))) u ip g (n + failures u ip es) lo hi x"
  using assms
proof (induction es arbitrary: w n)
  case Nil
  then show ?case by (simp add: failures_def)
next
  case (Cons e es)
  have n: "in_int64 n" "n < MaxInt64"
    using Cons.prems(7,8) by (auto simp: in_int64_def MinInt64_def MaxInt64_def)
  have f: "failures u ip [e] = 0 \<or> failures u ip [e] = 1" by (simp add: failures_def)
  have step: "inv (lw_cache (lock_exec k w e)) \<and>
      counter_is (view (lw_cache (lock_exec k w e))) u ip g (n + failures u ip [e]) lo hi x"
    using Cons.prems keeps_counter [OF Cons.prems(1-3) _ Cons.prems(5,6) n Cons.prems(9)] by simp
  have "failures u ip (e # es) = failures u ip [e] + failures u ip es" by (simp add: failures_def)
  with Cons.IH [of "lock_exec k w e" "n + failures u ip [e]"] Cons.prems step f show ?case
    by (auto simp: algebra_simps)
qed

text \<open>A counter at the threshold locks its pair for as long as it lives.\<close>

lemma counter_locks:
  assumes "lk_cache k = Some C" and "inv (lw_cache w)" and "counter_is (view (lw_cache w)) u ip g n lo hi x"
    and "within lo hi clk" and "lockoutThreshold \<le> n" and "in_int64 n"
  shows "isAccountLocked k clk w u ip"
proof -
  have "lockoutGeneration C (lw_cache w) (clk 1) u = Some g"
    using assms(3,4) by (intro generation_read [OF assms(2), of u g lo hi]) (auto simp: counter_is_def within_def)
  moreover have "cachedCount C (lw_cache w) (clk 2) (sourceLockoutKey u ip g) = Some n"
    using assms(3,6) within_before [OF assms(4)] by (intro count_live [OF assms(2)]) (auto simp: counter_is_def)
  ultimately show ?thesis
    using assms(1,5) by (simp add: isAccountLocked_def lockoutThreshold_def)
qed

end

section \<open>The lock stays with its source\<close>

text \<open>The account-wide counter of \<open>u\<close> is at most \<open>m\<close> and outlives the window, and the address
  \<open>ip\<close> has no counter under the generation \<open>g\<close> the account reads.\<close>

definition unblamed ::
  "(string \<Rightarrow> cache_entry) \<Rightarrow> string \<Rightarrow> string \<Rightarrow> int \<Rightarrow> int \<Rightarrow> time \<Rightarrow> time \<Rightarrow> bool" where
  "unblamed v u ip g m lo hi \<longleftrightarrow>
     gen_is v u g lo hi \<and> v (sourceLockoutKey u ip g) = None \<and>
     (case v (accountLockoutKey u) of
        None \<Rightarrow> True
      | Some (d, y) \<Rightarrow> hi \<le> y \<and> y \<noteq> 0 \<and> (\<exists>n. d = FormatInt n \<and> 0 \<le> n \<and> n \<le> m))"

fun blames :: "string \<Rightarrow> lock_event \<Rightarrow> bool" where
  "blames u (Failed a ip) \<longleftrightarrow> a = u"
| "blames u _ \<longleftrightarrow> False"

definition blamed :: "string \<Rightarrow> (clock \<times> lock_event) list \<Rightarrow> int" where
  "blamed u es = int (length (filter (\<lambda>e. blames u (snd e)) es))"

text \<open>Failures of \<open>u\<close> from \<open>ip\<close> and resets of \<open>u\<close> excepted, any event of the window.\<close>

definition spares :: "string \<Rightarrow> string \<Rightarrow> time \<Rightarrow> time \<Rightarrow> clock \<times> lock_event \<Rightarrow> bool" where
  "spares u ip lo hi e \<longleftrightarrow>
     within lo hi (fst e) \<and> event_plain (snd e) \<and> snd e \<noteq> Failed u ip \<and> snd e \<noteq> WasReset u"

lemma unblamed_frame:
  "unblamed v u ip g m lo hi \<Longrightarrow> v' (lockoutGenerationKey u) = v (lockoutGenerationKey u) \<Longrightarrow>
     v' (sourceLockoutKey u ip g) = v (sourceLockoutKey u ip g) \<Longrightarrow>
     v' (accountLockoutKey u) = v (accountLockoutKey u) \<Longrightarrow> unblamed v' u ip g m lo hi"
  by (simp add: unblamed_def gen_is_def)

lemma unblamed_mono: "unblamed v u ip g m lo hi \<Longrightarrow> m \<le> m' \<Longrightarrow> unblamed v u ip g m' lo hi"
  by (auto simp: unblamed_def split: option.splits)

context reliable_cache
begin

lemma bump_account:
  assumes "inv (lw_cache w)" and "unblamed (view (lw_cache w)) u ip g m lo hi" and "lo \<le> t" and "t < hi" and "0 < lo"
    and "hi \<le> lo + lockoutDuration" and "0 \<le> m" and "m < MaxInt64" and "plain u"
  shows "unblamed (view (lw_cache (bump C t t' (accountLockoutKey u) lockoutDuration w))) u ip g (m + 1) lo hi"
proof -
  let ?k = "accountLockoutKey u" and ?v = "view (lw_cache w)"
  obtain s' r where inc: "Increment C (lw_cache w) t ?k lockoutDuration = (s', r)" by fastforce
  have out: "lw_cache (bump C t t' ?k lockoutDuration w) = s'"
    using inc by (simp add: bump_def noteLockoutCounterRefused_def split: sum.splits)
  have frame: "view s' q = ?v q" if "q \<noteq> ?k" for q
    using incr_frame [OF assms(1) inc] that by blast
  have "case view s' ?k of None \<Rightarrow> True
        | Some (d, y) \<Rightarrow> hi \<le> y \<and> y \<noteq> 0 \<and> (\<exists>n. d = FormatInt n \<and> 0 \<le> n \<and> n \<le> m + 1)"
  proof (cases "?v ?k")
    case None
    then show ?thesis
      using incr_dead [OF assms(1), of t ?k lockoutDuration s'] incr_err [OF assms(1), of t ?k lockoutDuration s'] inc assms
      by (cases r) (auto simp: entry_dead_def expiry_of_def lockoutDuration_def intro!: exI [of _ 1])
  next
    case (Some e)
    with assms(2) obtain n y where e: "?v ?k = Some (FormatInt n, y)" "hi \<le> y" "y \<noteq> 0" "0 \<le> n" "n \<le> m"
      by (cases e) (auto simp: unblamed_def)
    have n: "in_int64 n" "n < MaxInt64" using e(4,5) assms(8) by (auto simp: in_int64_def MinInt64_def MaxInt64_def)
    have "t < y" using assms(4) e(2) by simp
    from incr_counter [OF assms(1) e(1,3) this n, of lockoutDuration] inc e show ?thesis by auto
  qed
  with frame assms(2,9) show ?thesis
    unfolding out unblamed_def gen_is_def by simp
qed

lemma spares_account:
  assumes svc: "lk_cache k = Some C" and inv: "inv (lw_cache w)" and un: "unblamed (view (lw_cache w)) u ip g m lo hi"
    and ev: "spares u ip lo hi e" and pl: "plain u" "plain ip" and lo: "0 < lo" "hi \<le> lo + lockoutDuration"
    and m: "0 \<le> m" "m < MaxInt64"
  shows "inv (lw_cache (lock_exec k w e)) \<and>
         unblamed (view (lw_cache (lock_exec k w e))) u ip g (m + blamed u [e]) lo hi"
proof (cases e)
  case (Pair clk ev')
  note ev = ev [unfolded spares_def Pair fst_conv snd_conv]
  have g: "in_int64 g" using un by (simp add: unblamed_def gen_is_def)
  show ?thesis
  proof (cases ev')
    case (Failed a b)
    obtain h where h: "lockoutGeneration C (lw_cache w) (clk 0) a = Some h" "in_int64 h"
      using generation_some [OF inv] by blast
    let ?w1 = "bump C (clk 1) (clk 2) (sourceLockoutKey a b h) lockoutDuration w"
    have ne: "sourceLockoutKey u ip g \<noteq> sourceLockoutKey a b h"
      using sourceLockoutKey_inject [of u a ip b g h] pl ev Failed g h(2) by auto
    have b1: "inv (lw_cache ?w1)" and "unblamed (view (lw_cache ?w1)) u ip g m lo hi"
      using bump_frame [OF inv] unblamed_frame [OF un] ne pl(1) by auto
    moreover have "lock_exec k w e = bump C (clk 3) (clk 4) (accountLockoutKey a) lockoutDuration ?w1"
      using svc h Pair Failed by (simp add: recordFailedAttempt_def)
    ultimately show ?thesis
      using bump_account [OF b1, of u ip g m lo hi "clk 3" "clk 4"] bump_frame [OF b1] ev lo m pl Failed Pair
        unblamed_frame [of "view (lw_cache ?w1)" u ip g m lo hi "view (lw_cache (lock_exec k w e))"]
      by (cases "a = u") (auto simp: within_def blamed_def)
  next
    case (Cleared a b)
    then obtain h where "inv (lw_cache (lock_exec k w e))"
      "view (lw_cache (lock_exec k w e)) = (view (lw_cache w))(sourceLockoutKey a b h := None)"
      using cleared_view [OF svc inv, of clk a b] Pair by auto
    with un pl(1) show ?thesis
      using Cleared Pair by (simp add: unblamed_def gen_is_def blamed_def)
  next
    case (WasReset a)
    with ev svc Pair pl show ?thesis
      using reset_view [OF inv, of "sourceLockoutKey u ip g" a clk] reset_view [OF inv, of "lockoutGenerationKey u" a clk]
        reset_view [OF inv, of "accountLockoutKey u" a clk] unblamed_frame [OF un, of "view (lw_cache (lock_exec k w e))"]
      by (auto simp: blamed_def)
  next
    case (ThrottleFailed a)
    obtain s' r where inc: "Increment C (lw_cache w) (clk 0) (identityThrottleKey k a) lockoutDuration = (s', r)" by fastforce
    from incr_frame [OF inv inc] ThrottleFailed svc Pair inc show ?thesis
      using unblamed_frame [OF un, of "view s'"] by (auto simp: blamed_def recordIdentityFailure_def)
  next
    case (ThrottleCleared a)
    with svc Pair show ?thesis
      using unblamed_frame [OF un, of "(view (lw_cache w))(identityThrottleKey k a := None)"]
        delete_view [OF inv, of "clk 0" "identityThrottleKey k a"]
      by (auto simp: blamed_def clearIdentityFailures_def)
  next
    case (AddressFailed a)
    obtain s' r where inc: "Increment C (lw_cache w) (clk 0) (ipLockoutKey a) lockoutDuration = (s', r)" by fastforce
    from incr_frame [OF inv inc] AddressFailed svc Pair inc show ?thesis
      using unblamed_frame [OF un, of "view s'"] inv un by (auto simp: blamed_def recordFailedIP_def)
  qed
qed

lemma spares_account_run:
  assumes "lk_cache k = Some C" and "inv (lw_cache w)" and "unblamed (view (lw_cache w)) u ip g m lo hi"
    and "list_all (spares u ip lo hi) es" and "plain u" and "plain ip" and "0 < lo" and "hi \<le> lo + lockoutDuration"
    and "0 \<le> m" and "m + int (length es) \<le> MaxInt64"
  shows "inv (lw_cache (foldl (lock_exec k) w es)) \<and>
         unblamed (view (lw_cache (foldl (lock_exec k) w es))) u ip g (m + blamed u es) lo hi"
  using assms
proof (induction es arbitrary: w m)
  case Nil
  then show ?case by (simp add: blamed_def)
next
  case (Cons e es)
  have b: "blamed u [e] = 0 \<or> blamed u [e] = 1" by (simp add: blamed_def)
  have m: "m < MaxInt64" using Cons.prems(10) by simp
  have step: "inv (lw_cache (lock_exec k w e)) \<and> unblamed (view (lw_cache (lock_exec k w e))) u ip g (m + blamed u [e]) lo hi"
    using Cons.prems spares_account [OF Cons.prems(1-3) _ Cons.prems(5-9) m] by simp
  have "blamed u (e # es) = blamed u [e] + blamed u es" by (simp add: blamed_def)
  with Cons.IH [of "lock_exec k w e" "m + blamed u [e]"] Cons.prems step b show ?case
    by (auto simp: algebra_simps)
qed

lemma unblamed_unlocked:
  assumes "lk_cache k = Some C" and "inv (lw_cache w)" and "unblamed (view (lw_cache w)) u ip g m lo hi"
    and "within lo hi clk" and "m < distributedLockoutThreshold" and "\<not> lockoutCountersUnwritable (clk 0) w"
  shows "\<not> isAccountLocked k clk w u ip"
proof -
  have "lockoutGeneration C (lw_cache w) (clk 1) u = Some g"
    using assms(3,4) by (intro generation_read [OF assms(2), of u g lo hi]) (auto simp: unblamed_def within_def)
  moreover have "cachedCount C (lw_cache w) (clk 2) (sourceLockoutKey u ip g) = Some 0"
    using assms(3) by (intro count_dead [OF assms(2)]) (simp add: unblamed_def entry_dead_def)
  moreover have "\<exists>n \<le> max 0 m. cachedCount C (lw_cache w) (clk 3) (accountLockoutKey u) = Some n"
  proof (cases "view (lw_cache w) (accountLockoutKey u)")
    case None
    then have "cachedCount C (lw_cache w) (clk 3) (accountLockoutKey u) = Some 0"
      by (intro count_dead [OF assms(2)]) (simp add: entry_dead_def)
    then show ?thesis by auto
  next
    case (Some e)
    with assms(3) obtain n y where e: "view (lw_cache w) (accountLockoutKey u) = Some (FormatInt n, y)"
      "hi \<le> y" "0 \<le> n" "n \<le> m"
      by (cases e) (auto simp: unblamed_def)
    moreover have "in_int64 n" and "clk 3 < y"
      using e assms(4,5) order_less_le_trans [of "clk 3" hi y]
      by (auto simp: in_int64_def MinInt64_def MaxInt64_def distributedLockoutThreshold_def within_def)
    ultimately have "cachedCount C (lw_cache w) (clk 3) (accountLockoutKey u) = Some n"
      using count_live [OF assms(2) e(1)] by simp
    with e show ?thesis by auto
  qed
  ultimately show ?thesis
    using assms(1,5,6) by (auto simp: isAccountLocked_def lockoutThreshold_def distributedLockoutThreshold_def)
qed

end

section \<open>Properties of the lockout\<close>

lemma first_failure:
  assumes "lk_cache k = Some memory_cache" and "mem_inv (lw_cache w)"
    and "gen_is (mem_view (lw_cache w)) u g lo hi" and "lo \<le> clk 0" and "clk 0 < hi"
    and "mem_view (lw_cache w) (sourceLockoutKey u ip g) = None"
    and "mc_maxEntries (lw_cache w) \<le> 0 \<or> int (length (mc_data (lw_cache w))) < mc_maxEntries (lw_cache w)"
    and "0 < clk 1" and "plain u" and "hi \<le> clk 1 + lockoutDuration"
  shows "counter_is (mem_view (lw_cache (recordFailedAttempt k clk w u ip))) u ip g 1 lo hi (clk 1 + lockoutDuration)"
proof -
  let ?key = "sourceLockoutKey u ip g"
  let ?w1 = "bump memory_cache (clk 1) (clk 2) ?key lockoutDuration w"
  let ?w2 = "bump memory_cache (clk 3) (clk 4) (accountLockoutKey u) lockoutDuration ?w1"
  have run: "recordFailedAttempt k clk w u ip = ?w2"
    using assms(1) rmc.generation_read [OF assms(2-5)] by (simp add: recordFailedAttempt_def)
  obtain m' n where inc: "mem_Increment (lw_cache w) (clk 1) ?key lockoutDuration = (m', Inr n)"
    using assms(6,7) by (auto simp: mem_Increment_def mem_admit_def mem_view_def split: prod.splits)
  then have w1: "mem_view (lw_cache ?w1) = (mem_view (lw_cache w))(?key \<mapsto> (FormatInt 1, clk 1 + lockoutDuration))"
    using mc.incr_dead [OF assms(2,8), of ?key lockoutDuration m' n] assms(6)
    by (simp add: bump_def entry_dead_def expiry_of_def lockoutDuration_def)
  have "mem_inv (lw_cache ?w1)" using rmc.bump_frame [OF assms(2)] by blast
  then have "\<forall>q. q \<noteq> accountLockoutKey u \<longrightarrow> mem_view (lw_cache ?w2) q = mem_view (lw_cache ?w1) q"
    using rmc.bump_frame by blast
  with w1 assms(3,9,10) show ?thesis
    unfolding run counter_is_def gen_is_def by simp
qed


definition sample_lock :: "MemoryCache lockout_svc" where
  "sample_lock = \<lparr> lk_cache = Some memory_cache, lk_rateLimits = False, lk_metrics = False, lk_auditLog = True,
     lk_emailSender = False, lk_pepper = [], lk_sha = id, lk_usersUp = True, lk_ratesUp = True \<rparr>"

definition sample_locks :: "MemoryCache lockout_world" where
  "sample_locks = \<lparr> lw_cache = newMemoryCacheWithCap 0, lw_refusedAt = 0, lw_users = [(''u'', sample_user)],
     lw_rates = [], lw_failed = 0, lw_audit = [], lw_mail = [] \<rparr>"

lemma sample_locks_fresh [simp]:
  "lk_cache sample_lock = Some memory_cache" "mem_inv (lw_cache sample_locks)"
  "mem_view (lw_cache sample_locks) q = None" "mc_data (lw_cache sample_locks) = []"
  "mc_maxEntries (lw_cache sample_locks) = 0" "lw_refusedAt sample_locks = 0"
  using mem_inv_new [of 0]
  by (simp_all add: sample_lock_def sample_locks_def mem_view_def newMemoryCacheWithCap_def)


text \<open>
  A lock stays with its source. Take an account with no standing counter. However the failures
  of one window fall, as long as none comes from the address, fewer than fifty hit the account and no
  counter write was refused, the account stays open to that address: nobody locks a user out of their
  own address.
\<close>

theorem failures_elsewhere_do_not_lock:
  assumes "lk_cache k = Some memory_cache" and "mem_inv (lw_cache w)"
    and "mem_view (lw_cache w) (lockoutGenerationKey u) = None"
    and "mem_view (lw_cache w) (sourceLockoutKey u ip 0) = None"
    and "mem_view (lw_cache w) (accountLockoutKey u) = None"
    and "0 < lo" and "plain u" and "plain ip"
    and "list_all (spares u ip lo (lo + lockoutDuration)) es"
    and "blamed u es < distributedLockoutThreshold" and "int (length es) \<le> MaxInt64"
    and "within lo (lo + lockoutDuration) clk"
    and "\<not> lockoutCountersUnwritable (clk 0) (foldl (lock_exec k) w es)"
  shows "\<not> isAccountLocked k clk (foldl (lock_exec k) w es) u ip"
proof -
  let ?w = "foldl (lock_exec k) w es" and ?hi = "lo + lockoutDuration"
  have un: "unblamed (mem_view (lw_cache w)) u ip 0 0 lo ?hi"
    using assms(3,4,5) by (simp add: unblamed_def gen_is_def)
  have "mem_inv (lw_cache ?w) \<and> unblamed (mem_view (lw_cache ?w)) u ip 0 (0 + blamed u es) lo ?hi"
    using assms(11) by (intro rmc.spares_account_run [OF assms(1,2) un assms(9,7,8,6)]) auto
  with rmc.unblamed_unlocked [OF assms(1) _ _ assms(12) _ assms(13)] assms(10) show ?thesis by auto
qed

lemma bump_memory: "lw_cache (bump memory_cache t t' key ttl w) = fst (mem_Increment (lw_cache w) t key ttl)"
  by (simp add: bump_def noteLockoutCounterRefused_def split: prod.splits sum.splits)

lemma mem_step_cap [simp]:
  "mc_maxEntries (fst (mem_Increment m t key ttl)) = mc_maxEntries m"
  "mc_maxEntries (fst (mem_Delete m t key)) = mc_maxEntries m"
  using mem_exec_cap [of m t "MIncrement key ttl"] mem_exec_cap [of m t "MDelete key"] by simp_all

text \<open>A cache without a cap refuses nothing.\<close>

lemma uncapped_increment: "mc_maxEntries m \<le> 0 \<Longrightarrow> \<exists>n. snd (mem_Increment m t key ttl) = Inr n"
  by (simp add: mem_Increment_def mem_admit_def split: prod.splits option.splits)

lemma uncapped_bump:
  "mc_maxEntries (lw_cache w) \<le> 0 \<Longrightarrow> lw_refusedAt (bump memory_cache t t' key ttl w) = lw_refusedAt w"
  using uncapped_increment [of "lw_cache w" t key ttl] by (auto simp: bump_def split: prod.splits)

lemma uncapped_recorded:
  assumes "lk_cache k = Some memory_cache" and "mc_maxEntries (lw_cache w) \<le> 0"
  shows "mc_maxEntries (lw_cache (recordFailedAttempt k clk w u ip)) \<le> 0 \<and>
         lw_refusedAt (recordFailedAttempt k clk w u ip) = lw_refusedAt w"
proof -
  obtain g where "lockoutGeneration memory_cache (lw_cache w) (clk 0) u = Some g"
    by (cases "lockoutGeneration memory_cache (lw_cache w) (clk 0) u")
       (auto simp: lockoutGeneration_def cachedCount_def mem_Get_def split: option.splits if_splits)
  with assms show ?thesis
    by (simp add: recordFailedAttempt_def uncapped_bump bump_memory)
qed

lemma uncapped_failures:
  assumes "lk_cache k = Some memory_cache" and "mc_maxEntries (lw_cache w) \<le> 0"
  shows "mc_maxEntries (lw_cache (foldl (lock_exec k) w (replicate n (clk, Failed u ip)))) \<le> 0 \<and>
         lw_refusedAt (foldl (lock_exec k) w (replicate n (clk, Failed u ip))) = lw_refusedAt w"
  using assms
proof (induction n arbitrary: w)
  case (Suc n)
  with uncapped_recorded [OF Suc.prems] show ?case by simp
qed simp

theorem failures_elsewhere_do_not_lock_witness:
  "\<not> isAccountLocked sample_lock (\<lambda>_. 20)
     (foldl (lock_exec sample_lock) sample_locks (replicate 7 (\<lambda>_. 15, Failed ''u'' ''attacker''))) ''u'' ''home''"
proof -
  let ?es = "replicate 7 (\<lambda>_. 15, Failed ''u'' ''attacker'') :: (clock \<times> lock_event) list"
  have "lw_refusedAt (foldl (lock_exec sample_lock) sample_locks ?es) = 0"
    using uncapped_failures [of sample_lock sample_locks] by simp
  then show ?thesis
    using failures_elsewhere_do_not_lock [of sample_lock sample_locks "''u''" "''home''" 10 ?es "\<lambda>_. 20"]
    by (simp add: plain_def spares_def within_def lockoutDuration_def blamed_def MaxInt64_def
        distributedLockoutThreshold_def lockoutCountersUnwritable_def eval_nat_numeral)
qed

lemma uncapped_reset:
  assumes "mem_inv m" and "mc_maxEntries m \<le> 0" and "0 < clk 1"
    and "entry_dead (mem_view m (lockoutGenerationKey u)) (clk 1)"
    and "ClearAccountLockout (Some memory_cache) clk m u = (m', r)"
  shows "r = Inr () \<and> mem_inv m' \<and> mc_maxEntries m' \<le> 0 \<and>
         mem_view m' = (mem_view m)(accountLockoutKey u := None,
           lockoutGenerationKey u \<mapsto> (FormatInt 1, clk 1 + lockoutGenerationTTL))"
proof -
  obtain m1 where del: "Delete memory_cache m (clk 0) (accountLockoutKey u) = (m1, Inr ())"
    using rmc.delete_up [OF assms(1)] by blast
  from mc.delete_ok [OF assms(1) del]
  have m1: "mem_inv m1" "mem_view m1 = (mem_view m)(accountLockoutKey u := None)" by auto
  have cap: "mc_maxEntries m1 = mc_maxEntries m" using mem_step_cap(2) [of m "clk 0"] del by (metis fst_conv memory_cache_sel(3))
  with assms(2) uncapped_increment [of m1 "clk 1" "lockoutGenerationKey u" lockoutGenerationTTL]
  obtain m2 n where inc: "Increment memory_cache m1 (clk 1) (lockoutGenerationKey u) lockoutGenerationTTL = (m2, Inr n)"
    by (metis memory_cache_sel(6) prod.collapse)
  have dead: "entry_dead (mem_view m1 (lockoutGenerationKey u)) (clk 1)" using assms(4) m1(2) by simp
  from mc.incr_dead [OF m1(1) assms(3) dead inc] m1(2)
  have "mem_inv m2 \<and> mem_view m2 = (mem_view m)(accountLockoutKey u := None,
           lockoutGenerationKey u \<mapsto> (FormatInt 1, clk 1 + lockoutGenerationTTL))"
    by (simp add: expiry_of_def lockoutGenerationTTL_def lockoutDuration_def)
  moreover have "mc_maxEntries m2 = mc_maxEntries m1"
    using inc mem_step_cap(1) [of m1 "clk 1" "lockoutGenerationKey u" lockoutGenerationTTL] by simp
  ultimately show ?thesis
    using assms(2,5) cap del inc by (simp add: ClearAccountLockout_def)
qed

definition minute :: "int \<Rightarrow> clock" where
  "minute n = (\<lambda>_. Hour + n * Minute)"

lemma plain_sample [simp]: "plain ''u''" "plain ''ip''"
  by (simp_all add: plain_def)

text \<open>Failures leave the generation alone.\<close>

lemma recorded_generation:
  assumes "lk_cache k = Some memory_cache" and "mem_inv (lw_cache w)"
  shows "mem_view (lw_cache (recordFailedAttempt k clk w u ip)) (lockoutGenerationKey v) =
         mem_view (lw_cache w) (lockoutGenerationKey v)"
proof -
  obtain g where "lockoutGeneration memory_cache (lw_cache w) (clk 0) u = Some g"
    using rmc.generation_some [OF assms(2)] by blast
  with assms(1) rmc.bump_frame [OF assms(2)] rmc.bump_frame show ?thesis
    by (auto simp: recordFailedAttempt_def)
qed

lemma failures_generation:
  assumes "lk_cache k = Some memory_cache" and "mem_inv (lw_cache w)"
  shows "mem_view (lw_cache (foldl (lock_exec k) w (replicate n (clk, Failed u ip)))) (lockoutGenerationKey v) =
         mem_view (lw_cache w) (lockoutGenerationKey v)"
  using assms
proof (induction n arbitrary: w)
  case (Suc n)
  with recorded_generation [OF Suc.prems] rmc.recorded_inv [OF Suc.prems] show ?case by simp
qed simp

text \<open>Five failures at minute 28, after a reset at minute 0.\<close>

lemma locked_after_reset:
  fixes after_reset :: "MemoryCache lockout_world"
  defines "after_reset \<equiv> lock_exec sample_lock sample_locks (minute 0, WasReset ''u'')"
  defines "locked \<equiv> foldl (lock_exec sample_lock) after_reset (replicate 5 (minute 28, Failed ''u'' ''ip''))"
  shows "mem_inv (lw_cache locked) \<and> mc_maxEntries (lw_cache locked) \<le> 0 \<and>
         mem_view (lw_cache locked) (lockoutGenerationKey ''u'') = Some (FormatInt 1, Hour + 30 * Minute) \<and>
         mem_view (lw_cache locked) (sourceLockoutKey ''u'' ''ip'' 1) = Some (FormatInt 5, Hour + 43 * Minute)"
proof -
  let ?lo = "Hour + 28 * Minute" and ?hi = "Hour + 30 * Minute" and ?x = "Hour + 43 * Minute"
  obtain m r where reset: "ClearAccountLockout (Some memory_cache) (minute 0) (lw_cache sample_locks) ''u'' = (m, r)" by fastforce
  from uncapped_reset [OF _ _ _ _ reset]
  have m: "mem_inv m" "mc_maxEntries m \<le> 0"
    "mem_view m = (mem_view (lw_cache sample_locks))(accountLockoutKey ''u'' := None,
        lockoutGenerationKey ''u'' \<mapsto> (FormatInt 1, ?hi))"
    by (simp_all add: entry_dead_def minute_def lockoutGenerationTTL_def lockoutDuration_def)
  have w0: "lw_cache after_reset = m" using reset by (simp add: after_reset_def)
  let ?w1 = "recordFailedAttempt sample_lock (minute 28) after_reset ''u'' ''ip''"
  have cnt: "counter_is (mem_view (lw_cache ?w1)) ''u'' ''ip'' 1 1 ?lo ?hi (minute 28 1 + lockoutDuration)"
    by (rule first_failure) (use m w0 in \<open>simp_all add: gen_is_def minute_def lockoutDuration_def\<close>)
  have inv: "mem_inv (lw_cache ?w1)" by (rule rmc.recorded_inv) (use m w0 in simp_all)
  let ?es = "replicate 4 (minute 28, Failed ''u'' ''ip'')"
  have "list_all (keeps_lock ''u'' ''ip'' ?lo ?hi) ?es"
    by (simp add: keeps_lock_def within_def minute_def list_all_iff)
  from rmc.keeps_counter_run [OF sample_locks_fresh(1) inv cnt this]
  have run: "mem_inv (lw_cache (foldl (lock_exec sample_lock) ?w1 ?es)) \<and>
      counter_is (mem_view (lw_cache (foldl (lock_exec sample_lock) ?w1 ?es))) ''u'' ''ip'' 1 5 ?lo ?hi ?x"
    by (simp add: failures_def minute_def lockoutDuration_def MaxInt64_def)
  have locked: "locked = foldl (lock_exec sample_lock) ?w1 ?es"
    by (simp add: locked_def eval_nat_numeral)
  have "mc_maxEntries (lw_cache locked) \<le> 0"
    unfolding locked_def using uncapped_failures [of sample_lock after_reset] m(2) w0 by simp
  moreover have "mem_view (lw_cache locked) (lockoutGenerationKey ''u'') = Some (FormatInt 1, ?hi)"
    unfolding locked_def using failures_generation [of sample_lock after_reset] m w0 by simp
  ultimately show ?thesis using run unfolding locked counter_is_def by blast
qed

text \<open>
  C34: A completed reset can resurrect a lockout. An account is reset at minute 0; five failures from
  one address at minute 28 lock that pair under generation 1; the generation key expires at minute
  30; a second reset completes without error at minute 31, finds no generation and restarts it at 1,
  and so addresses the counters of minute 28 again: the address the user just reset from is locked.
\<close>

theorem reset_resurrects_a_lockout:
  "let before = foldl (lock_exec sample_lock) sample_locks
         ((minute 0, WasReset ''u'') # replicate 5 (minute 28, Failed ''u'' ''ip''));
       done = ClearAccountLockout (lk_cache sample_lock) (minute 31) (lw_cache before) ''u'';
       after = before\<lparr> lw_cache := fst done \<rparr>
   in snd done = Inr () \<and> isAccountLocked sample_lock (minute 31) after ''u'' ''ip''"
proof -
  define before where "before = foldl (lock_exec sample_lock) sample_locks
     ((minute 0, WasReset ''u'') # replicate 5 (minute 28, Failed ''u'' ''ip''))"
  let ?lo = "Hour + 31 * Minute" and ?x = "Hour + 43 * Minute"
  have b: "mem_inv (lw_cache before)" "mc_maxEntries (lw_cache before) \<le> 0"
    "mem_view (lw_cache before) (lockoutGenerationKey ''u'') = Some (FormatInt 1, Hour + 30 * Minute)"
    "mem_view (lw_cache before) (sourceLockoutKey ''u'' ''ip'' 1) = Some (FormatInt 5, ?x)"
    unfolding before_def foldl_Cons using locked_after_reset by blast+
  obtain m r where reset: "ClearAccountLockout (Some memory_cache) (minute 31) (lw_cache before) ''u'' = (m, r)" by fastforce
  from uncapped_reset [OF b(1,2) _ _ reset] b(3)
  have m: "r = Inr ()" "mem_inv m" "mem_view m = (mem_view (lw_cache before))(accountLockoutKey ''u'' := None,
      lockoutGenerationKey ''u'' \<mapsto> (FormatInt 1, Hour + 61 * Minute))"
    by (simp_all add: entry_dead_def minute_def lockoutGenerationTTL_def lockoutDuration_def del: FormatInt_small)
  have "isAccountLocked sample_lock (minute 31) (before\<lparr> lw_cache := m \<rparr>) ''u'' ''ip''"
    by (rule rmc.counter_locks [where g = 1 and n = 5 and lo = ?lo and hi = ?x and x = ?x])
       (use m b(4) in \<open>simp_all add: counter_is_def gen_is_def within_def minute_def lockoutThreshold_def\<close>)
  with reset m(1) show ?thesis
    unfolding before_def [symmetric] by (simp add: Let_def)
qed

lemma bump_refused:
  assumes "mem_admit (lw_cache w) key = (m1, False)"
  shows "bump memory_cache t t' key ttl w = w\<lparr> lw_cache := m1, lw_refusedAt := UnixNano t' \<rparr>"
  using mem_Increment_refused [OF assms] by (simp add: bump_def noteLockoutCounterRefused_def)

lemma admit_full:
  "0 < mc_maxEntries m \<Longrightarrow> mc_maxEntries m \<le> int (length (mc_data m)) \<Longrightarrow> mem_view m key = None \<Longrightarrow>
     mem_admit m key = (m\<lparr>mc_atCap := True\<rparr>, False)"
  by (simp add: mem_admit_def mem_view_def)

text \<open>
  A saturated cache does not switch the lockout off. When the memory cache is at its cap and
  holds no counter of the account, a recorded failure is refused, the refusal is latched, and for the
  next fifteen minutes the account is locked exactly when its durable failure count says so.
\<close>

theorem saturated_cache_uses_stored_count:
  assumes "lk_cache k = Some memory_cache" and "mem_inv (lw_cache w)"
    and "0 < mc_maxEntries (lw_cache w)" and "mc_maxEntries (lw_cache w) \<le> int (length (mc_data (lw_cache w)))"
    and "mem_view (lw_cache w) (lockoutGenerationKey u) = None"
    and "mem_view (lw_cache w) (sourceLockoutKey u ip 0) = None"
    and "mem_view (lw_cache w) (accountLockoutKey u) = None"
    and "0 < UnixNano (clk 4)" and "clk' 0 < clk 4 + lockoutDuration"
  shows "isAccountLocked k clk' (recordFailedAttempt k clk w u ip) u ip = lockedByStoredCount k w u"
proof -
  let ?m = "(lw_cache w)\<lparr>mc_atCap := True\<rparr>"
  have gen: "lockoutGeneration memory_cache m t u = Some 0"
    and src: "cachedCount memory_cache m t (sourceLockoutKey u ip 0) = Some 0"
    if "mc_data m = mc_data (lw_cache w)" for m t
    using assms(5,6) that by (simp_all add: lockoutGeneration_def cachedCount_def mem_Get_def mem_view_def)
  have adm: "mem_admit (lw_cache w) (sourceLockoutKey u ip 0) = (?m, False)"
    "mem_admit ?m (accountLockoutKey u) = (?m, False)"
    using assms(3-7) admit_full [of "lw_cache w"] by (simp_all add: mem_admit_def mem_view_def)
  have "recordFailedAttempt k clk w u ip = w\<lparr> lw_cache := ?m, lw_refusedAt := UnixNano (clk 4) \<rparr>"
    using assms(1) gen [of "lw_cache w"] bump_refused [OF adm(1)]
      bump_refused [of "w\<lparr> lw_cache := ?m, lw_refusedAt := UnixNano (clk 2) \<rparr>" "accountLockoutKey u" ?m] adm(2)
    by (simp add: recordFailedAttempt_def)
  moreover have "lockoutCountersUnwritable (clk' 0) (w\<lparr> lw_cache := ?m, lw_refusedAt := UnixNano (clk 4) \<rparr>)"
    using assms(8,9) by (simp add: lockoutCountersUnwritable_def time_Unix_0_def UnixNano_def)
  ultimately show ?thesis
    using assms(1) gen [of ?m] src [of ?m] by (simp add: isAccountLocked_def lockedByStoredCount_def)
qed

definition full_locks :: "MemoryCache lockout_world" where
  "full_locks = sample_locks\<lparr>
     lw_cache := mem_put (newMemoryCacheWithCap 1) ''x'' ''1'' 0,
     lw_users := [(''u'', sample_user\<lparr> u_failedLoginCount := 5 \<rparr>)] \<rparr>"

theorem saturated_cache_uses_stored_count_witness:
  "isAccountLocked sample_lock (\<lambda>_. 10 ^ 20 + 5)
     (recordFailedAttempt sample_lock (\<lambda>_. 10 ^ 20) full_locks ''u'' ''ip'') ''u'' ''ip''"
proof -
  have "mem_inv (lw_cache full_locks)" by code_simp
  moreover have "lockedByStoredCount sample_lock full_locks ''u''" by code_simp
  ultimately show ?thesis
    using saturated_cache_uses_stored_count
      [of sample_lock full_locks "''u''" "''ip''" "\<lambda>_. 10 ^ 20" "\<lambda>_. 10 ^ 20 + 5"]
    by (simp add: full_locks_def mem_put_def newMemoryCacheWithCap_def mem_view_def lockoutGenerationKey_def
        sourceLockoutKey_def accountLockoutKey_def UnixNano_def unix_epoch_seconds_def lockoutDuration_def)
qed

section \<open>The throttle\<close>

lemma throttle_loop_closed:
  "0 < d \<Longrightarrow> d < loginThrottleMax \<Longrightarrow> throttle_loop d n = min loginThrottleMax (d * 2 ^ n)"
proof (induction n arbitrary: d)
  case 0
  then show ?case by simp
next
  case (Suc n)
  show ?case
  proof (cases "loginThrottleMax \<le> d * 2")
    case True
    have "d * 2 * 1 \<le> d * 2 * 2 ^ n" using Suc.prems(1) by (intro mult_left_mono) simp_all
    then have "loginThrottleMax \<le> d * 2 ^ Suc n" using True by (simp add: algebra_simps)
    with True show ?thesis by (simp add: min_def)
  next
    case False
    with Suc show ?thesis by (simp add: algebra_simps)
  qed
qed

text \<open>The delay doubles from 100 ms at the sixth failure and stops at two seconds.\<close>

lemma loginThrottleDelay_closed:
  "loginThrottleDelay n = (if n \<le> 5 then 0 else min (2 * Second) (100 * Millisecond * 2 ^ nat (n - 6)))"
  using throttle_loop_closed [of loginThrottleBase "nat (n - 6)"]
  by (simp add: loginThrottleDelay_def lockoutThreshold_def loginThrottleBase_def loginThrottleMax_def)

end
