(* ===== verification/Rbac.thy ===== *)
theory Rbac
  imports Prelude
begin

text \<open>
  \<open>internal/rbac/rbac.go\<close>: the permission vocabulary of the admin gateway, the three role tables and
  the single authorization decision \<open>HasPermission\<close>. Roles and permissions are Go strings; the
  tables are the lists of their keys, so a missing key is a denied permission.
\<close>

section \<open>The vocabulary\<close>

type_synonym Permission = string
type_synonym Role = string

definition KeysList :: Permission where "KeysList = ''keys:list''"
definition KeysRotate :: Permission where "KeysRotate = ''keys:rotate''"
definition KeysRevoke :: Permission where "KeysRevoke = ''keys:revoke''"
definition AuditRead :: Permission where "AuditRead = ''audit:read''"
definition UsersList :: Permission where "UsersList = ''users:list''"
definition UsersRead :: Permission where "UsersRead = ''users:read''"
definition UsersLock :: Permission where "UsersLock = ''users:lock''"
definition UsersUnlock :: Permission where "UsersUnlock = ''users:unlock''"
definition UsersReset :: Permission where "UsersReset = ''users:reset''"
definition UsersBan :: Permission where "UsersBan = ''users:ban''"
definition UsersDelete :: Permission where "UsersDelete = ''users:delete''"
definition UsersImport :: Permission where "UsersImport = ''users:import''"
definition SessionsList :: Permission where "SessionsList = ''sessions:list''"
definition SessionsRevoke :: Permission where "SessionsRevoke = ''sessions:revoke''"
definition ClientsList :: Permission where "ClientsList = ''clients:list''"
definition ClientsRead :: Permission where "ClientsRead = ''clients:read''"
definition ClientsCreate :: Permission where "ClientsCreate = ''clients:create''"
definition ClientsRevoke :: Permission where "ClientsRevoke = ''clients:revoke''"
definition ClientsRotate :: Permission where "ClientsRotate = ''clients:rotate''"
definition ConfigRead :: Permission where "ConfigRead = ''config:read''"
definition ConfigWrite :: Permission where "ConfigWrite = ''config:write''"
definition MetricsRead :: Permission where "MetricsRead = ''metrics:read''"
definition AdminsManage :: Permission where "AdminsManage = ''admins:manage''"
definition AdminsCreate :: Permission where "AdminsCreate = ''admins:create''"
definition AdminsRevoke :: Permission where "AdminsRevoke = ''admins:revoke''"
definition RolesList :: Permission where "RolesList = ''roles:list''"
definition RolesCreate :: Permission where "RolesCreate = ''roles:create''"
definition RolesDelete :: Permission where "RolesDelete = ''roles:delete''"
definition UsersRoles :: Permission where "UsersRoles = ''users:roles''"
definition EmailRead :: Permission where "EmailRead = ''email:read''"
definition EmailWrite :: Permission where "EmailWrite = ''email:write''"
definition EmailDelete :: Permission where "EmailDelete = ''email:delete''"

definition RoleViewer :: Role where "RoleViewer = ''viewer''"
definition RoleOperator :: Role where "RoleOperator = ''operator''"
definition RoleSuperAdmin :: Role where "RoleSuperAdmin = ''super_admin''"

definition ValidRoles :: "Role list" where
  "ValidRoles = [RoleViewer, RoleOperator, RoleSuperAdmin]"

definition IsValidRole :: "string \<Rightarrow> bool" where
  "IsValidRole r \<longleftrightarrow> r = RoleViewer \<or> r = RoleOperator \<or> r = RoleSuperAdmin"

definition viewerPerms :: "Permission list" where
  "viewerPerms =
     [KeysList, AuditRead, UsersList, UsersRead, SessionsList, ConfigRead, MetricsRead,
      RolesList, EmailRead]"

definition operatorPerms :: "Permission list" where
  "operatorPerms =
     [KeysRotate, UsersLock, UsersUnlock, UsersReset, UsersBan, SessionsRevoke, ClientsList,
      ClientsRead]"

definition superAdminPerms :: "Permission list" where
  "superAdminPerms =
     [KeysRevoke, UsersDelete, ClientsCreate, ClientsRevoke, ClientsRotate, ConfigWrite,
      AdminsManage, AdminsCreate, AdminsRevoke, RolesCreate, RolesDelete, UsersImport,
      UsersRoles, EmailWrite, EmailDelete]"

section \<open>The decision\<close>

text \<open>The cases of the Go switch fall through from the higher tier into the lower.\<close>

definition viewer_case :: "Permission \<Rightarrow> bool" where
  "viewer_case perm \<longleftrightarrow> perm \<in> set viewerPerms"

definition operator_case :: "Permission \<Rightarrow> bool" where
  "operator_case perm = (if perm \<in> set operatorPerms then True else viewer_case perm)"

definition super_admin_case :: "Permission \<Rightarrow> bool" where
  "super_admin_case perm = (if perm \<in> set superAdminPerms then True else operator_case perm)"

definition HasPermission :: "Role \<Rightarrow> Permission \<Rightarrow> bool" where
  "HasPermission role perm =
     (if role = RoleSuperAdmin then super_admin_case perm
      else if role = RoleOperator then operator_case perm
      else if role = RoleViewer then viewer_case perm
      else False)"

definition all_permissions :: "Permission list" where
  "all_permissions =
     [KeysList, KeysRotate, KeysRevoke, AuditRead, UsersList, UsersRead, UsersLock,
      UsersUnlock, UsersReset, UsersBan, UsersDelete, UsersImport, UsersRoles, SessionsList,
      SessionsRevoke, ClientsList, ClientsRead, ClientsCreate, ClientsRevoke, ClientsRotate,
      ConfigRead, ConfigWrite, MetricsRead, AdminsManage, AdminsCreate, AdminsRevoke,
      RolesList, RolesCreate, RolesDelete, EmailRead, EmailWrite, EmailDelete]"

definition PermissionsForRole :: "Role \<Rightarrow> Permission list" where
  "PermissionsForRole role = filter (HasPermission role) all_permissions"

section \<open>Evaluation\<close>

lemmas permission_values =
  KeysList_def KeysRotate_def KeysRevoke_def AuditRead_def UsersList_def UsersRead_def
  UsersLock_def UsersUnlock_def UsersReset_def UsersBan_def UsersDelete_def UsersImport_def
  SessionsList_def SessionsRevoke_def ClientsList_def ClientsRead_def ClientsCreate_def
  ClientsRevoke_def ClientsRotate_def ConfigRead_def ConfigWrite_def MetricsRead_def
  AdminsManage_def AdminsCreate_def AdminsRevoke_def RolesList_def RolesCreate_def
  RolesDelete_def UsersRoles_def EmailRead_def EmailWrite_def EmailDelete_def

lemmas role_values = RoleViewer_def RoleOperator_def RoleSuperAdmin_def

lemmas table_values = viewerPerms_def operatorPerms_def superAdminPerms_def all_permissions_def

text \<open>The verb of a permission is what follows its colon.\<close>

definition verb :: "Permission \<Rightarrow> string" where
  "verb p = tl (dropWhile (\<lambda>c. c \<noteq> CHR '':'') p)"

definition resource :: "Permission \<Rightarrow> string" where
  "resource p = takeWhile (\<lambda>c. c \<noteq> CHR '':'') p"

lemma tables_in_vocabulary:
  "set viewerPerms \<union> set operatorPerms \<union> set superAdminPerms = set all_permissions"
  by (auto simp: table_values)

lemma tiers: "HasPermission RoleViewer p \<longleftrightarrow> p \<in> set viewerPerms"
  "HasPermission RoleOperator p \<longleftrightarrow> p \<in> set viewerPerms \<union> set operatorPerms"
  "HasPermission RoleSuperAdmin p \<longleftrightarrow> p \<in> set viewerPerms \<union> set operatorPerms \<union> set superAdminPerms"
  by (auto simp: HasPermission_def viewer_case_def operator_case_def super_admin_case_def role_values)

lemma only_valid_roles: "HasPermission r p \<Longrightarrow> IsValidRole r"
  by (auto simp: HasPermission_def IsValidRole_def split: if_splits)

lemma PermissionsForRole_complete: "set (PermissionsForRole r) = {p. HasPermission r p}"
proof -
  have "p \<in> set all_permissions" if "HasPermission r p" for p
    using that only_valid_roles [OF that] tiers tables_in_vocabulary unfolding IsValidRole_def by blast
  then show ?thesis by (auto simp: PermissionsForRole_def)
qed

lemma tables_disjoint:
  "set viewerPerms \<inter> set operatorPerms = {}" "set operatorPerms \<inter> set superAdminPerms = {}"
  "set viewerPerms \<inter> set superAdminPerms = {}"
  by (auto simp: table_values permission_values)

text \<open>
  C39: The admin tiers form a strict chain and fail closed. Viewer is strictly below operator and
  operator strictly below super admin; a role that is not literally one of the three holds nothing;
  every permission of the viewer has the verb list or read; every permission on the admin accounts
  belongs to the super admin alone; and the listing of a role is exactly what the decision grants.
\<close>

theorem admin_tiers_strict_chain:
  "{p. HasPermission RoleViewer p} \<subset> {p. HasPermission RoleOperator p} \<and>
   {p. HasPermission RoleOperator p} \<subset> {p. HasPermission RoleSuperAdmin p} \<and>
   {r. \<exists>p. HasPermission r p} = set ValidRoles \<and>
   verb ` {p. HasPermission RoleViewer p} = {''list'', ''read''} \<and>
   {r. \<exists>p. HasPermission r p \<and> resource p = ''admins''} = {RoleSuperAdmin} \<and>
   (\<forall>r. set (PermissionsForRole r) = {p. HasPermission r p})"
proof (intro conjI)
  show "{p. HasPermission RoleViewer p} \<subset> {p. HasPermission RoleOperator p}"
    using tables_disjoint(1) unfolding tiers by (auto simp: operatorPerms_def)
  show "{p. HasPermission RoleOperator p} \<subset> {p. HasPermission RoleSuperAdmin p}"
    using tables_disjoint(2,3) unfolding tiers by (auto simp: superAdminPerms_def)
  have v: "HasPermission r KeysList" if "r \<in> set ValidRoles" for r
    using that tiers [of KeysList] by (auto simp: ValidRoles_def viewerPerms_def)
  then show "{r. \<exists>p. HasPermission r p} = set ValidRoles"
    using only_valid_roles by (auto simp: ValidRoles_def IsValidRole_def)
  show "verb ` {p. HasPermission RoleViewer p} = {''list'', ''read''}"
    unfolding tiers Collect_mem_eq by (auto simp: viewerPerms_def permission_values verb_def)
  have lower: "resource p \<noteq> ''admins''" if "p \<in> set viewerPerms \<union> set operatorPerms" for p
    using that by (auto simp: viewerPerms_def operatorPerms_def permission_values resource_def)
  have "HasPermission RoleSuperAdmin AdminsCreate" "resource AdminsCreate = ''admins''"
    by (simp_all add: tiers superAdminPerms_def AdminsCreate_def resource_def)
  moreover have "r = RoleSuperAdmin" if "HasPermission r p" "resource p = ''admins''" for r p
    using that only_valid_roles [OF that(1)] lower [of p] tiers [of p] unfolding IsValidRole_def by blast
  ultimately show "{r. \<exists>p. HasPermission r p \<and> resource p = ''admins''} = {RoleSuperAdmin}" by blast
  show "\<forall>r. set (PermissionsForRole r) = {p. HasPermission r p}"
    using PermissionsForRole_complete by blast
qed

end
