(* ===== verification/Go_Text.thy ===== *)
theory Go_Text
  imports Prelude
begin

text \<open>
  The parts of Go's \<open>strings\<close> and \<open>unicode/utf8\<close> packages the request code uses, on byte strings:
  decoding into runes, \<open>TrimSpace\<close>, \<open>Split\<close> and \<open>Join\<close> on a separator, prefixes and suffixes. A
  Go string is a list of bytes; an invalid byte decodes to a chunk of its own without a rune.
\<close>

section \<open>Runes\<close>

abbreviation byte :: "char \<Rightarrow> int" where
  "byte c \<equiv> of_char c"

definition continuation :: "int \<Rightarrow> int \<Rightarrow> int \<Rightarrow> bool" where
  "continuation lo hi b \<longleftrightarrow> lo \<le> b \<and> b \<le> hi"

text \<open>The first rune of a string and the bytes it takes, as \<open>utf8.DecodeRuneInString\<close> reads them:
  overlong forms, surrogates and truncated sequences are one invalid byte.\<close>

fun utf8_first :: "int list \<Rightarrow> int option \<times> nat" where
  "utf8_first [] = (None, 0)"
| "utf8_first (b0 # bs) =
     (if b0 < 0x80 then (Some b0, 1)
      else case bs of
        b1 # bs' \<Rightarrow>
          if 0xC2 \<le> b0 \<and> b0 \<le> 0xDF \<and> continuation 0x80 0xBF b1
          then (Some ((b0 - 0xC0) * 64 + (b1 - 0x80)), 2)
          else (case bs' of
            b2 # bs'' \<Rightarrow>
              if 0xE0 \<le> b0 \<and> b0 \<le> 0xEF \<and> continuation 0x80 0xBF b2 \<and>
                 continuation (if b0 = 0xE0 then 0xA0 else 0x80) (if b0 = 0xED then 0x9F else 0xBF) b1
              then (Some ((b0 - 0xE0) * 4096 + (b1 - 0x80) * 64 + (b2 - 0x80)), 3)
              else (case bs'' of
                b3 # _ \<Rightarrow>
                  if 0xF0 \<le> b0 \<and> b0 \<le> 0xF4 \<and> continuation 0x80 0xBF b2 \<and> continuation 0x80 0xBF b3 \<and>
                     continuation (if b0 = 0xF0 then 0x90 else 0x80) (if b0 = 0xF4 then 0x8F else 0xBF) b1
                  then (Some ((b0 - 0xF0) * 262144 + (b1 - 0x80) * 4096 + (b2 - 0x80) * 64 + (b3 - 0x80)), 4)
                  else (None, 1)
              | [] \<Rightarrow> (None, 1))
          | [] \<Rightarrow> (None, 1))
      | [] \<Rightarrow> (None, 1))"

definition first_rune :: "string \<Rightarrow> int option \<times> nat" where
  "first_rune s = utf8_first (map byte (take 4 s))"

function runes :: "string \<Rightarrow> (int option \<times> string) list" where
  "runes s =
     (if s = [] then []
      else case first_rune s of (r, w) \<Rightarrow> (r, take (max 1 w) s) # runes (drop (max 1 w) s))"
  by pat_completeness auto
termination
  by (relation "measure length") auto

declare runes.simps [simp del]

lemma runes_Nil [simp]: "runes [] = []"
  by (simp add: runes.simps)

definition unrunes :: "(int option \<times> string) list \<Rightarrow> string" where
  "unrunes rs = concat (map snd rs)"

text \<open>Decoding loses no byte.\<close>

lemma unrunes_runes [simp]: "unrunes (runes s) = s"
proof (induction s rule: runes.induct)
  case (1 s)
  show ?case
  proof (cases "s = []")
    case False
    obtain r w where fr: "first_rune s = (r, w)" by fastforce
    have "unrunes (runes (drop (max 1 w) s)) = drop (max 1 w) s"
      using 1 [OF False fr [symmetric]] fr by simp
    then show ?thesis
      using False fr by (subst runes.simps) (simp add: unrunes_def)
  qed (simp add: unrunes_def)
qed

text \<open>ASCII text is one rune per byte.\<close>

lemma runes_ascii: "\<forall>c \<in> set s. byte c < 0x80 \<Longrightarrow> runes s = map (\<lambda>c. (Some (byte c), [c])) s"
proof (induction s)
  case (Cons c s)
  then have "first_rune (c # s) = (Some (byte c), 1)" by (simp add: first_rune_def)
  with Cons show ?case by (subst runes.simps) simp
qed simp

definition IsSpace :: "int \<Rightarrow> bool" where
  "IsSpace r \<longleftrightarrow> r \<in> {0x09, 0x0A, 0x0B, 0x0C, 0x0D, 0x20, 0x85, 0xA0, 0x1680, 0x2028, 0x2029, 0x202F, 0x205F, 0x3000} \<or>
     0x2000 \<le> r \<and> r \<le> 0x200A"

definition space_chunk :: "int option \<times> string \<Rightarrow> bool" where
  "space_chunk ch = (case fst ch of None \<Rightarrow> False | Some r \<Rightarrow> IsSpace r)"

definition TrimSpace :: "string \<Rightarrow> string" where
  "TrimSpace s = unrunes (rev (dropWhile space_chunk (rev (dropWhile space_chunk (runes s)))))"

section \<open>Separators\<close>

fun split_on :: "char \<Rightarrow> string \<Rightarrow> string list" where
  "split_on c [] = [[]]"
| "split_on c (x # xs) =
     (if x = c then [] # split_on c xs
      else case split_on c xs of [] \<Rightarrow> [[x]] | h # t \<Rightarrow> (x # h) # t)"

fun join_with :: "string \<Rightarrow> string list \<Rightarrow> string" where
  "join_with sep [] = []"
| "join_with sep [x] = x"
| "join_with sep (x # y # ys) = x @ sep @ join_with sep (y # ys)"

lemma split_on_nonempty [simp]: "split_on c s \<noteq> []"
  by (induction s) (auto split: list.splits)

lemma split_on_append: "split_on c (a @ c # b) = split_on c a @ split_on c b"
proof (induction a)
  case (Cons x a)
  then show ?case by (cases "split_on c a") auto
qed simp

lemma split_on_join:
  "xs \<noteq> [] \<Longrightarrow> \<forall>x \<in> set xs. c \<notin> set x \<Longrightarrow> split_on c (join_with [c] xs) = xs"
proof (induction xs rule: induct_list012)
  case (2 x)
  have "c \<notin> set x \<Longrightarrow> split_on c x = [x]" for x
    by (induction x) auto
  with 2 show ?case by simp
next
  case (3 x y zs)
  have "c \<notin> set x \<Longrightarrow> split_on c x = [x]" for x
    by (induction x) auto
  with 3 show ?case by (simp add: split_on_append)
qed simp

definition HasPrefix :: "string \<Rightarrow> string \<Rightarrow> bool" where
  "HasPrefix s p \<longleftrightarrow> take (length p) s = p"

definition HasSuffix :: "string \<Rightarrow> string \<Rightarrow> bool" where
  "HasSuffix s p \<longleftrightarrow> length p \<le> length s \<and> drop (length s - length p) s = p"

definition TrimPrefix :: "string \<Rightarrow> string \<Rightarrow> string" where
  "TrimPrefix s p = (if HasPrefix s p then drop (length p) s else s)"

definition TrimSuffix :: "string \<Rightarrow> string \<Rightarrow> string" where
  "TrimSuffix s p = (if HasSuffix s p then take (length s - length p) s else s)"

text \<open>\<open>strings.Cut\<close> on a one-byte separator: the parts around its first occurrence.\<close>

definition cut_at :: "char \<Rightarrow> string \<Rightarrow> (string \<times> string) option" where
  "cut_at c s = (if c \<in> set s then Some (takeWhile (\<lambda>x. x \<noteq> c) s, tl (dropWhile (\<lambda>x. x \<noteq> c) s)) else None)"

definition last_index :: "char \<Rightarrow> string \<Rightarrow> nat option" where
  "last_index c s = (if c \<in> set s then Some (length s - Suc (length (takeWhile (\<lambda>x. x \<noteq> c) (rev s)))) else None)"

definition index_of :: "char \<Rightarrow> string \<Rightarrow> nat option" where
  "index_of c s = (if c \<in> set s then Some (length (takeWhile (\<lambda>x. x \<noteq> c) s)) else None)"

section \<open>Hexadecimal digits\<close>

definition hex_digit :: "char \<Rightarrow> int option" where
  "hex_digit c =
     (let b = byte c in
      if 48 \<le> b \<and> b \<le> 57 then Some (b - 48)
      else if 97 \<le> b \<and> b \<le> 102 then Some (b - 97 + 10)
      else if 65 \<le> b \<and> b \<le> 70 then Some (b - 65 + 10)
      else None)"

definition hex_value :: "string \<Rightarrow> int" where
  "hex_value ds = foldl (\<lambda>acc c. acc * 16 + (case hex_digit c of None \<Rightarrow> 0 | Some d \<Rightarrow> d)) 0 ds"

end
