(* ===== verification/Ip_Addr.thy ===== *)
theory Ip_Addr
  imports Go_Text
begin

text \<open>
  Addresses as Go's \<open>net\<close> and \<open>net/netip\<close> packages read and print them: \<open>ParseIP\<close>, \<open>ParseCIDR\<close>,
  \<open>IPNet.Contains\<close>, \<open>IP.String\<close> and \<open>SplitHostPort\<close>. An address is the list of its bytes, 16 of
  them for a parsed one; an IPv4 address is carried in the IPv4-mapped form.
\<close>

unbundle bit_operations_syntax

section \<open>Parsing\<close>

type_synonym IP = "int list"

definition v4InV6Prefix :: IP where
  "v4InV6Prefix = replicate 10 0 @ [0xff, 0xff]"

text \<open>\<open>parseIPv4Fields\<close>: \<open>fs\<close> are the finished octets in reverse, \<open>start\<close> says that no digit of the
  current one was read.\<close>

fun v4_loop :: "string \<Rightarrow> int \<Rightarrow> nat \<Rightarrow> int list \<Rightarrow> bool \<Rightarrow> int list option" where
  "v4_loop [] val digLen fs start = (if length fs < 3 then None else Some (rev (val # fs)))"
| "v4_loop (c # cs) val digLen fs start =
     (if is_digit c then
        if digLen = 1 \<and> val = 0 then None
        else let v = val * 10 + int (digit_val c) in
          if 255 < v then None else v4_loop cs v (digLen + 1) fs False
      else if c = CHR ''.'' then
        if start \<or> cs = [] then None
        else if length fs = 3 then None
        else v4_loop cs 0 0 (val # fs) True
      else None)"

definition parseIPv4 :: "string \<Rightarrow> IP option" where
  "parseIPv4 s = v4_loop s 0 0 [] True"

text \<open>The loop of \<open>parseIPv6\<close>: the rest of the text, the bytes read so far and the position of the
  ellipsis. It ends with what is left of the text when it stops.\<close>

function v6_loop :: "string \<Rightarrow> int list \<Rightarrow> nat option \<Rightarrow> (string \<times> int list \<times> nat option) option" where
  "v6_loop s ip ell =
     (if 16 \<le> length ip then Some (s, ip, ell)
      else let ds = takeWhile (\<lambda>c. hex_digit c \<noteq> None) s; rest = drop (length ds) s; acc = hex_value ds in
        if ds = [] \<or> 4 < length ds then None
        else if rest \<noteq> [] \<and> hd rest = CHR ''.'' then
          if ell = None \<and> length ip \<noteq> 12 then None
          else if 16 < length ip + 4 then None
          else (case parseIPv4 s of None \<Rightarrow> None | Some b \<Rightarrow> Some ([], ip @ b, ell))
        else let ip' = ip @ [acc div 256, acc mod 256] in
          if rest = [] then Some ([], ip', ell)
          else if hd rest \<noteq> CHR '':'' then None
          else if length rest = 1 then None
          else let s' = tl rest in
            if hd s' = CHR '':'' then
              if ell \<noteq> None then None
              else if tl s' = [] then Some ([], ip', Some (length ip'))
              else v6_loop (tl s') ip' (Some (length ip'))
            else v6_loop s' ip' ell)"
  by pat_completeness auto
termination
  by (relation "measure (\<lambda>(s, ip, ell). 16 - length ip)") auto

declare v6_loop.simps [simp del]

definition parseIPv6 :: "string \<Rightarrow> IP option" where
  "parseIPv6 s =
     (let lead = HasPrefix s ''::''; s1 = (if lead then drop 2 s else s) in
      if lead \<and> s1 = [] then Some (replicate 16 0)
      else case v6_loop s1 [] (if lead then Some 0 else None) of
        None \<Rightarrow> None
      | Some (rest, ip, ell) \<Rightarrow>
          if rest \<noteq> [] then None
          else if length ip < 16 then
            (case ell of
               None \<Rightarrow> None
             | Some e \<Rightarrow> Some (take e ip @ replicate (16 - length ip) 0 @ drop e ip))
          else if ell \<noteq> None then None else Some ip)"

text \<open>\<open>netip.ParseAddr\<close> with the zone refused, as \<open>net.ParseIP\<close> and \<open>net.ParseCIDR\<close> use it: the bit
  length of the family and the 16 bytes.\<close>

definition ParseAddr :: "string \<Rightarrow> (nat \<times> IP) option" where
  "ParseAddr s =
     (case dropWhile (\<lambda>c. c \<noteq> CHR ''.'' \<and> c \<noteq> CHR '':'' \<and> c \<noteq> CHR ''%'') s of
        [] \<Rightarrow> None
      | c # _ \<Rightarrow>
          if c = CHR ''.'' then map_option (\<lambda>b. (32, v4InV6Prefix @ b)) (parseIPv4 s)
          else if c = CHR '':'' then
            if CHR ''%'' \<in> set s then None else map_option (\<lambda>b. (128, b)) (parseIPv6 s)
          else None)"

definition ParseIP :: "string \<Rightarrow> IP option" where
  "ParseIP s = map_option snd (ParseAddr s)"

definition To4 :: "IP \<Rightarrow> IP option" where
  "To4 ip =
     (if length ip = 4 then Some ip
      else if length ip = 16 \<and> take 12 ip = v4InV6Prefix then Some (drop 12 ip)
      else None)"

section \<open>Networks\<close>

record IPNet =
  net_IP :: IP
  net_Mask :: "int list"

definition CIDRMask :: "nat \<Rightarrow> nat \<Rightarrow> int list" where
  "CIDRMask ones bits =
     map (\<lambda>i. if 8 * (i + 1) \<le> ones then 0xff
              else if ones \<le> 8 * i then 0
              else 0xff - 0xff div 2 ^ (ones - 8 * i)) [0..<bits div 8]"

text \<open>\<open>IP.Mask\<close>: an IPv4-mapped address under a 4-byte mask gives the 4-byte address.\<close>

definition ip_Mask :: "IP \<Rightarrow> int list \<Rightarrow> IP option" where
  "ip_Mask ip msk =
     (let mk = (if length msk = 16 \<and> length ip = 4 \<and> list_all (\<lambda>b. b = 0xff) (take 12 msk)
                   then drop 12 msk else msk);
          ip' = (if length mk = 4 \<and> length ip = 16 \<and> take 12 ip = v4InV6Prefix then drop 12 ip else ip)
      in if length ip' \<noteq> length mk then None else Some (map2 (\<lambda>a b. a AND b) ip' mk))"

text \<open>\<open>dtoi\<close>: the number a run of digits denotes and whether the text is exactly that run.\<close>

fun dtoi :: "string \<Rightarrow> int \<Rightarrow> int option" where
  "dtoi [] n = Some n"
| "dtoi (c # cs) n =
     (if \<not> is_digit c then None
      else let n' = n * 10 + int (digit_val c) in if 0xFFFFFF \<le> n' then None else dtoi cs n')"

definition ParseCIDR :: "string \<Rightarrow> IPNet option" where
  "ParseCIDR s =
     (case cut_at (CHR ''/'') s of
        None \<Rightarrow> None
      | Some (addr, msk) \<Rightarrow>
          (case ParseAddr addr of
             None \<Rightarrow> None
           | Some (bits, ip) \<Rightarrow>
               (case (if msk = [] then None else dtoi msk 0) of
                  None \<Rightarrow> None
                | Some n \<Rightarrow>
                    if int bits < n then None
                    else let m = CIDRMask (nat n) bits in
                      (case ip_Mask ip m of
                         None \<Rightarrow> None
                       | Some nip \<Rightarrow> Some \<lparr> net_IP = nip, net_Mask = m \<rparr>))))"

definition networkNumberAndMask :: "IPNet \<Rightarrow> (IP \<times> int list) option" where
  "networkNumberAndMask n =
     (let ip = (case To4 (net_IP n) of Some x \<Rightarrow> x | None \<Rightarrow> net_IP n); m = net_Mask n in
      if length ip \<noteq> 4 \<and> length ip \<noteq> 16 then None
      else if length m = 4 then (if length ip \<noteq> 4 then None else Some (ip, m))
      else if length m = 16 then Some (ip, if length ip = 4 then drop 12 m else m)
      else None)"

definition net_Contains :: "IPNet \<Rightarrow> IP \<Rightarrow> bool" where
  "net_Contains n ip =
     (case networkNumberAndMask n of
        None \<Rightarrow> ip = []
      | Some (nn, m) \<Rightarrow>
          let x = (case To4 ip of Some x \<Rightarrow> x | None \<Rightarrow> ip) in
          length x = length nn \<and> list_all (\<lambda>(a, b, k). a AND k = b AND k) (zip nn (zip x m)))"

section \<open>Printing\<close>

definition hex_char :: "int \<Rightarrow> char" where
  "hex_char d = char_of (if d < 10 then 48 + d else 87 + d)"

text \<open>A group without leading zeros.\<close>

definition group_text :: "int \<Rightarrow> string" where
  "group_text g =
     (if 0x1000 \<le> g then [hex_char (g div 4096)] else []) @
     (if 0x100 \<le> g then [hex_char (g div 256 mod 16)] else []) @
     (if 0x10 \<le> g then [hex_char (g div 16 mod 16)] else []) @ [hex_char (g mod 16)]"

definition groups :: "IP \<Rightarrow> int list" where
  "groups ip = map (\<lambda>i. ip ! (2 * i) * 256 + ip ! (2 * i + 1)) [0..<8]"

definition zero_run :: "int list \<Rightarrow> nat \<Rightarrow> nat" where
  "zero_run gs i = length (takeWhile (\<lambda>g. g = 0) (drop i gs))"

definition longest_zeros :: "int list \<Rightarrow> nat \<times> nat" where
  "longest_zeros gs =
     foldl (\<lambda>(zs, ze) i. let l = zero_run gs i in if 2 \<le> l \<and> ze - zs < l then (i, i + l) else (zs, ze))
       (255, 255) [0..<8]"

text \<open>The printing loop from group \<open>i\<close>; every round prints at least one of the eight groups.\<close>

fun v6_text :: "nat \<Rightarrow> int list \<Rightarrow> nat \<Rightarrow> nat \<Rightarrow> nat \<Rightarrow> string" where
  "v6_text 0 gs zs ze i = []"
| "v6_text (Suc n) gs zs ze i =
     (if 8 \<le> i then []
      else if i = zs then ''::'' @ (if 8 \<le> ze then [] else group_text (gs ! ze) @ v6_text n gs zs ze (ze + 1))
      else (if 0 < i then '':'' else []) @ group_text (gs ! i) @ v6_text n gs zs ze (i + 1))"

definition v4_text :: "IP \<Rightarrow> string" where
  "v4_text b = join_with ''.'' (map FormatInt b)"

definition ip_String :: "IP \<Rightarrow> string" where
  "ip_String ip =
     (case To4 ip of
        Some b \<Rightarrow> v4_text b
      | None \<Rightarrow> (case longest_zeros (groups ip) of (zs, ze) \<Rightarrow> v6_text 8 (groups ip) zs ze 0))"

section \<open>Host and port\<close>

definition SplitHostPort :: "string \<Rightarrow> (string \<times> string) option" where
  "SplitHostPort hp =
     (case last_index (CHR '':'') hp of
        None \<Rightarrow> None
      | Some i \<Rightarrow>
          if hd hp = CHR ''['' then
            (case index_of (CHR '']'') hp of
               None \<Rightarrow> None
             | Some e \<Rightarrow>
                 if e + 1 \<noteq> i then None
                 else if CHR ''['' \<in> set (drop 1 hp) \<or> CHR '']'' \<in> set (drop (e + 1) hp) then None
                 else Some (drop 1 (take e hp), drop (i + 1) hp))
          else let host = take i hp in
            if CHR '':'' \<in> set host then None
            else if CHR ''['' \<in> set hp \<or> CHR '']'' \<in> set hp then None
            else Some (host, drop (i + 1) hp))"

end
