(* ===== verification/Client_Ip.thy ===== *)
theory Client_Ip
  imports Ip_Addr
begin

text \<open>
  Which address a request is attributed to: the trusted-proxy list, the real-IP header, the walk over
  \<open>X-Forwarded-For\<close> and the TLS fingerprint header of \<open>internal/middleware/ratelimit.go\<close>, and the
  log-safe renderings of \<open>internal/httputil/safelog.go\<close>. The package globals are the fields of a
  record; a request is its peer address, its path and its header lines in order.
\<close>

section \<open>Requests\<close>

text \<open>\<open>textproto.CanonicalMIMEHeaderKey\<close>: a key with a byte outside the token alphabet is left alone.\<close>

definition token_byte :: "char \<Rightarrow> bool" where
  "token_byte c \<longleftrightarrow> is_digit c \<or> (65 \<le> byte c \<and> byte c \<le> 90) \<or> (97 \<le> byte c \<and> byte c \<le> 122) \<or>
     c \<in> set ''!#$%&*+-.^_`|~'' \<or> byte c = 39"

definition upper_byte :: "char \<Rightarrow> char" where
  "upper_byte c = (if 97 \<le> byte c \<and> byte c \<le> 122 then char_of (byte c - 32) else c)"

definition lower_byte :: "char \<Rightarrow> char" where
  "lower_byte c = (if 65 \<le> byte c \<and> byte c \<le> 90 then char_of (byte c + 32) else c)"

fun canonical_from :: "bool \<Rightarrow> string \<Rightarrow> string" where
  "canonical_from up [] = []"
| "canonical_from up (c # cs) = (if up then upper_byte c else lower_byte c) # canonical_from (c = CHR ''-'') cs"

definition CanonicalHeaderKey :: "string \<Rightarrow> string" where
  "CanonicalHeaderKey h = (if list_all token_byte h then canonical_from True h else h)"

record http_request =
  hr_remoteAddr :: string
  hr_path :: string
  hr_header :: "(string \<times> string) list"

definition header_Values :: "http_request \<Rightarrow> string \<Rightarrow> string list" where
  "header_Values r h = map snd (filter (\<lambda>(k, v). k = CanonicalHeaderKey h) (hr_header r))"

definition header_Get :: "http_request \<Rightarrow> string \<Rightarrow> string" where
  "header_Get r h = (case header_Values r h of [] \<Rightarrow> [] | v # _ \<Rightarrow> v)"

section \<open>Trusted proxies\<close>

record proxy_config =
  px_trusted :: "IPNet list"
  px_realIPHeader :: string
  px_tlsFingerprintHeader :: string

definition bare_to_cidr :: "string \<Rightarrow> string" where
  "bare_to_cidr p =
     (if CHR ''/'' \<in> set p then p else if CHR '':'' \<in> set p then p @ ''/128'' else p @ ''/32'')"

definition SetTrustedProxies :: "proxy_config \<Rightarrow> string list \<Rightarrow> proxy_config" where
  "SetTrustedProxies cfg proxies = cfg\<lparr> px_trusted := List.map_filter (\<lambda>p. ParseCIDR (bare_to_cidr p)) proxies \<rparr>"

definition stripPort :: "string \<Rightarrow> string" where
  "stripPort addr = (case SplitHostPort addr of Some (host, _) \<Rightarrow> host | None \<Rightarrow> addr)"

definition isTrustedProxy :: "proxy_config \<Rightarrow> string \<Rightarrow> bool" where
  "isTrustedProxy cfg ipStr =
     (case ParseIP ipStr of
        None \<Rightarrow> False
      | Some ip \<Rightarrow> list_ex (\<lambda>cidr. net_Contains cidr ip) (px_trusted cfg))"

definition TLSFingerprint :: "proxy_config \<Rightarrow> http_request \<Rightarrow> string" where
  "TLSFingerprint cfg r =
     (let h = px_tlsFingerprintHeader cfg in
      if h = [] then []
      else if \<not> isTrustedProxy cfg (stripPort (hr_remoteAddr r)) then []
      else TrimSpace (header_Get r h))"

section \<open>The client address\<close>

definition normalizeIP :: "string \<Rightarrow> string" where
  "normalizeIP v0 =
     (let v = TrimSpace v0 in
      if v = [] then []
      else let v1 = (case SplitHostPort v of Some (host, _) \<Rightarrow> TrimSpace host | None \<Rightarrow> v);
               v2 = TrimSuffix (TrimPrefix v1 ''['') '']''
           in (case ParseIP v2 of None \<Rightarrow> [] | Some ip \<Rightarrow> ip_String ip))"

definition maxXFFHops :: nat where
  "maxXFFHops = 32"

definition last_hops :: "string list \<Rightarrow> string list" where
  "last_hops parts = (if maxXFFHops < length parts then drop (length parts - maxXFFHops) parts else parts)"

fun last_value :: "string list \<Rightarrow> string" where
  "last_value [] = []"
| "last_value (p # ps) = (if TrimSpace p = [] then last_value ps else normalizeIP p)"

definition lastRealIP :: "string \<Rightarrow> string" where
  "lastRealIP v = last_value (rev (last_hops (split_on (CHR '','') v)))"

text \<open>The walk, over the hops from right to left: the first that is an address and no trusted proxy.\<close>

fun xff_walk :: "proxy_config \<Rightarrow> string list \<Rightarrow> string option" where
  "xff_walk cfg [] = None"
| "xff_walk cfg (p # ps) =
     (let ip = normalizeIP p in
      if ip = [] then xff_walk cfg ps
      else if \<not> isTrustedProxy cfg ip then Some ip
      else xff_walk cfg ps)"

definition real_ip :: "proxy_config \<Rightarrow> http_request \<Rightarrow> string" where
  "real_ip cfg r =
     (let h = px_realIPHeader cfg in
      if h = [] then []
      else case header_Values r h of [] \<Rightarrow> [] | v # vs \<Rightarrow> lastRealIP (last (v # vs)))"

definition ClientIP :: "proxy_config \<Rightarrow> http_request \<Rightarrow> string" where
  "ClientIP cfg r =
     (let remoteIP = stripPort (hr_remoteAddr r) in
      if px_trusted cfg = [] then remoteIP
      else if \<not> isTrustedProxy cfg remoteIP then remoteIP
      else if real_ip cfg r \<noteq> [] then real_ip cfg r
      else let xff = join_with '','' (header_Values r ''X-Forwarded-For'') in
        if xff = [] then remoteIP
        else let parts = split_on (CHR '','') xff;
                 truncated = (maxXFFHops < length parts);
                 hops = last_hops parts
             in (case xff_walk cfg (rev hops) of
                   Some ip \<Rightarrow> ip
                 | None \<Rightarrow>
                     if \<not> truncated \<and> normalizeIP (hd hops) \<noteq> [] then normalizeIP (hd hops)
                     else remoteIP))"

section \<open>Log-safe values\<close>

definition unsafe_rune :: "int \<Rightarrow> bool" where
  "unsafe_rune r \<longleftrightarrow> r < 0x20 \<or> r = 0x7f \<or> (0x80 \<le> r \<and> r \<le> 0x9f) \<or> r = 0x2028 \<or> r = 0x2029"

text \<open>\<open>strings.Map\<close> writes an invalid byte as U+FFFD.\<close>

definition safe_chunk :: "int option \<times> string \<Rightarrow> string" where
  "safe_chunk ch =
     (case fst ch of
        None \<Rightarrow> [CHR 0xEF, CHR 0xBF, CHR 0xBD]
      | Some r \<Rightarrow> if unsafe_rune r then ''_'' else snd ch)"

definition SafeLogValue :: "string \<Rightarrow> string" where
  "SafeLogValue s = concat (map safe_chunk (runes s))"

definition ObfuscatedIP :: "string \<Rightarrow> string" where
  "ObfuscatedIP s0 =
     (let s = TrimSpace s0;
          ip = (case ParseIP s of
                  Some ip \<Rightarrow> Some ip
                | None \<Rightarrow> (case SplitHostPort s of Some (host, _) \<Rightarrow> ParseIP host | None \<Rightarrow> None))
      in case ip of
           None \<Rightarrow> ''invalid_ip''
         | Some b \<Rightarrow>
             (case To4 b of
                Some v4 \<Rightarrow> (case ip_Mask v4 (CIDRMask 24 32) of Some m \<Rightarrow> ip_String m | None \<Rightarrow> ''<nil>'')
              | None \<Rightarrow> (case ip_Mask b (CIDRMask 64 128) of Some m \<Rightarrow> ip_String m | None \<Rightarrow> ''<nil>'')))"

section \<open>Headers of an untrusted peer\<close>

lemma untrusted_ClientIP:
  "\<not> isTrustedProxy cfg (stripPort (hr_remoteAddr r)) \<Longrightarrow> ClientIP cfg r = stripPort (hr_remoteAddr r)"
  by (simp add: ClientIP_def Let_def)

lemma untrusted_TLSFingerprint:
  "\<not> isTrustedProxy cfg (stripPort (hr_remoteAddr r)) \<Longrightarrow> TLSFingerprint cfg r = []"
  by (simp add: TLSFingerprint_def Let_def)

lemma no_proxies_untrusted: "px_trusted cfg = [] \<Longrightarrow> \<not> isTrustedProxy cfg a"
  by (simp add: isTrustedProxy_def split: option.splits)

section \<open>A client cannot choose its address\<close>

lemma last_hops_suffix:
  "length hops \<le> maxXFFHops \<Longrightarrow> \<exists>pre. last_hops (parts @ hops) = pre @ hops"
  by (auto simp: last_hops_def)

lemma xff_walk_append: "xff_walk cfg xs = Some ip \<Longrightarrow> xff_walk cfg (xs @ ys) = Some ip"
  by (induction xs) (auto simp: Let_def split: if_splits)

lemma xff_walk_proxies:
  assumes "list_all (\<lambda>p. normalizeIP p = [] \<or> isTrustedProxy cfg (normalizeIP p)) ps"
  shows "xff_walk cfg (ps @ qs) = xff_walk cfg qs"
  using assms by (induction ps) (auto simp: Let_def)

lemma join_with_comma_nonempty: "join_with '','' (x # y # ys) \<noteq> []"
  by simp


definition sample_proxies :: proxy_config where
  "sample_proxies = SetTrustedProxies \<lparr> px_trusted = [], px_realIPHeader = [], px_tlsFingerprintHeader = [] \<rparr> [''10.0.0.0/8'']"

definition sample_request :: http_request where
  "sample_request = \<lparr> hr_remoteAddr = ''10.0.0.7:4711'', hr_path = ''/auth/login'',
     hr_header = [(''X-Forwarded-For'', ''1.1.1.1''), (''X-Forwarded-For'', ''203.0.113.9, 10.0.0.3'')] \<rparr>"


text \<open>The real-IP header: only the element the proxy appended counts.\<close>

lemma lastRealIP_appended:
  assumes "CHR '','' \<notin> set x" and "TrimSpace x \<noteq> []"
  shows "lastRealIP (spoof @ '','' @ x) = normalizeIP x"
proof -
  have "split_on (CHR '','') x = [x]"
    using split_on_join [of "[x]" "CHR '',''"] assms(1) by simp
  then have "split_on (CHR '','') (spoof @ '','' @ x) = split_on (CHR '','') spoof @ [x]"
    by (simp add: split_on_append)
  moreover obtain pre where "last_hops (split_on (CHR '','') spoof @ [x]) = pre @ [x]"
    using last_hops_suffix [of "[x]"] by (auto simp: maxXFFHops_def)
  ultimately show ?thesis
    using assms(2) by (simp add: lastRealIP_def)
qed

end
