(* ===== verification/Ip_Access.thy ===== *)
theory Ip_Access
  imports Client_Ip Roles
begin

text \<open>
  \<open>internal/middleware/ipaccess.go\<close>: the address and country fences in front of every route. The
  package globals are a record, the two refusing functions answer with the reason they log, and the
  middleware answers whether the request goes on. \<open>strings.ToUpper\<close> outside ASCII is the argument
  \<open>up\<close>.
\<close>

section \<open>Lists\<close>

record access_lists =
  al_allow :: "IPNet list"
  al_block :: "IPNet list"
  al_geoAllow :: "string list"
  al_geoBlock :: "string list"
  al_geoHeader :: string

definition ToUpper :: "(string \<Rightarrow> string) \<Rightarrow> string \<Rightarrow> string" where
  "ToUpper up s = (if is_ascii s then map upper_byte s else up s)"

definition parse_entry :: "string \<Rightarrow> IPNet option" where
  "parse_entry e0 = (let e = TrimSpace e0 in if e = [] then None else ParseCIDR (bare_to_cidr e))"

definition parseCIDRList :: "string list \<Rightarrow> IPNet list" where
  "parseCIDRList entries = List.map_filter parse_entry entries"

definition SetIPAccessLists ::
  "(string \<Rightarrow> string) \<Rightarrow> string list \<Rightarrow> string list \<Rightarrow> string list \<Rightarrow> string list \<Rightarrow> string \<Rightarrow> access_lists" where
  "SetIPAccessLists up ipAllow ipBlock geoAllow geoBlock geoHeader =
     \<lparr> al_allow = parseCIDRList ipAllow, al_block = parseCIDRList ipBlock,
       al_geoAllow = remdups (map (\<lambda>c. ToUpper up (TrimSpace c)) geoAllow),
       al_geoBlock = remdups (map (\<lambda>c. ToUpper up (TrimSpace c)) geoBlock),
       al_geoHeader = TrimSpace geoHeader \<rparr>"

text \<open>\<open>IPNet.String\<close>: the number of leading ones of a canonical mask, else the mask in hex.\<close>

definition byte_ones :: "int \<Rightarrow> nat" where
  "byte_ones b = length (takeWhile (\<lambda>i. b div 2 ^ (7 - i) mod 2 = 1) [0..<8])"

fun simpleMaskLength :: "int list \<Rightarrow> nat option" where
  "simpleMaskLength [] = Some 0"
| "simpleMaskLength (b # bs) =
     (if b = 0xff then map_option (\<lambda>n. n + 8) (simpleMaskLength bs)
      else let n = byte_ones b in
        if b = 0xff - 0xff div 2 ^ n \<and> list_all (\<lambda>x. x = 0) bs then Some n else None)"

definition net_String :: "IPNet \<Rightarrow> string" where
  "net_String n =
     (case networkNumberAndMask n of
        None \<Rightarrow> ''<nil>''
      | Some (nn, m) \<Rightarrow>
          ip_String nn @ ''/'' @
          (case simpleMaskLength m of
             Some l \<Rightarrow> FormatInt (int l)
           | None \<Rightarrow> concat (map (\<lambda>b. [hex_char (b div 16), hex_char (b mod 16)]) m)))"

definition containsCIDR :: "IPNet list \<Rightarrow> IPNet \<Rightarrow> bool" where
  "containsCIDR xs target = list_ex (\<lambda>c. net_String c = net_String target) xs"

definition AddToIPBlocklist :: "access_lists \<Rightarrow> string list \<Rightarrow> access_lists \<times> nat" where
  "AddToIPBlocklist al entries =
     (let parsed = parseCIDRList entries in
      if parsed = [] then (al, 0)
      else let new = filter (\<lambda>c. \<not> containsCIDR (al_block al) c) parsed in
        if 0 < length new then (al\<lparr> al_block := al_block al @ new \<rparr>, length new) else (al, 0))"

definition RemoveFromIPBlocklist :: "access_lists \<Rightarrow> string list \<Rightarrow> access_lists \<times> nat" where
  "RemoveFromIPBlocklist al entries =
     (let parsed = parseCIDRList entries in
      if parsed = [] then (al, 0)
      else if al_block al = [] then (al, 0)
      else let removeSet = map net_String parsed;
               gone = filter (\<lambda>c. net_String c \<in> set removeSet) (al_block al)
           in if 0 < length gone
              then (al\<lparr> al_block := filter (\<lambda>c. net_String c \<notin> set removeSet) (al_block al) \<rparr>, length gone)
              else (al, 0))"

section \<open>Decisions\<close>

datatype deny_reason =
    UnparseableIP | NotInAllowlist | InBlocklist | CountryUnknown | GeoNotAllowed | GeoBlocked

definition denyByCIDR :: "access_lists \<Rightarrow> string \<Rightarrow> deny_reason option" where
  "denyByCIDR al clientIP =
     (if al_allow al = [] \<and> al_block al = [] then None
      else case ParseIP clientIP of
        None \<Rightarrow> Some UnparseableIP
      | Some ip \<Rightarrow>
          if al_allow al \<noteq> [] \<and> \<not> list_ex (\<lambda>cidr. net_Contains cidr ip) (al_allow al) then Some NotInAllowlist
          else if list_ex (\<lambda>cidr. net_Contains cidr ip) (al_block al) then Some InBlocklist
          else None)"

definition request_country :: "(string \<Rightarrow> string) \<Rightarrow> proxy_config \<Rightarrow> access_lists \<Rightarrow> http_request \<Rightarrow> string" where
  "request_country up cfg al r =
     (if isTrustedProxy cfg (stripPort (hr_remoteAddr r))
      then ToUpper up (TrimSpace (header_Get r (al_geoHeader al))) else [])"

definition denyByGeo ::
  "(string \<Rightarrow> string) \<Rightarrow> proxy_config \<Rightarrow> access_lists \<Rightarrow> http_request \<Rightarrow> deny_reason option" where
  "denyByGeo up cfg al r =
     (if al_geoHeader al = [] \<or> (al_geoAllow al = [] \<and> al_geoBlock al = []) then None
      else let country = request_country up cfg al r in
        if country = [] then (if al_geoAllow al \<noteq> [] then Some CountryUnknown else None)
        else if al_geoAllow al \<noteq> [] \<and> country \<notin> set (al_geoAllow al) then Some GeoNotAllowed
        else if al_geoBlock al \<noteq> [] \<and> country \<in> set (al_geoBlock al) then Some GeoBlocked
        else None)"

text \<open>\<open>None\<close> hands the request on; \<open>Some\<close> is the 403 with its reason.\<close>

definition IPAccess ::
  "(string \<Rightarrow> string) \<Rightarrow> proxy_config \<Rightarrow> access_lists \<Rightarrow> http_request \<Rightarrow> deny_reason option" where
  "IPAccess up cfg al r =
     (if hr_path r = ''/healthz'' \<or> hr_path r = ''/readyz'' then None
      else if al_allow al = [] \<and> al_block al = [] \<and> al_geoAllow al = [] \<and> al_geoBlock al = [] then None
      else case denyByCIDR al (ClientIP cfg r) of
        Some d \<Rightarrow> Some d
      | None \<Rightarrow> denyByGeo up cfg al r)"

section \<open>What the fences guarantee\<close>

definition probe :: "http_request \<Rightarrow> bool" where
  "probe r \<longleftrightarrow> hr_path r = ''/healthz'' \<or> hr_path r = ''/readyz''"

lemma passes_cidr:
  "IPAccess up cfg al r = None \<Longrightarrow> \<not> probe r \<Longrightarrow> denyByCIDR al (ClientIP cfg r) = None"
  by (auto simp: IPAccess_def probe_def denyByCIDR_def split: option.splits if_splits)

lemma passes_geo:
  "IPAccess up cfg al r = None \<Longrightarrow> \<not> probe r \<Longrightarrow> denyByGeo up cfg al r = None"
  by (auto simp: IPAccess_def probe_def denyByGeo_def split: option.splits if_splits)


definition sample_fences :: access_lists where
  "sample_fences = SetIPAccessLists id [''203.0.113.0/24''] [''203.0.113.66''] [''no''] [] ''CF-IPCountry''"

definition sample_norwegian :: http_request where
  "sample_norwegian = sample_request\<lparr> hr_header := (''Cf-Ipcountry'', ''NO'') # hr_header sample_request \<rparr>"


section \<open>Changing the blocklist at run time\<close>

lemma added_is_contained:
  assumes "AddToIPBlocklist al entries = (al', n)" and "c \<in> set (parseCIDRList entries)"
  shows "containsCIDR (al_block al') c"
proof (cases "containsCIDR (al_block al) c")
  case True
  with assms(1) show ?thesis
    by (auto simp: AddToIPBlocklist_def Let_def containsCIDR_def split: if_splits)
next
  case False
  with assms have "al_block al' = al_block al @ filter (\<lambda>c. \<not> containsCIDR (al_block al) c) (parseCIDRList entries)"
    by (auto simp: AddToIPBlocklist_def Let_def filter_empty_conv split: if_splits)
  with False assms(2) show ?thesis
    by (auto simp: containsCIDR_def list_ex_iff)
qed

lemma removed_is_gone:
  assumes "RemoveFromIPBlocklist al entries = (al', n)" and "c \<in> set (parseCIDRList entries)"
  shows "\<not> containsCIDR (al_block al') c"
  using assms by (auto simp: RemoveFromIPBlocklist_def Let_def containsCIDR_def list_ex_iff filter_empty_conv split: if_splits)

end
