(* ===== verification/Rate_Limit.thy ===== *)
theory Rate_Limit
  imports Client_Ip Lockout
begin

text \<open>
  The rate limiter of \<open>internal/middleware/ratelimit.go\<close>: the fixed-window counter in the cache, the
  in-process fallback with its entry cap, the eviction sweep, the weighting of flagged addresses and
  the answer each request gets. A request enters through the value its key function computes and the
  weight its weight function returns.
\<close>

section \<open>Configuration\<close>

record RateLimitConfig =
  cf_Limit :: int
  cf_Window :: duration
  cf_FailClosed :: bool
  cf_Name :: string

definition namespace :: "RateLimitConfig \<Rightarrow> string" where
  "namespace cfg =
     (if cf_Name cfg \<noteq> [] then cf_Name cfg
      else FormatInt (cf_Limit cfg) @ ''/'' @ FormatInt (cf_Window cfg div Millisecond))"

text \<open>The flags \<open>db.LookupString\<close> reports; the database is not part of this theory.\<close>

record ip_flags =
  fl_IsAnonymous :: bool
  fl_IsHosting :: bool

definition IPIntelWeight ::
  "(string \<Rightarrow> ip_flags) option \<Rightarrow> int \<Rightarrow> (proxy_config \<Rightarrow> http_request \<Rightarrow> int) option" where
  "IPIntelWeight db heavy =
     (case db of
        None \<Rightarrow> None
      | Some lookup \<Rightarrow>
          if heavy \<le> 1 then None
          else Some (\<lambda>cfg r. let info = lookup (ClientIP cfg r) in
                       if fl_IsAnonymous info \<or> fl_IsHosting info then heavy else 1))"

definition LoginRateLimitKey :: "proxy_config \<Rightarrow> http_request \<Rightarrow> string" where
  "LoginRateLimitKey cfg r = ''login:'' @ ClientIP cfg r"

definition IPRateLimitKey :: "proxy_config \<Rightarrow> http_request \<Rightarrow> string" where
  "IPRateLimitKey cfg r = ''ip:'' @ ClientIP cfg r"

text \<open>\<open>claims\<close> is the subject of the validated claims of the request, when it has any.\<close>

definition GeneralRateLimitKey :: "proxy_config \<Rightarrow> string option \<Rightarrow> http_request \<Rightarrow> string" where
  "GeneralRateLimitKey cfg claims r =
     (case claims of Some sub \<Rightarrow> ''user:'' @ sub | None \<Rightarrow> ''anon:'' @ ClientIP cfg r)"

section \<open>The in-process fallback\<close>

record localRLEntry =
  le_count :: int
  le_windowEnd :: time

record localRateLimiter =
  lr_entries :: "(string, localRLEntry) gomap"
  lr_atCap :: bool

definition localRLMaxEntries :: int where
  "localRLMaxEntries = 100000"

definition lr_increment :: "localRateLimiter \<Rightarrow> time \<Rightarrow> string \<Rightarrow> duration \<Rightarrow> localRateLimiter \<times> int" where
  "lr_increment l now key window =
     (let fresh = (l\<lparr> lr_entries := AList.update key \<lparr> le_count = 1, le_windowEnd = now + window \<rparr> (lr_entries l) \<rparr>, 1) in
      case map_of (lr_entries l) key of
        None \<Rightarrow>
          if localRLMaxEntries \<le> int (length (lr_entries l)) then (l\<lparr> lr_atCap := True \<rparr>, MaxInt64) else fresh
      | Some e \<Rightarrow>
          if le_windowEnd e < now then fresh
          else let n = wrap64 (le_count e + 1) in
            (l\<lparr> lr_entries := AList.update key (e\<lparr> le_count := n \<rparr>) (lr_entries l) \<rparr>, n))"

definition lr_evict :: "localRateLimiter \<Rightarrow> time \<Rightarrow> localRateLimiter" where
  "lr_evict l now = l\<lparr> lr_entries := filter (\<lambda>(k, e). \<not> le_windowEnd e < now) (lr_entries l) \<rparr>"

section \<open>The middleware\<close>

record 'c limiter =
  rl_cache :: 'c
  rl_local :: localRateLimiter
  rl_fallbackWarned :: bool

datatype rl_answer =
    Served
  | ServedWith (remaining: int) (reset: int)
  | TooManyRequests (retryAfter: int) (reset429: int)
  | Unavailable (retryAfter503: int)

definition rl_count ::
  "'c Cache \<Rightarrow> RateLimitConfig \<Rightarrow> time \<Rightarrow> time \<Rightarrow> 'c limiter \<Rightarrow> string \<Rightarrow> 'c limiter \<times> int option" where
  "rl_count C cfg now now' l key =
     (case Increment C (rl_cache l) now key (cf_Window cfg) of
        (c', Inr n) \<Rightarrow> (l\<lparr> rl_cache := c' \<rparr>, Some n)
      | (c', Inl _) \<Rightarrow>
          let l1 = l\<lparr> rl_cache := c', rl_fallbackWarned := True \<rparr> in
          if cf_FailClosed cfg then (l1, None)
          else case lr_increment (rl_local l1) now' key (cf_Window cfg) of
                 (loc, n) \<Rightarrow> (l1\<lparr> rl_local := loc \<rparr>, Some n))"

definition weight_of :: "int option \<Rightarrow> int" where
  "weight_of w = (case w of None \<Rightarrow> 1 | Some x \<Rightarrow> if 1 < x then x else 1)"

definition rl_decide :: "RateLimitConfig \<Rightarrow> int option \<Rightarrow> time \<Rightarrow> int \<Rightarrow> rl_answer" where
  "rl_decide cfg w now count =
     (let weighted = wrap64 (count * weight_of w);
          rem = wrap64 (cf_Limit cfg - count);
          shown = (if rem < 0 \<or> cf_Limit cfg < weighted then 0 else rem);
          reset = Unix (now + cf_Window cfg)
      in if cf_Limit cfg < weighted then TooManyRequests (whole_seconds (cf_Window cfg)) reset
         else ServedWith shown reset)"

definition RateLimit_handler ::
  "'c Cache \<Rightarrow> RateLimitConfig \<Rightarrow> bool \<Rightarrow> clock \<Rightarrow> 'c limiter \<Rightarrow> string \<Rightarrow> int option \<Rightarrow> 'c limiter \<times> rl_answer" where
  "RateLimit_handler C cfg enabled clk l reqKey w =
     (if \<not> enabled then (l, Served)
      else let key = ''rl:'' @ namespace cfg @ '':'' @ reqKey in
        case rl_count C cfg (clk 0) (clk 1) l key of
          (l', None) \<Rightarrow> (l', Unavailable (whole_seconds (cf_Window cfg)))
        | (l', Some count) \<Rightarrow> (l', rl_decide cfg w (clk 2) count))"

section \<open>A window admits exactly its limit\<close>

fun served :: "rl_answer \<Rightarrow> bool" where
  "served (ServedWith _ _) = True"
| "served Served = True"
| "served _ = False"

fun rl_run ::
  "'c Cache \<Rightarrow> RateLimitConfig \<Rightarrow> string \<Rightarrow> 'c limiter \<Rightarrow> clock list \<Rightarrow> 'c limiter \<times> rl_answer list" where
  "rl_run C cfg k l [] = (l, [])"
| "rl_run C cfg k l (clk # clks) =
     (case RateLimit_handler C cfg True clk l k None of
        (l1, a) \<Rightarrow> (case rl_run C cfg k l1 clks of (l2, as) \<Rightarrow> (l2, a # as)))"

lemma served_decide:
  assumes "in_int64 n" and "in_int64 (cf_Limit cfg)" and "0 \<le> n" and "0 \<le> cf_Limit cfg"
  shows "served (rl_decide cfg None now n) \<longleftrightarrow> n \<le> cf_Limit cfg"
  using assms by (auto simp: rl_decide_def weight_of_def Let_def)

context reliable_cache
begin

lemma rl_live:
  assumes "inv (rl_cache l)"
    and "view (rl_cache l) (''rl:'' @ namespace cfg @ '':'' @ k) = Some (FormatInt n, x)"
    and "x \<noteq> 0" and "list_all (\<lambda>clk. clk 0 < x) clks" and "0 \<le> n" and "n + int (length clks) \<le> MaxInt64"
    and "in_int64 (cf_Limit cfg)" and "0 \<le> cf_Limit cfg"
  shows "map served (snd (rl_run C cfg k l clks)) = map (\<lambda>i. n + 1 + int i \<le> cf_Limit cfg) [0..<length clks]"
  using assms
proof (induction clks arbitrary: l n)
  case (Cons clk clks)
  let ?key = "''rl:'' @ namespace cfg @ '':'' @ k"
  have n: "in_int64 n" "n < MaxInt64" "in_int64 (n + 1)"
    using Cons.prems(5,6) by (auto simp: in_int64_def MinInt64_def MaxInt64_def)
  obtain s' where inc: "Increment C (rl_cache l) (clk 0) ?key (cf_Window cfg) = (s', Inr (n + 1))"
    and s': "inv s'" "view s' = (view (rl_cache l))(?key \<mapsto> (FormatInt (n + 1), x))"
    using incr_counter [OF Cons.prems(1,2,3) _ n(1,2), of "clk 0" "cf_Window cfg"] Cons.prems(4) by auto
  let ?l1 = "l\<lparr> rl_cache := s' \<rparr>"
  have step: "RateLimit_handler C cfg True clk l k None = (?l1, rl_decide cfg None (clk 2) (n + 1))"
    using inc by (simp add: RateLimit_handler_def rl_count_def)
  have "map served (snd (rl_run C cfg k ?l1 clks)) = map (\<lambda>i. n + 1 + 1 + int i \<le> cf_Limit cfg) [0..<length clks]"
    using Cons.IH [of ?l1 "n + 1"] Cons.prems s' by simp
  moreover have "served (rl_decide cfg None (clk 2) (n + 1)) \<longleftrightarrow> n + 1 \<le> cf_Limit cfg"
    using served_decide [OF n(3) Cons.prems(7) _ Cons.prems(8)] Cons.prems(5) by simp
  ultimately show ?case
    using step by (simp add: map_upt_Suc add.assoc case_prod_beta del: upt_Suc)
qed simp

lemma rl_window:
  assumes "inv (rl_cache l)"
    and "entry_dead (view (rl_cache l) (''rl:'' @ namespace cfg @ '':'' @ k)) (clk 0)" and "0 < clk 0"
    and "Increment C (rl_cache l) (clk 0) (''rl:'' @ namespace cfg @ '':'' @ k) (cf_Window cfg) = (s', Inr m)"
    and "0 < cf_Window cfg" and "list_all (\<lambda>c. c 0 < clk 0 + cf_Window cfg) clks"
    and "int (length clks) < MaxInt64" and "in_int64 (cf_Limit cfg)" and "0 \<le> cf_Limit cfg"
  shows "map served (snd (rl_run C cfg k l (clk # clks))) = map (\<lambda>i. 1 + int i \<le> cf_Limit cfg) [0..<Suc (length clks)]"
proof -
  let ?key = "''rl:'' @ namespace cfg @ '':'' @ k" and ?x = "clk 0 + cf_Window cfg"
  from incr_dead [OF assms(1,3,2,4)] assms(5)
  have s': "inv s'" "m = 1" "view s' = (view (rl_cache l))(?key \<mapsto> (FormatInt 1, ?x))"
    by (auto simp: expiry_of_def)
  let ?l1 = "l\<lparr> rl_cache := s' \<rparr>"
  have step: "RateLimit_handler C cfg True clk l k None = (?l1, rl_decide cfg None (clk 2) 1)"
    using assms(4) s'(2) by (simp add: RateLimit_handler_def rl_count_def)
  have "map served (snd (rl_run C cfg k ?l1 clks)) = map (\<lambda>i. 1 + 1 + int i \<le> cf_Limit cfg) [0..<length clks]"
    using s' assms(3,5-9) by (intro rl_live [where x = ?x]) auto
  moreover have "served (rl_decide cfg None (clk 2) 1) \<longleftrightarrow> 1 \<le> cf_Limit cfg"
    using served_decide [of 1 cfg "clk 2"] assms(8,9) by simp
  ultimately show ?thesis
    using step by (simp add: map_upt_Suc add.assoc case_prod_beta del: upt_Suc)
qed

end

lemma admitted_increment:
  assumes "mc_maxEntries m \<le> 0 \<or> int (length (mc_data m)) < mc_maxEntries m"
  shows "\<exists>m' n. mem_Increment m t key ttl = (m', Inr n)"
proof -
  have "mem_admit m key = (m, True)" using assms by (auto simp: mem_admit_def)
  then show ?thesis by (simp add: mem_Increment_def split: prod.splits)
qed


definition sample_limit :: RateLimitConfig where
  "sample_limit = \<lparr> cf_Limit = 3, cf_Window = Minute, cf_FailClosed = True, cf_Name = ''login'' \<rparr>"

definition sample_limiter :: "MemoryCache limiter" where
  "sample_limiter = \<lparr> rl_cache = NewMemoryCache, rl_local = \<lparr> lr_entries = [], lr_atCap = False \<rparr>, rl_fallbackWarned = False \<rparr>"


section \<open>Failures of the cache\<close>

lemma fails_closed:
  assumes "Increment C (rl_cache l) (clk 0) (''rl:'' @ namespace cfg @ '':'' @ k) (cf_Window cfg) = (c', Inl e)"
    and "cf_FailClosed cfg"
  shows "snd (RateLimit_handler C cfg True clk l k w) = Unavailable (whole_seconds (cf_Window cfg))"
  using assms by (simp add: RateLimit_handler_def rl_count_def Let_def)

definition lr_inv :: "localRateLimiter \<Rightarrow> bool" where
  "lr_inv l \<longleftrightarrow> gomap_wf (lr_entries l) \<and> int (length (lr_entries l)) \<le> localRLMaxEntries"

text \<open>The fallback map never outgrows its cap.\<close>

lemma lr_increment_inv: "lr_inv l \<Longrightarrow> lr_inv (fst (lr_increment l now key window))"
  by (auto simp: lr_inv_def lr_increment_def Let_def length_AList_update split: option.splits if_splits)

lemma lr_evict_inv: "lr_inv l \<Longrightarrow> lr_inv (lr_evict l now)"
  by (simp add: lr_inv_def lr_evict_def)

lemma MaxInt64_times_weight:
  assumes "0 < w" and "w \<le> MaxInt64"
  shows "wrap64 (MaxInt64 * w) = (if even w then - w else MaxInt64 + 1 - w)"
proof (cases "even w")
  case True
  then obtain v where v: "w = 2 * v" by (auto elim: evenE)
  have "MaxInt64 * w + 9223372036854775808 = (9223372036854775808 - w) + v * 18446744073709551616"
    by (simp add: v MaxInt64_def algebra_simps)
  then have "wrap64 (MaxInt64 * w) = (9223372036854775808 - w) mod 18446744073709551616 - 9223372036854775808"
    unfolding wrap64_def by (simp only: mod_mult_self1)
  with True assms show ?thesis by (simp add: MaxInt64_def)
next
  case False
  then obtain v where v: "w = 2 * v + 1" by (auto elim: oddE)
  have "MaxInt64 * w + 9223372036854775808 = (18446744073709551616 - w) + v * 18446744073709551616"
    by (simp add: v MaxInt64_def algebra_simps)
  then have "wrap64 (MaxInt64 * w) = (18446744073709551616 - w) mod 18446744073709551616 - 9223372036854775808"
    unfolding wrap64_def by (simp only: mod_mult_self1)
  moreover have "(18446744073709551616 - w) mod 18446744073709551616 = 18446744073709551616 - w"
    using assms by (intro mod_pos_pos_trivial) (auto simp: MaxInt64_def)
  ultimately show ?thesis using False by (simp add: MaxInt64_def)
qed

text \<open>
  The entry cap of the fallback does not hold for an even weight. During a cache outage, with the
  fallback map full, a caller the limiter has never seen is meant to be refused: its count is reported
  as the largest 64-bit integer. The comparison multiplies that count by the weight in 64 bits, so a
  weight that is even wraps to a negative number and the caller is served; an odd weight is refused.
\<close>

theorem full_fallback_admits_even_weights:
  assumes "Increment C (rl_cache l) (clk 0) (''rl:'' @ namespace cfg @ '':'' @ k) (cf_Window cfg) = (c', Inl e)"
    and "\<not> cf_FailClosed cfg" and "localRLMaxEntries \<le> int (length (lr_entries (rl_local l)))"
    and "map_of (lr_entries (rl_local l)) (''rl:'' @ namespace cfg @ '':'' @ k) = None"
    and "1 < heavy" and "heavy + cf_Limit cfg \<le> MaxInt64" and "0 \<le> cf_Limit cfg"
  shows "served (snd (RateLimit_handler C cfg True clk l k (Some heavy))) \<longleftrightarrow> even heavy"
proof -
  have "snd (rl_count C cfg (clk 0) (clk 1) l (''rl:'' @ namespace cfg @ '':'' @ k)) = Some MaxInt64"
    using assms(1-4) by (simp add: rl_count_def lr_increment_def Let_def)
  then have "snd (RateLimit_handler C cfg True clk l k (Some heavy)) = rl_decide cfg (Some heavy) (clk 2) MaxInt64"
    by (auto simp: RateLimit_handler_def split: prod.splits option.splits)
  moreover have "wrap64 (MaxInt64 * heavy) = (if even heavy then - heavy else MaxInt64 + 1 - heavy)"
    using assms(5,6,7) by (intro MaxInt64_times_weight) auto
  ultimately show ?thesis
    using assms(5,6,7) by (auto simp: rl_decide_def weight_of_def Let_def)
qed

definition crowd :: "(string, localRLEntry) gomap" where
  "crowd = map (\<lambda>i. (replicate i (CHR ''x''), \<lparr> le_count = 1, le_windowEnd = Hour \<rparr>)) [0..<100000]"

definition crowded_limiter :: "MemoryCache limiter" where
  "crowded_limiter = \<lparr> rl_cache = mem_put (newMemoryCacheWithCap 1) ''y'' ''1'' 0,
     rl_local = \<lparr> lr_entries = crowd, lr_atCap = True \<rparr>, rl_fallbackWarned = True \<rparr>"

theorem full_fallback_admits_even_weights_witness:
  "served (snd (RateLimit_handler memory_cache (sample_limit\<lparr> cf_FailClosed := False \<rparr>) True (\<lambda>_. 7)
     crowded_limiter ''ip:1.2.3.4'' (Some 2)))"
proof -
  let ?cfg = "sample_limit\<lparr> cf_FailClosed := False \<rparr>" and ?m = "rl_cache crowded_limiter"
  let ?key = "''rl:'' @ namespace ?cfg @ '':'' @ ''ip:1.2.3.4''"
  have "mem_admit ?m ?key = (?m\<lparr> mc_atCap := True \<rparr>, False)"
    by (simp add: crowded_limiter_def mem_admit_def mem_put_def newMemoryCacheWithCap_def)
  from mem_Increment_refused [OF this]
  have inc: "Increment memory_cache ?m ((\<lambda>_. 7) (0 :: nat)) ?key (cf_Window ?cfg) = (?m\<lparr> mc_atCap := True \<rparr>, Inl ErrCacheFull)"
    by simp
  have "map_of crowd ?key = None"
    by (auto simp: crowd_def map_of_eq_None_iff Cons_replicate_eq)
  then show ?thesis
    using full_fallback_admits_even_weights [OF inc, of 2]
    by (simp add: crowded_limiter_def crowd_def sample_limit_def localRLMaxEntries_def MaxInt64_def)
qed

end
