(* ===== verification/Detector.thy ===== *)
theory Detector
  imports Client_Ip
begin

text \<open>
  \<open>internal/alert\<close>: windowed counts over security events, the threshold and cooldown of a rule, the
  bounded key space and its reclamation. The mutex makes one \<open>count\<close> atomic; delivering an alert is
  handing it to the sink, so \<open>Observe\<close> returns the alerts it delivered.
\<close>

section \<open>Rules and alerts\<close>

definition ScopeSubject :: string where "ScopeSubject = ''subject''"
definition ScopeSource :: string where "ScopeSource = ''source''"
definition RuleSaturated :: string where "RuleSaturated = ''detector-saturated''"
definition maxKeyLen :: nat where "maxKeyLen = 96"
definition DefaultMaxKeys :: int where "DefaultMaxKeys = 4096"
definition saturationCooldown :: duration where "saturationCooldown = 15 * Minute"

record Alert =
  a_Rule :: string
  a_EventType :: string
  a_Scope :: string
  a_Key :: string
  a_Count :: int
  a_Window :: duration
  a_Severity :: int
  a_Breach :: bool
  a_At :: time

record Rule =
  ru_Name :: string
  ru_Threshold :: int
  ru_Window :: duration
  ru_Cooldown :: duration
  ru_Severity :: int
  ru_Breach :: bool

definition rule_valid :: "Rule \<Rightarrow> bool" where
  "rule_valid r \<longleftrightarrow> ru_Name r \<noteq> [] \<and> 0 < ru_Threshold r \<and> 0 < ru_Window r"

definition safeField :: "string \<Rightarrow> string" where
  "safeField s =
     (let s' = map (\<lambda>c. if c = CHR '' '' then CHR ''_'' else c) (SafeLogValue s)
      in if maxKeyLen < length s' then take maxKeyLen s' else s')"

section \<open>Counting\<close>

record counter =
  co_count :: int
  co_opened :: time
  co_silentUntil :: time
  co_deadAfter :: time

record Detector =
  dt_maxKeys :: int
  dt_counters :: "(string, counter) gomap"
  dt_saturatedUntil :: time

definition NewDetector :: "int \<Rightarrow> Detector" where
  "NewDetector maxKeys =
     \<lparr> dt_maxKeys = (if maxKeys < 1 then DefaultMaxKeys else maxKeys), dt_counters = [], dt_saturatedUntil = 0 \<rparr>"

definition TrackedKeys :: "Detector \<Rightarrow> int" where
  "TrackedKeys d = int (length (dt_counters d))"

definition makeRoom :: "Detector \<Rightarrow> time \<Rightarrow> Detector \<times> bool" where
  "makeRoom d now =
     (if TrackedKeys d < dt_maxKeys d then (d, True)
      else let d' = d\<lparr> dt_counters := filter (\<lambda>(k, c). now < co_deadAfter c) (dt_counters d) \<rparr>
           in (d', TrackedKeys d' < dt_maxKeys d'))"

definition reportSaturation :: "Detector \<Rightarrow> time \<Rightarrow> Rule \<Rightarrow> string \<Rightarrow> string \<Rightarrow> Detector \<times> Alert option" where
  "reportSaturation d now r eventType scope =
     (if now < dt_saturatedUntil d then (d, None)
      else (d\<lparr> dt_saturatedUntil := now + saturationCooldown \<rparr>,
            Some \<lparr> a_Rule = RuleSaturated, a_EventType = eventType, a_Scope = scope, a_Key = ''n/a'',
                   a_Count = dt_maxKeys d, a_Window = ru_Window r, a_Severity = ru_Severity r,
                   a_Breach = False, a_At = now \<rparr>))"

definition counter_key :: "Rule \<Rightarrow> string \<Rightarrow> string \<Rightarrow> string" where
  "counter_key r scope key = ru_Name r @ [CHR 0x00] @ scope @ [CHR 0x00] @ key"

text \<open>The part of \<open>count\<close> after the counter is found or created.\<close>

definition advance :: "time \<Rightarrow> Rule \<Rightarrow> string \<Rightarrow> string \<Rightarrow> string \<Rightarrow> counter \<Rightarrow> counter \<times> Alert option" where
  "advance now r eventType scope key c =
     (let c1 = (if ru_Window r \<le> now - co_opened c then c\<lparr> co_count := 0, co_opened := now \<rparr> else c);
          c2 = c1\<lparr> co_count := co_count c1 + 1, co_deadAfter := now + ru_Window r \<rparr>
      in if now < co_silentUntil c2 \<or> co_count c2 < ru_Threshold r then (c2, None)
         else let observed = co_count c2;
                  c3 = c2\<lparr> co_silentUntil := now + ru_Cooldown r, co_count := 0, co_opened := now \<rparr>;
                  c4 = (if co_deadAfter c3 < co_silentUntil c3 then c3\<lparr> co_deadAfter := co_silentUntil c3 \<rparr> else c3)
              in (c4, Some \<lparr> a_Rule = ru_Name r, a_EventType = eventType, a_Scope = scope, a_Key = key,
                            a_Count = observed, a_Window = ru_Window r, a_Severity = ru_Severity r,
                            a_Breach = ru_Breach r, a_At = now \<rparr>))"

definition new_counter :: "time \<Rightarrow> counter" where
  "new_counter now = \<lparr> co_count = 0, co_opened = now, co_silentUntil = 0, co_deadAfter = 0 \<rparr>"

definition dt_count :: "Detector \<Rightarrow> time \<Rightarrow> Rule \<Rightarrow> string \<Rightarrow> string \<Rightarrow> string \<Rightarrow> Detector \<times> Alert option" where
  "dt_count d now r eventType scope key =
     (let k = counter_key r scope key in
      case map_of (dt_counters d) k of
        Some c \<Rightarrow>
          (case advance now r eventType scope key c of
             (c', a) \<Rightarrow> (d\<lparr> dt_counters := AList.update k c' (dt_counters d) \<rparr>, a))
      | None \<Rightarrow>
          (case makeRoom d now of
             (d1, False) \<Rightarrow> reportSaturation d1 now r eventType scope
           | (d1, True) \<Rightarrow>
               (case advance now r eventType scope key (new_counter now) of
                  (c', a) \<Rightarrow> (d1\<lparr> dt_counters := AList.update k c' (dt_counters d1) \<rparr>, a))))"

text \<open>\<open>Observe\<close>: an empty identity is not counted. \<open>sink\<close> says whether the detector has one.\<close>

definition count_identity ::
  "time \<Rightarrow> Rule \<Rightarrow> string \<Rightarrow> Detector \<times> Alert list \<Rightarrow> string \<times> string \<Rightarrow> Detector \<times> Alert list" where
  "count_identity now r eventType st sk =
     (case (st, sk) of ((d, raised), (scope, key)) \<Rightarrow>
        if key = [] then (d, raised)
        else (case dt_count d now r eventType scope key of
                (d', None) \<Rightarrow> (d', raised)
              | (d', Some a) \<Rightarrow> (d', raised @ [a])))"

definition Observe :: "bool \<Rightarrow> Detector \<Rightarrow> time \<Rightarrow> Rule \<Rightarrow> string \<Rightarrow> string \<Rightarrow> string \<Rightarrow> Detector \<times> Alert list" where
  "Observe sink d now r eventType subject source =
     (if \<not> sink \<or> \<not> rule_valid r then (d, [])
      else foldl (count_identity now r (safeField eventType)) (d, [])
             [(ScopeSubject, safeField subject), (ScopeSource, safeField source)])"

section \<open>The key space stays bounded\<close>

definition dt_inv :: "Detector \<Rightarrow> bool" where
  "dt_inv d \<longleftrightarrow> gomap_wf (dt_counters d) \<and> 1 \<le> dt_maxKeys d \<and> TrackedKeys d \<le> dt_maxKeys d"

lemma NewDetector_inv: "dt_inv (NewDetector n)"
  by (simp add: dt_inv_def NewDetector_def TrackedKeys_def DefaultMaxKeys_def)

lemma makeRoom_inv:
  assumes "dt_inv d" and "makeRoom d now = (d1, ok)"
  shows "dt_inv d1 \<and> dt_maxKeys d1 = dt_maxKeys d \<and> (ok \<longrightarrow> TrackedKeys d1 < dt_maxKeys d1)"
  using assms by (auto simp: makeRoom_def dt_inv_def TrackedKeys_def Let_def split: if_splits)

lemma dt_count_inv:
  assumes "dt_inv d"
  shows "dt_inv (fst (dt_count d now r eventType scope key))"
proof (cases "map_of (dt_counters d) (counter_key r scope key)")
  case None
  obtain d1 ok where room: "makeRoom d now = (d1, ok)" by fastforce
  with makeRoom_inv [OF assms room] None show ?thesis
    by (cases ok) (auto simp: dt_count_def reportSaturation_def dt_inv_def TrackedKeys_def length_AList_update
        split: prod.splits)
next
  case (Some c)
  with assms show ?thesis
    by (auto simp: dt_count_def dt_inv_def TrackedKeys_def length_AList_update split: prod.splits)
qed

section \<open>One alert per campaign\<close>

record event =
  ev_now :: time
  ev_rule :: Rule
  ev_type :: string
  ev_scope :: string
  ev_key :: string

abbreviation key_of :: "event \<Rightarrow> string" where
  "key_of e \<equiv> counter_key (ev_rule e) (ev_scope e) (ev_key e)"

fun dt_run :: "Detector \<Rightarrow> event list \<Rightarrow> Detector \<times> (string \<times> Alert option) list" where
  "dt_run d [] = (d, [])"
| "dt_run d (e # es) =
     (case dt_count d (ev_now e) (ev_rule e) (ev_type e) (ev_scope e) (ev_key e) of
        (d1, a) \<Rightarrow> (case dt_run d1 es of (d2, as) \<Rightarrow> (d2, (key_of e, a) # as)))"

text \<open>With room in the map, an event touches its own counter only and admits at most one.\<close>

lemma dt_count_room:
  assumes "TrackedKeys d < dt_maxKeys d"
  shows "\<exists>c a. dt_count d now r eventType scope key =
     (d\<lparr> dt_counters := AList.update (counter_key r scope key) c (dt_counters d) \<rparr>, a) \<and>
     (c, a) = advance now r eventType scope key
                (case map_of (dt_counters d) (counter_key r scope key) of Some c \<Rightarrow> c | None \<Rightarrow> new_counter now)"
  using assms by (auto simp: dt_count_def makeRoom_def Let_def split: option.splits prod.splits)

lemma TrackedKeys_update_le:
  "TrackedKeys (d\<lparr> dt_counters := AList.update k c (dt_counters d) \<rparr>) \<le> TrackedKeys d + 1"
  by (simp add: TrackedKeys_def length_AList_update)

lemma advance_silent:
  "now < co_silentUntil c \<Longrightarrow> snd (advance now r eventType scope key c) = None \<and>
     co_silentUntil (fst (advance now r eventType scope key c)) = co_silentUntil c"
  by (simp add: advance_def Let_def)

lemma silent_run:
  assumes "map_of (dt_counters d) k = Some c" and "list_all (\<lambda>e. ev_now e < co_silentUntil c) es"
    and "TrackedKeys d + int (length es) \<le> dt_maxKeys d"
  shows "list_all (\<lambda>(q, a). q = k \<longrightarrow> a = None) (snd (dt_run d es))"
  using assms
proof (induction es arbitrary: d c)
  case (Cons e es)
  let ?step = "dt_count d (ev_now e) (ev_rule e) (ev_type e) (ev_scope e) (ev_key e)"
  have "TrackedKeys d < dt_maxKeys d" using Cons.prems(3) by simp
  from dt_count_room [OF this, of "ev_now e" "ev_rule e" "ev_type e" "ev_scope e" "ev_key e"]
  obtain c' a where step: "?step = (d\<lparr> dt_counters := AList.update (key_of e) c' (dt_counters d) \<rparr>, a)"
    and adv: "(c', a) = advance (ev_now e) (ev_rule e) (ev_type e) (ev_scope e) (ev_key e)
       (case map_of (dt_counters d) (key_of e) of Some c \<Rightarrow> c | None \<Rightarrow> new_counter (ev_now e))" by blast
  let ?d1 = "d\<lparr> dt_counters := AList.update (key_of e) c' (dt_counters d) \<rparr>"
  have room: "TrackedKeys ?d1 + int (length es) \<le> dt_maxKeys ?d1"
    using TrackedKeys_update_le [of "key_of e" c' d] Cons.prems(3) by simp
  have own: "a = None \<and> co_silentUntil c' = co_silentUntil c" if "key_of e = k"
    using that adv Cons.prems(1,2) advance_silent [of "ev_now e" c "ev_rule e" "ev_type e" "ev_scope e" "ev_key e"]
    by (metis (no_types, lifting) fst_conv list.pred_inject(2) option.simps(5) snd_conv)
  obtain c2 where c2: "map_of (dt_counters ?d1) k = Some c2" "co_silentUntil c2 = co_silentUntil c"
    using Cons.prems(1) own by (cases "key_of e = k") (auto simp: gomap_simps)
  have "list_all (\<lambda>(q, a). q = k \<longrightarrow> a = None) (snd (dt_run ?d1 es))"
    by (rule Cons.IH [OF c2(1) _ room]) (use Cons.prems(2) c2(2) in simp)
  with own step show ?case by (auto split: prod.splits)
qed simp

text \<open>Below the threshold and inside one window, a counter counts the events of its key and raises
  nothing, whatever other keys do.\<close>

definition hits :: "string \<Rightarrow> event list \<Rightarrow> int" where
  "hits k es = int (length (filter (\<lambda>e. key_of e = k) es))"

definition follows :: "string \<Rightarrow> Rule \<Rightarrow> time \<Rightarrow> event \<Rightarrow> bool" where
  "follows k r t0 e \<longleftrightarrow> (key_of e = k \<longrightarrow> ev_rule e = r) \<and> t0 \<le> ev_now e \<and> ev_now e < t0 + ru_Window r"

lemma advance_below:
  assumes "now - co_opened c < ru_Window r" and "co_count c + 1 < ru_Threshold r"
  shows "advance now r eventType scope key c = (c\<lparr> co_count := co_count c + 1, co_deadAfter := now + ru_Window r \<rparr>, None)"
  using assms by (simp add: advance_def)

lemma quiet_run:
  assumes "map_of (dt_counters d) k = Some c" and "co_opened c = t0" and "co_silentUntil c \<le> t0"
    and "list_all (follows k r t0) es" and "co_count c + hits k es < ru_Threshold r"
    and "TrackedKeys d + int (length es) \<le> dt_maxKeys d"
  shows "list_all (\<lambda>(q, a). q = k \<longrightarrow> a = None) (snd (dt_run d es)) \<and>
         (\<exists>c'. map_of (dt_counters (fst (dt_run d es))) k = Some c' \<and> co_opened c' = t0 \<and>
               co_silentUntil c' \<le> t0 \<and> co_count c' = co_count c + hits k es) \<and>
         TrackedKeys (fst (dt_run d es)) \<le> TrackedKeys d + int (length es) \<and>
         dt_maxKeys (fst (dt_run d es)) = dt_maxKeys d"
  using assms
proof (induction es arbitrary: d c)
  case (Cons e es)
  let ?step = "dt_count d (ev_now e) (ev_rule e) (ev_type e) (ev_scope e) (ev_key e)"
  have "TrackedKeys d < dt_maxKeys d" using Cons.prems(6) by simp
  from dt_count_room [OF this, of "ev_now e" "ev_rule e" "ev_type e" "ev_scope e" "ev_key e"]
  obtain c' a where step: "?step = (d\<lparr> dt_counters := AList.update (key_of e) c' (dt_counters d) \<rparr>, a)"
    and adv: "(c', a) = advance (ev_now e) (ev_rule e) (ev_type e) (ev_scope e) (ev_key e)
       (case map_of (dt_counters d) (key_of e) of Some c \<Rightarrow> c | None \<Rightarrow> new_counter (ev_now e))" by blast
  let ?d1 = "d\<lparr> dt_counters := AList.update (key_of e) c' (dt_counters d) \<rparr>"
  have tracked: "TrackedKeys ?d1 \<le> TrackedKeys d + 1" by (rule TrackedKeys_update_le)
  have hits: "hits k (e # es) = hits k [e] + hits k es" "0 \<le> hits k es" by (simp_all add: hits_def)
  have own: "a = None \<and> c' = c\<lparr> co_count := co_count c + 1, co_deadAfter := ev_now e + ru_Window r \<rparr>" if k: "key_of e = k"
  proof -
    have "ev_rule e = r" "ev_now e - co_opened c < ru_Window r"
      using Cons.prems(2,4) k by (auto simp: follows_def)
    moreover have "co_count c + 1 < ru_Threshold r" using Cons.prems(5) hits k by (simp add: hits_def)
    ultimately show ?thesis using adv Cons.prems(1) k advance_below by simp
  qed
  obtain c2 where c2: "map_of (dt_counters ?d1) k = Some c2" "co_opened c2 = t0" "co_silentUntil c2 \<le> t0"
    "co_count c2 = co_count c + hits k [e]"
    using Cons.prems(1-3) own by (cases "key_of e = k") (auto simp: gomap_simps hits_def)
  have IH: "list_all (\<lambda>(q, a). q = k \<longrightarrow> a = None) (snd (dt_run ?d1 es)) \<and>
         (\<exists>c'. map_of (dt_counters (fst (dt_run ?d1 es))) k = Some c' \<and> co_opened c' = t0 \<and>
               co_silentUntil c' \<le> t0 \<and> co_count c' = co_count c2 + hits k es) \<and>
         TrackedKeys (fst (dt_run ?d1 es)) \<le> TrackedKeys ?d1 + int (length es) \<and>
         dt_maxKeys (fst (dt_run ?d1 es)) = dt_maxKeys ?d1"
    by (rule Cons.IH [OF c2(1-3)]) (use Cons.prems(4-6) c2(4) hits tracked in simp_all)
  from step have run: "dt_run d (e # es) = (fst (dt_run ?d1 es), (key_of e, a) # snd (dt_run ?d1 es))"
    by (simp add: case_prod_beta)
  show ?case
    unfolding run using IH own c2(4) hits tracked by auto
qed (simp add: hits_def)

text \<open>
  A campaign raises one alert. While the key space has room, take a counter in an open window.
  The events of its key raise nothing until the threshold is reached inside the window; the one that
  reaches it raises an alert that carries the rule, the key and the count; and no later event of that
  key raises another before the cooldown of the rule is over, however many there are.
\<close>

theorem campaign_raises_one_alert:
  assumes "map_of (dt_counters d) k = Some c" and "co_opened c = t0" and "co_silentUntil c \<le> t0"
    and "list_all (follows k r t0) es" and "co_count c + hits k es + 1 = ru_Threshold r"
    and "follows k r t0 e" and "key_of e = k"
    and "list_all (\<lambda>f. ev_now f < ev_now e + ru_Cooldown r) fs"
    and "TrackedKeys d + int (length es) + 1 + int (length fs) \<le> dt_maxKeys d"
  shows "list_all (\<lambda>(q, a). q = k \<longrightarrow> a = None) (snd (dt_run d es)) \<and>
         (let d1 = fst (dt_run d es);
              (d2, a) = dt_count d1 (ev_now e) (ev_rule e) (ev_type e) (ev_scope e) (ev_key e)
          in map_option (\<lambda>a. (a_Rule a, a_Key a, a_Count a)) a = Some (ru_Name r, ev_key e, ru_Threshold r) \<and>
             list_all (\<lambda>(q, a). q = k \<longrightarrow> a = None) (snd (dt_run d2 fs)))"
proof -
  define d1 where "d1 = fst (dt_run d es)"
  have quiet: "list_all (\<lambda>(q, a). q = k \<longrightarrow> a = None) (snd (dt_run d es)) \<and>
         (\<exists>c'. map_of (dt_counters d1) k = Some c' \<and> co_opened c' = t0 \<and>
               co_silentUntil c' \<le> t0 \<and> co_count c' = co_count c + hits k es) \<and>
         TrackedKeys d1 \<le> TrackedKeys d + int (length es) \<and> dt_maxKeys d1 = dt_maxKeys d"
    unfolding d1_def by (rule quiet_run [OF assms(1-4)]) (use assms(5,9) in simp_all)
  then obtain c1 where c1: "map_of (dt_counters d1) k = Some c1" "co_opened c1 = t0" "co_silentUntil c1 \<le> t0"
    "co_count c1 + 1 = ru_Threshold r" using assms(5) by auto
  have e: "ev_rule e = r" "t0 \<le> ev_now e" "ev_now e < t0 + ru_Window r"
    using assms(6,7) by (auto simp: follows_def)
  obtain c2 a where adv: "advance (ev_now e) r (ev_type e) (ev_scope e) (ev_key e) c1 = (c2, Some a)"
    and a: "a_Rule a = ru_Name r" "a_Key a = ev_key e" "a_Count a = ru_Threshold r"
    and c2: "co_silentUntil c2 = ev_now e + ru_Cooldown r"
    using c1 e by (auto simp: advance_def Let_def)
  let ?d2 = "d1\<lparr> dt_counters := AList.update k c2 (dt_counters d1) \<rparr>"
  have step: "dt_count d1 (ev_now e) (ev_rule e) (ev_type e) (ev_scope e) (ev_key e) = (?d2, Some a)"
    using c1(1) adv e(1) assms(7) by (simp add: dt_count_def Let_def)
  have "list_all (\<lambda>(q, a). q = k \<longrightarrow> a = None) (snd (dt_run ?d2 fs))"
    by (rule silent_run [of ?d2 k c2])
       (use assms(8,9) c1(1) c2 quiet in \<open>auto simp: gomap_simps TrackedKeys_def length_AList_update\<close>)
  with quiet step a show ?thesis
    by (simp add: d1_def [symmetric])
qed

definition sample_rule :: Rule where
  "sample_rule = \<lparr> ru_Name = ''r'', ru_Threshold = 2, ru_Window = 5 * Minute, ru_Cooldown = 30 * Minute,
     ru_Severity = 75, ru_Breach = True \<rparr>"

definition sample_event :: "int \<Rightarrow> string \<Rightarrow> event" where
  "sample_event m key = \<lparr> ev_now = Hour + m * Minute, ev_rule = sample_rule, ev_type = ''login_failure'',
     ev_scope = ScopeSubject, ev_key = key \<rparr>"

definition sample_detector :: Detector where
  "sample_detector = fst (dt_run (NewDetector 10) [sample_event 0 ''u''])"

theorem campaign_raises_one_alert_witness:
  "let (d2, a) = dt_count sample_detector (Hour + Minute) sample_rule ''login_failure'' ScopeSubject ''u''
   in map_option a_Count a = Some 2 \<and>
      list_all (\<lambda>(q, a). a = None) (snd (dt_run d2 [sample_event 2 ''u'', sample_event 3 ''u'', sample_event 29 ''u'']))"
proof -
  let ?k = "counter_key sample_rule ScopeSubject ''u''"
  let ?c = "\<lparr> co_count = 1, co_opened = Hour, co_silentUntil = 0, co_deadAfter = Hour + 5 * Minute \<rparr>"
  have d: "sample_detector = \<lparr> dt_maxKeys = 10, dt_counters = [(?k, ?c)], dt_saturatedUntil = 0 \<rparr>" by code_simp
  let ?fs = "[sample_event 2 ''u'', sample_event 3 ''u'', sample_event 29 ''u'']"
  have keys: "map fst (snd (dt_run x ?fs)) = [?k, ?k, ?k]" for x
    by (simp add: sample_event_def case_prod_beta)
  from campaign_raises_one_alert [of sample_detector ?k ?c Hour sample_rule "[]" "sample_event 1 ''u''" ?fs]
  have "let (d2, a) = dt_count sample_detector (Hour + Minute) sample_rule ''login_failure'' ScopeSubject ''u''
     in map_option (\<lambda>a. (a_Rule a, a_Key a, a_Count a)) a = Some (''r'', ''u'', 2) \<and>
        list_all (\<lambda>(q, a). q = ?k \<longrightarrow> a = None) (snd (dt_run d2 ?fs))"
    by (simp add: d sample_event_def sample_rule_def follows_def hits_def TrackedKeys_def)
  then obtain d2 a where "dt_count sample_detector (Hour + Minute) sample_rule ''login_failure'' ScopeSubject ''u'' = (d2, a)"
    "map_option (\<lambda>a. (a_Rule a, a_Key a, a_Count a)) a = Some (''r'', ''u'', 2)"
    and fs: "list_all (\<lambda>(q, a). q = ?k \<longrightarrow> a = None) (snd (dt_run d2 ?fs))"
    by (cases "dt_count sample_detector (Hour + Minute) sample_rule ''login_failure'' ScopeSubject ''u''") auto
  moreover have "list_all (\<lambda>(q, a). a = None) (snd (dt_run d2 ?fs))"
    using fs keys [of d2] by (auto simp: list_all_iff)
  ultimately show ?thesis by auto
qed

text \<open>
  A cooldown can be lost. The counter remembers until when it is worth keeping, so that the
  reclamation of a full map spares a cooldown; but an event that arrives during the cooldown resets
  that instant to the end of its own window. With one slot: an alert at minute 1 opens a cooldown to
  minute 31; a suppressed event at minute 2 brings the counter's end forward to minute 7; a second
  subject reclaims the slot at minute 8, and at minute 14 the first subject alerts again, seventeen
  minutes before its cooldown ends.
\<close>

theorem cooldown_lost_to_reclamation:
  "let run = snd (dt_run (NewDetector 1) [sample_event 0 ''u'', sample_event 1 ''u'', sample_event 2 ''u'',
                    sample_event 8 ''v'', sample_event 13 ''u'', sample_event 14 ''u''])
   in map (map_option (\<lambda>a. (a_Key a, (a_At a - Hour) div Minute)) \<circ> snd) run =
      [None, Some (''u'', 1), None, None, None, Some (''u'', 14)]"
  by code_simp

end
