(* ===== verification/Audit_Events.thy ===== *)
theory Audit_Events
  imports Detector Roles
begin

text \<open>
  The event vocabulary of \<open>internal/audit\<close>: the event classes, the severity table, the detection
  rules with their windows, the classes that are never dropped, and the removal of sensitive
  metadata. The values a Go \<open>map[string]interface{}\<close> holds are a datatype; \<open>strings.ToLower\<close>
  outside ASCII is the argument \<open>uni\<close>.
\<close>

section \<open>Event classes\<close>

definition EvLoginSuccess :: string where "EvLoginSuccess = ''login_success''"
definition EvLoginFailure :: string where "EvLoginFailure = ''login_failure''"
definition EvLoginNewCountry :: string where "EvLoginNewCountry = ''login_new_country''"
definition EvRegistration :: string where "EvRegistration = ''registration''"
definition EvTokenRefresh :: string where "EvTokenRefresh = ''token_refresh''"
definition EvTokenRevoke :: string where "EvTokenRevoke = ''token_revoke''"
definition EvRefreshTokenReplayed :: string where "EvRefreshTokenReplayed = ''refresh_token_replayed''"
definition EvTokenMinted :: string where "EvTokenMinted = ''token_minted''"
definition EvPasswordChange :: string where "EvPasswordChange = ''password_change''"
definition EvPasswordReset :: string where "EvPasswordReset = ''password_reset''"
definition EvAccountErased :: string where "EvAccountErased = ''account_erased''"
definition EvConsentGranted :: string where "EvConsentGranted = ''consent_granted''"
definition EvConsentWithdrawn :: string where "EvConsentWithdrawn = ''consent_withdrawn''"
definition EvTwoFASetup :: string where "EvTwoFASetup = ''2fa_setup''"
definition EvTwoFAVerify :: string where "EvTwoFAVerify = ''2fa_verify''"
definition EvDeviceTrust :: string where "EvDeviceTrust = ''device_trust''"
definition EvSessionRevoke :: string where "EvSessionRevoke = ''session_revoke''"
definition EvClientAuth :: string where "EvClientAuth = ''client_auth''"
definition EvKMSUnwrap :: string where "EvKMSUnwrap = ''kms_unwrap''"
definition EvRateLimit :: string where "EvRateLimit = ''rate_limit''"
definition EvFingerprintAnomaly :: string where "EvFingerprintAnomaly = ''fingerprint_anomaly''"
definition EvDPoPBindingMismatch :: string where "EvDPoPBindingMismatch = ''dpop_binding_mismatch''"
definition EvOAuth2Authorize :: string where "EvOAuth2Authorize = ''oauth2_authorize''"
definition EvOAuth2Callback :: string where "EvOAuth2Callback = ''oauth2_callback''"
definition EvAdminAction :: string where "EvAdminAction = ''admin_action''"
definition EvDataExport :: string where "EvDataExport = ''data_export''"
definition EvAuthenticatorCloned :: string where "EvAuthenticatorCloned = ''authenticator_cloned''"
definition EvHoneypotTrigger :: string where "EvHoneypotTrigger = ''honeypot_trigger''"
definition EvHoneypotAlert :: string where "EvHoneypotAlert = ''honeypot_alert''"
definition EvAdminLogin :: string where "EvAdminLogin = ''admin_login''"
definition EvAdminLoginFailure :: string where "EvAdminLoginFailure = ''admin_login_failure''"
definition EvAdminLogout :: string where "EvAdminLogout = ''admin_logout''"
definition EvAdminTwoFASetup :: string where "EvAdminTwoFASetup = ''admin_2fa_setup''"
definition EvAdminSessionRevoke :: string where "EvAdminSessionRevoke = ''admin_session_revoke''"
definition EvAdminUserLock :: string where "EvAdminUserLock = ''admin_user_lock''"
definition EvAdminUserUnlock :: string where "EvAdminUserUnlock = ''admin_user_unlock''"
definition EvAdminUserDelete :: string where "EvAdminUserDelete = ''admin_user_delete''"
definition EvAdminUserBan :: string where "EvAdminUserBan = ''admin_user_ban''"
definition EvAdminUserUnban :: string where "EvAdminUserUnban = ''admin_user_unban''"
definition EvAdminUserResetRequired :: string where "EvAdminUserResetRequired = ''admin_user_reset_required''"
definition EvAdminUserResetCleared :: string where "EvAdminUserResetCleared = ''admin_user_reset_cleared''"
definition EvAdminUserRolesSet :: string where "EvAdminUserRolesSet = ''admin_user_roles_set''"
definition EvAdminKeyRotate :: string where "EvAdminKeyRotate = ''admin_key_rotate''"
definition EvAdminKeyRevoke :: string where "EvAdminKeyRevoke = ''admin_key_revoke''"
definition EvAdminClientCreate :: string where "EvAdminClientCreate = ''admin_client_create''"
definition EvAdminClientRevoke :: string where "EvAdminClientRevoke = ''admin_client_revoke''"
definition EvAdminClientRotate :: string where "EvAdminClientRotate = ''admin_client_rotate''"
definition EvAdminConfigChange :: string where "EvAdminConfigChange = ''admin_config_change''"
definition EvAdminAccountCreate :: string where "EvAdminAccountCreate = ''admin_account_create''"
definition EvAdminAccountRevoke :: string where "EvAdminAccountRevoke = ''admin_account_revoke''"
definition EvAdminLockout :: string where "EvAdminLockout = ''admin_lockout''"
definition EvAdminAuthzDenied :: string where "EvAdminAuthzDenied = ''admin_authz_denied''"
definition EvAdminSessionRejected :: string where "EvAdminSessionRejected = ''admin_session_rejected''"
definition EvSvcDocPut :: string where "EvSvcDocPut = ''svcdoc_put''"
definition EvSvcDocGet :: string where "EvSvcDocGet = ''svcdoc_get''"
definition EvSvcDocDelete :: string where "EvSvcDocDelete = ''svcdoc_delete''"
definition EvAdminKillswitchTriggered :: string where "EvAdminKillswitchTriggered = ''admin:killswitch_triggered''"

lemmas event_values =
  EvLoginSuccess_def EvLoginFailure_def EvLoginNewCountry_def EvRegistration_def
  EvTokenRefresh_def EvTokenRevoke_def EvRefreshTokenReplayed_def EvTokenMinted_def
  EvPasswordChange_def EvPasswordReset_def EvAccountErased_def EvConsentGranted_def
  EvConsentWithdrawn_def EvTwoFASetup_def EvTwoFAVerify_def EvDeviceTrust_def EvSessionRevoke_def
  EvClientAuth_def EvKMSUnwrap_def EvRateLimit_def EvFingerprintAnomaly_def
  EvDPoPBindingMismatch_def EvOAuth2Authorize_def EvOAuth2Callback_def EvAdminAction_def
  EvDataExport_def EvAuthenticatorCloned_def EvHoneypotTrigger_def EvHoneypotAlert_def
  EvAdminLogin_def EvAdminLoginFailure_def EvAdminLogout_def EvAdminTwoFASetup_def
  EvAdminSessionRevoke_def EvAdminUserLock_def EvAdminUserUnlock_def EvAdminUserDelete_def
  EvAdminUserBan_def EvAdminUserUnban_def EvAdminUserResetRequired_def
  EvAdminUserResetCleared_def EvAdminUserRolesSet_def EvAdminKeyRotate_def EvAdminKeyRevoke_def
  EvAdminClientCreate_def EvAdminClientRevoke_def EvAdminClientRotate_def EvAdminConfigChange_def
  EvAdminAccountCreate_def EvAdminAccountRevoke_def EvAdminLockout_def EvAdminAuthzDenied_def
  EvAdminSessionRejected_def EvSvcDocPut_def EvSvcDocGet_def EvSvcDocDelete_def
  EvAdminKillswitchTriggered_def

section \<open>Severity\<close>

definition SeverityRoutine :: int where "SeverityRoutine = 0"
definition SeverityNotable :: int where "SeverityNotable = 25"
definition SeverityElevated :: int where "SeverityElevated = 50"
definition SeveritySerious :: int where "SeveritySerious = 75"
definition SeverityCritical :: int where "SeverityCritical = 100"

definition severityByEvent :: "(string, int) gomap" where
  "severityByEvent =
     [(EvLoginSuccess, SeverityRoutine),
      (EvRegistration, SeverityRoutine),
      (EvTokenRefresh, SeverityRoutine),
      (EvTokenRevoke, SeverityRoutine),
      (EvClientAuth, SeverityRoutine),
      (EvConsentGranted, SeverityRoutine),
      (EvConsentWithdrawn, SeverityRoutine),
      (EvOAuth2Authorize, SeverityRoutine),
      (EvOAuth2Callback, SeverityRoutine),
      (EvLoginFailure, SeverityNotable),
      (EvTwoFAVerify, SeverityNotable),
      (EvAdminLogout, SeverityNotable),
      (EvHoneypotAlert, SeverityNotable),
      (EvPasswordChange, SeverityElevated),
      (EvPasswordReset, SeverityElevated),
      (EvTwoFASetup, SeverityElevated),
      (EvDeviceTrust, SeverityElevated),
      (EvSessionRevoke, SeverityElevated),
      (EvRateLimit, SeverityElevated),
      (EvAdminAction, SeverityElevated),
      (EvLoginNewCountry, SeverityElevated),
      (EvSvcDocPut, SeverityElevated),
      (EvSvcDocGet, SeverityElevated),
      (EvSvcDocDelete, SeverityElevated),
      (EvAdminLogin, SeverityElevated),
      (EvAdminLoginFailure, SeverityElevated),
      (EvAdminTwoFASetup, SeverityElevated),
      (EvAdminSessionRevoke, SeverityElevated),
      (EvAdminUserLock, SeverityElevated),
      (EvAdminUserUnlock, SeverityElevated),
      (EvAdminUserResetRequired, SeverityElevated),
      (EvAdminUserResetCleared, SeverityElevated),
      (EvAdminUserBan, SeverityElevated),
      (EvAdminUserUnban, SeverityElevated),
      (EvKMSUnwrap, SeveritySerious),
      (EvTokenMinted, SeveritySerious),
      (EvAccountErased, SeveritySerious),
      (EvDataExport, SeveritySerious),
      (EvFingerprintAnomaly, SeveritySerious),
      (EvDPoPBindingMismatch, SeveritySerious),
      (EvAdminUserDelete, SeveritySerious),
      (EvAdminUserRolesSet, SeveritySerious),
      (EvAdminKeyRotate, SeveritySerious),
      (EvAdminKeyRevoke, SeveritySerious),
      (EvAdminClientCreate, SeveritySerious),
      (EvAdminClientRevoke, SeveritySerious),
      (EvAdminClientRotate, SeveritySerious),
      (EvAdminConfigChange, SeveritySerious),
      (EvAdminAccountCreate, SeveritySerious),
      (EvAdminAccountRevoke, SeveritySerious),
      (EvAdminLockout, SeveritySerious),
      (EvAdminAuthzDenied, SeveritySerious),
      (EvAdminSessionRejected, SeveritySerious),
      (EvAuthenticatorCloned, SeverityCritical),
      (EvHoneypotTrigger, SeverityCritical),
      (EvRefreshTokenReplayed, SeverityCritical),
      (EvAdminKillswitchTriggered, SeverityCritical)]"

definition Severity :: "string \<Rightarrow> int" where
  "Severity eventType = (case map_of severityByEvent eventType of Some s \<Rightarrow> s | None \<Rightarrow> SeverityNotable)"

section \<open>Detection rules\<close>

definition shortWindow :: duration where "shortWindow = 5 * Minute"
definition longWindow :: duration where "longWindow = 15 * Minute"
definition alertCooldown :: duration where "alertCooldown = 30 * Minute"

definition mk_rule :: "string \<Rightarrow> int \<Rightarrow> duration \<Rightarrow> int \<Rightarrow> bool \<Rightarrow> Rule" where
  "mk_rule name threshold window severity breach =
     \<lparr> ru_Name = name, ru_Threshold = threshold, ru_Window = window, ru_Cooldown = alertCooldown,
       ru_Severity = severity, ru_Breach = breach \<rparr>"

definition alertRules :: "(string, Rule) gomap" where
  "alertRules =
     [(EvLoginFailure, mk_rule ''credential-stuffing'' 25 shortWindow SeverityNotable False),
      (EvAdminLoginFailure, mk_rule ''admin-brute-force'' 5 shortWindow SeverityElevated False),
      (EvAdminAuthzDenied, mk_rule ''privilege-probe'' 5 shortWindow SeveritySerious False),
      (EvAdminSessionRejected, mk_rule ''admin-session-probe'' 10 shortWindow SeveritySerious False),
      (EvFingerprintAnomaly, mk_rule ''session-hijack'' 3 shortWindow SeveritySerious True),
      (EvDPoPBindingMismatch, mk_rule ''dpop-binding-probe'' 3 shortWindow SeveritySerious True),
      (EvRefreshTokenReplayed, mk_rule ''refresh-token-replay'' 1 shortWindow SeverityCritical True),
      (EvHoneypotTrigger, mk_rule ''trap-credential-used'' 1 shortWindow SeverityCritical True),
      (EvAuthenticatorCloned, mk_rule ''authenticator-cloned'' 1 shortWindow SeverityCritical True),
      (EvKMSUnwrap, mk_rule ''key-release-burst'' 20 shortWindow SeveritySerious True),
      (EvTokenMinted, mk_rule ''mint-burst'' 20 shortWindow SeveritySerious True),
      (EvDataExport, mk_rule ''bulk-personal-data-export'' 5 longWindow SeveritySerious True),
      (EvSvcDocGet, mk_rule ''service-document-sweep'' 100 shortWindow SeverityElevated True),
      (EvAccountErased, mk_rule ''mass-erasure'' 5 longWindow SeveritySerious True),
      (EvTwoFASetup, mk_rule ''factor-enrollment-burst'' 5 longWindow SeverityElevated False),
      (EvPasswordChange, mk_rule ''credential-change-burst'' 10 longWindow SeverityElevated False),
      (EvLoginNewCountry, mk_rule ''new-country-burst'' 3 longWindow SeverityElevated False)]"

definition AlertRule :: "string \<Rightarrow> Rule option" where
  "AlertRule eventType = map_of alertRules eventType"

definition AlertedEventTypes :: "string list" where
  "AlertedEventTypes = map fst alertRules"

section \<open>Classes\<close>

definition blobEventPrefix :: string where "blobEventPrefix = ''blob_''"
definition svcDocEventPrefix :: string where "svcDocEventPrefix = ''svcdoc_''"

definition isCriticalEvent :: "string \<Rightarrow> bool" where
  "isCriticalEvent eventType =
     (if HasPrefix eventType svcDocEventPrefix then True
      else eventType \<in> set [EvLoginFailure, EvPasswordChange, EvPasswordReset, EvTokenRevoke, EvAdminAction,
             EvKMSUnwrap, EvTokenMinted, EvHoneypotTrigger, EvAdminAuthzDenied, EvAdminSessionRejected,
             EvAuthenticatorCloned, EvRefreshTokenReplayed])"

definition AdminPlaneEventPrefixes :: "string list" where
  "AdminPlaneEventPrefixes = [''admin_'', ''admin:'']"

definition IsAdminPlaneEvent :: "string \<Rightarrow> bool" where
  "IsAdminPlaneEvent eventType = list_ex (HasPrefix eventType) AdminPlaneEventPrefixes"

section \<open>Metadata\<close>

datatype mval = VNil | VStr string | VInt int | VBool bool | VList "mval list" | VMap "(string \<times> mval) list"

definition ToLower :: "(string \<Rightarrow> string) \<Rightarrow> string \<Rightarrow> string" where
  "ToLower uni s = (if is_ascii s then map ascii_lower s else uni s)"

definition sensitiveKeys :: "string list" where
  "sensitiveKeys =
     [''password'', ''secret'', ''token'', ''access_token'', ''refresh_token'', ''code'', ''totp_secret'',
      ''backup_code'', ''master_key'', ''client_secret'', ''api_key'']"

definition blobSensitiveKeys :: "string list" where
  "blobSensitiveKeys = [''name'', ''blob_name'', ''ref_name'', ''label'']"

definition svcDocSensitiveKeys :: "string list" where
  "svcDocSensitiveKeys =
     [''value'', ''body'', ''content'', ''document'', ''doc'', ''data'', ''plaintext'', ''payload'']"

text \<open>The recursion of \<open>scrubMetadata\<close> and \<open>dropKeys\<close>: a nested map is entered, a slice is not.\<close>

fun drop_deep :: "(string \<Rightarrow> string) \<Rightarrow> string list \<Rightarrow> mval \<Rightarrow> mval" where
  "drop_deep uni keys (VMap m) =
     VMap (map (\<lambda>(k, v). (k, drop_deep uni keys v)) (filter (\<lambda>(k, v). ToLower uni k \<notin> set keys) m))"
| "drop_deep uni keys v = v"

definition scrubMetadata :: "(string \<Rightarrow> string) \<Rightarrow> (string \<times> mval) list option \<Rightarrow> (string \<times> mval) list option" where
  "scrubMetadata uni m =
     map_option (\<lambda>xs. map (\<lambda>(k, v). (k, drop_deep uni sensitiveKeys v))
                        (filter (\<lambda>(k, v). ToLower uni k \<notin> set sensitiveKeys) xs)) m"

definition dropKeys ::
  "(string \<Rightarrow> string) \<Rightarrow> string list \<Rightarrow> (string \<times> mval) list option \<Rightarrow> (string \<times> mval) list option" where
  "dropKeys uni keys m =
     map_option (\<lambda>xs. map (\<lambda>(k, v). (k, drop_deep uni keys v))
                        (filter (\<lambda>(k, v). ToLower uni k \<notin> set keys) xs)) m"

definition scrubEventMetadata ::
  "(string \<Rightarrow> string) \<Rightarrow> string \<Rightarrow> (string \<times> mval) list option \<Rightarrow> (string \<times> mval) list option" where
  "scrubEventMetadata uni eventType m =
     (let clean = scrubMetadata uni m in
      if HasPrefix eventType blobEventPrefix then dropKeys uni blobSensitiveKeys clean
      else if HasPrefix eventType svcDocEventPrefix then dropKeys uni svcDocSensitiveKeys clean
      else clean)"

text \<open>The keys of a value and of the maps nested directly inside its maps.\<close>

fun map_keys :: "mval \<Rightarrow> string set" where
  "map_keys (VMap m) = fst ` set m \<union> (\<Union>p \<in> set m. map_keys (snd p))"
| "map_keys v = {}"

lemma map_keys_drop_deep:
  "map_keys (drop_deep uni keys v) \<subseteq> {k \<in> map_keys v. ToLower uni k \<notin> set keys}"
proof (induction uni keys v rule: drop_deep.induct)
  case (1 uni keys m)
  have "map_keys (drop_deep uni keys (snd p)) \<subseteq> {k \<in> map_keys (snd p). ToLower uni k \<notin> set keys}"
    if "p \<in> set m" "ToLower uni (fst p) \<notin> set keys" for p
    using 1 [of p "fst p" "snd p"] that by (cases p) auto
  note IH = this
  show ?case
  proof
    fix k
    assume "k \<in> map_keys (drop_deep uni keys (VMap m))"
    then obtain p where p: "p \<in> set m" "ToLower uni (fst p) \<notin> set keys"
      and k: "k = fst p \<or> k \<in> map_keys (drop_deep uni keys (snd p))" by fastforce
    then have "k = fst p \<or> k \<in> map_keys (snd p) \<and> ToLower uni k \<notin> set keys"
      using IH [OF p] by blast
    with p show "k \<in> {k \<in> map_keys (VMap m). ToLower uni k \<notin> set keys}" by auto
  qed
qed auto

definition entry_keys :: "(string \<times> mval) list option \<Rightarrow> string set" where
  "entry_keys m = (case m of None \<Rightarrow> {} | Some xs \<Rightarrow> map_keys (VMap xs))"

lemma entry_keys_drop:
  "entry_keys (dropKeys uni keys m) \<subseteq> {k \<in> entry_keys m. ToLower uni k \<notin> set keys}"
  using map_keys_drop_deep [of uni keys "VMap (the m)"]
  by (cases m) (auto simp: entry_keys_def dropKeys_def)

lemma scrub_is_drop: "scrubMetadata uni m = dropKeys uni sensitiveKeys m"
  by (simp add: scrubMetadata_def dropKeys_def)

text \<open>What is stored carries none of the keys the class forbids, at any depth of nested maps.\<close>

lemma scrubbed_keys:
  "entry_keys (scrubEventMetadata uni eventType m) \<subseteq>
     {k \<in> entry_keys m. ToLower uni k \<notin> set sensitiveKeys \<and>
        (HasPrefix eventType blobEventPrefix \<longrightarrow> ToLower uni k \<notin> set blobSensitiveKeys) \<and>
        (HasPrefix eventType svcDocEventPrefix \<longrightarrow> ToLower uni k \<notin> set svcDocSensitiveKeys)}"
proof -
  have clean: "entry_keys (scrubMetadata uni m) \<subseteq> {k \<in> entry_keys m. ToLower uni k \<notin> set sensitiveKeys}"
    unfolding scrub_is_drop by (rule entry_keys_drop)
  have apart: "\<not> (HasPrefix eventType blobEventPrefix \<and> HasPrefix eventType svcDocEventPrefix)"
    by (cases eventType) (auto simp: HasPrefix_def blobEventPrefix_def svcDocEventPrefix_def)
  show ?thesis
    using clean apart entry_keys_drop [of uni blobSensitiveKeys "scrubMetadata uni m"]
      entry_keys_drop [of uni svcDocSensitiveKeys "scrubMetadata uni m"]
    by (auto simp: scrubEventMetadata_def Let_def)
qed

text \<open>A map inside a slice is stored as it came.\<close>

lemma slice_is_not_scrubbed:
  "scrubMetadata id (Some [(''items'', VList [VMap [(''password'', VStr ''p'')]])]) =
     Some [(''items'', VList [VMap [(''password'', VStr ''p'')]])]"
  by code_simp

section \<open>Coherence of the tables\<close>

lemma rules_valid: "list_all (\<lambda>(e, r). rule_valid r) alertRules"
  by code_simp

lemma rule_keys_scored: "list_all (\<lambda>(e, r). map_of severityByEvent e \<noteq> None) alertRules"
  by code_simp

lemma distinct_events: "distinct (map fst severityByEvent)"
  by code_simp

text \<open>A rule carries the severity of the class it watches.\<close>

lemma rule_severities: "list_all (\<lambda>(e, r). ru_Severity r = Severity e) alertRules"
  by code_simp

lemma severity_bands:
  "Severity e \<in> {SeverityRoutine, SeverityNotable, SeverityElevated, SeveritySerious, SeverityCritical}"
proof (cases "map_of severityByEvent e")
  case None
  then show ?thesis by (simp add: Severity_def)
next
  case (Some s)
  then have "(e, s) \<in> set severityByEvent" by (rule map_of_SomeD)
  then have "s \<in> {SeverityRoutine, SeverityNotable, SeverityElevated, SeveritySerious, SeverityCritical}"
    by (auto simp: severityByEvent_def)
  with Some show ?thesis by (simp add: Severity_def)
qed

text \<open>Every cooldown outlasts its window.\<close>

lemma cooldown_covers_window: "list_all (\<lambda>(e, r). ru_Window r < ru_Cooldown r) alertRules"
  by code_simp

end
