(* ===== verification/Audit_Log.thy ===== *)
theory Audit_Log
  imports Audit_Events
begin

text \<open>
  The audit logger of \<open>internal/audit/audit.go\<close> over the audit table: buffering with a cap, the flush
  that isolates unwritable rows from an outage, the requeue, and the shutdown. The operations are
  cut where they release the lock or leave the process, so that the section on interleaving can run
  them against each other. Whether the store takes a row is an argument of the step that offers it.
\<close>

section \<open>Rows\<close>

record AuditEntry =
  en_ID :: string
  en_Timestamp :: time
  en_EventType :: string
  en_UserID :: string
  en_ClientID :: string
  en_IP :: string
  en_UserAgent :: string
  en_FingerprintHash :: string
  en_DeviceID :: string
  en_Metadata :: "(string \<times> mval) list option"
  en_RiskScore :: int

definition hex_byte :: "char \<Rightarrow> bool" where
  "hex_byte c \<longleftrightarrow> hex_digit c \<noteq> None"

text \<open>\<open>canonicalActorUUID\<close>: any spelling of 32 hex digits becomes the dashed lower-case form.\<close>

definition dashed :: "string \<Rightarrow> string" where
  "dashed t = take 8 t @ ''-'' @ take 4 (drop 8 t) @ ''-'' @ take 4 (drop 12 t) @ ''-'' @
     take 4 (drop 16 t) @ ''-'' @ take 12 (drop 20 t)"

definition canonicalActorUUID :: "(string \<Rightarrow> string) \<Rightarrow> string \<Rightarrow> string option" where
  "canonicalActorUUID uni id0 =
     (let t = TrimSpace id0;
          t1 = (if 1 < length t \<and> hd t = CHR ''{'' \<and> last t = CHR ''}'' then butlast (tl t) else t);
          t2 = ToLower uni (filter (\<lambda>c. c \<noteq> CHR ''-'') t1)
      in if length t2 = 32 \<and> list_all hex_byte t2 then Some (dashed t2) else None)"

definition rawUserIDKey :: string where "rawUserIDKey = ''actor_user_id_raw''"
definition rawClientIDKey :: string where "rawClientIDKey = ''actor_client_id_raw''"

definition actorColumns ::
  "(string \<Rightarrow> string) \<Rightarrow> AuditEntry \<Rightarrow> string \<times> string \<times> (string \<times> mval) list option" where
  "actorColumns uni e =
     (let column = (\<lambda>v. if v = [] then Some [] else canonicalActorUUID uni v);
          user = column (en_UserID e); client = column (en_ClientID e)
      in case (user, client) of
           (Some u, Some c) \<Rightarrow> (u, c, en_Metadata e)
         | _ \<Rightarrow>
             let out = (case en_Metadata e of None \<Rightarrow> [] | Some m \<Rightarrow> m);
                 out1 = (if user = None then AList.update rawUserIDKey (VStr (en_UserID e)) out else out);
                 out2 = (if client = None then AList.update rawClientIDKey (VStr (en_ClientID e)) out1 else out1)
             in ((case user of Some u \<Rightarrow> u | None \<Rightarrow> []), (case client of Some c \<Rightarrow> c | None \<Rightarrow> []), Some out2))"

text \<open>\<open>clampUserAgent\<close>: at most the column's width in runes, an invalid byte becoming U+FFFD once the
  text is converted.\<close>

definition userAgentColumn :: nat where
  "userAgentColumn = 1024"

definition rune_text :: "int option \<times> string \<Rightarrow> string" where
  "rune_text ch = (case fst ch of None \<Rightarrow> [CHR 0xEF, CHR 0xBF, CHR 0xBD] | Some r \<Rightarrow> snd ch)"

definition clampUserAgent :: "string \<Rightarrow> string" where
  "clampUserAgent ua =
     (if length ua \<le> userAgentColumn then ua
      else let rs = runes ua in
        if length rs \<le> userAgentColumn then ua else concat (map rune_text (take userAgentColumn rs)))"

text \<open>The row \<open>Insert\<close> and \<open>InsertBatch\<close> write: the entry with its actor columns and its clamped
  user agent.\<close>

definition row_of :: "(string \<Rightarrow> string) \<Rightarrow> AuditEntry \<Rightarrow> AuditEntry" where
  "row_of uni e =
     (case actorColumns uni e of (u, c, m) \<Rightarrow>
        e\<lparr> en_UserID := u, en_ClientID := c, en_UserAgent := clampUserAgent (en_UserAgent e), en_Metadata := m \<rparr>)"

section \<open>The logger\<close>

text \<open>\<open>lg_store\<close> is the table and \<open>lg_alerts\<close> what the sink received.\<close>

record Logger =
  lg_flushEvery :: duration
  lg_bufferSize :: int
  lg_buffer :: "AuditEntry list"
  lg_closed :: bool
  lg_dropped :: int
  lg_afterClose :: int
  lg_quarantined :: int
  lg_detector :: "Detector option"
  lg_store :: "AuditEntry list"
  lg_alerts :: "Alert list"

datatype audit_error = ErrGenerateID | ErrInsert | ErrInsertAfterClose

definition NewLoggerWithBufferSize :: "duration \<Rightarrow> int \<Rightarrow> Logger" where
  "NewLoggerWithBufferSize flushEvery bufferSize =
     \<lparr> lg_flushEvery = flushEvery, lg_bufferSize = (if bufferSize \<le> 0 then 1000 else bufferSize),
       lg_buffer = [], lg_closed = False, lg_dropped = 0, lg_afterClose = 0, lg_quarantined = 0,
       lg_detector = None, lg_store = [], lg_alerts = [] \<rparr>"

definition NewLogger :: "duration \<Rightarrow> Logger" where
  "NewLogger flushEvery = NewLoggerWithBufferSize flushEvery 1000"

definition SetDetector :: "Logger \<Rightarrow> Detector option \<Rightarrow> Logger" where
  "SetDetector l d = l\<lparr> lg_detector := d \<rparr>"

definition observe_entry :: "Logger \<Rightarrow> AuditEntry \<Rightarrow> Logger" where
  "observe_entry l e =
     (case lg_detector l of
        None \<Rightarrow> l
      | Some d \<Rightarrow>
          (case map_of alertRules (en_EventType e) of
             None \<Rightarrow> l
           | Some rule \<Rightarrow>
               let source = (if en_IP e \<noteq> [] then ObfuscatedIP (en_IP e) else []) in
               (case Observe True d (en_Timestamp e) rule (en_EventType e) (en_UserID e) source of
                  (d', as) \<Rightarrow> l\<lparr> lg_detector := Some d', lg_alerts := lg_alerts l @ as \<rparr>)))"

definition mk_entry ::
  "(string \<Rightarrow> string) \<Rightarrow> string \<Rightarrow> time \<Rightarrow> string \<Rightarrow> string \<Rightarrow> string \<Rightarrow> string \<Rightarrow> string \<Rightarrow> string \<Rightarrow> string \<Rightarrow>
     (string \<times> mval) list option \<Rightarrow> AuditEntry" where
  "mk_entry uni i now eventType userID clientID ip ua fpHash deviceID metadata =
     \<lparr> en_ID = i, en_Timestamp = now, en_EventType = eventType, en_UserID = userID, en_ClientID = clientID,
       en_IP = ip, en_UserAgent = ua, en_FingerprintHash = fpHash, en_DeviceID = deviceID,
       en_Metadata = scrubEventMetadata uni eventType metadata, en_RiskScore = Severity eventType \<rparr>"

definition store_row :: "(string \<Rightarrow> string) \<Rightarrow> AuditEntry \<Rightarrow> Logger \<Rightarrow> Logger" where
  "store_row uni e l = l\<lparr> lg_store := lg_store l @ [row_of uni e] \<rparr>"

text \<open>The batch-mode branch of \<open>Log\<close>, under the lock and the write after it.\<close>

definition log_buffered :: "(string \<Rightarrow> string) \<Rightarrow> bool \<Rightarrow> AuditEntry \<Rightarrow> Logger \<Rightarrow> Logger" where
  "log_buffered uni up e l =
     (if lg_bufferSize l \<le> int (length (lg_buffer l)) then
        let l1 = l\<lparr> lg_dropped := lg_dropped l + 1 \<rparr>
        in if isCriticalEvent (en_EventType e) then (if up then store_row uni e l1 else l1) else l1
      else l\<lparr> lg_buffer := lg_buffer l @ [e] \<rparr>)"

definition log_after_close :: "(string \<Rightarrow> string) \<Rightarrow> bool \<Rightarrow> AuditEntry \<Rightarrow> Logger \<Rightarrow> Logger \<times> (audit_error + unit)" where
  "log_after_close uni up e l =
     (let l1 = l\<lparr> lg_afterClose := lg_afterClose l + 1 \<rparr>
      in if up then (store_row uni e l1, Inr ()) else (l1, Inl ErrInsertAfterClose))"

definition log_entry :: "(string \<Rightarrow> string) \<Rightarrow> bool \<Rightarrow> AuditEntry \<Rightarrow> Logger \<Rightarrow> Logger \<times> (audit_error + unit)" where
  "log_entry uni up e l =
     (if 0 < lg_flushEvery l \<and> \<not> lg_closed l then (log_buffered uni up e l, Inr ())
      else if 0 < lg_flushEvery l then log_after_close uni up e l
      else if up then (store_row uni e l, Inr ()) else (l, Inl ErrInsert))"

text \<open>\<open>i\<close> is the drawn row id, \<open>None\<close> when the generator fails; detection runs on the way out.\<close>

definition audit_Log ::
  "(string \<Rightarrow> string) \<Rightarrow> bool \<Rightarrow> string option \<Rightarrow> time \<Rightarrow> Logger \<Rightarrow> string \<Rightarrow> string \<Rightarrow> string \<Rightarrow> string \<Rightarrow> string \<Rightarrow> string \<Rightarrow>
     string \<Rightarrow> (string \<times> mval) list option \<Rightarrow> Logger \<times> (audit_error + unit)" where
  "audit_Log uni up i now l eventType userID clientID ip ua fpHash deviceID metadata =
     (case i of
        None \<Rightarrow> (l, Inl ErrGenerateID)
      | Some j \<Rightarrow>
          let e = mk_entry uni j now eventType userID clientID ip ua fpHash deviceID metadata in
          (case log_entry uni up e l of (l', r) \<Rightarrow> (observe_entry l' e, r)))"

section \<open>Flushing\<close>

definition requeue :: "AuditEntry list \<Rightarrow> Logger \<Rightarrow> Logger" where
  "requeue entries l =
     (let room = lg_bufferSize l - int (length (lg_buffer l)) in
      if room \<le> 0 then l\<lparr> lg_dropped := lg_dropped l + int (length entries) \<rparr>
      else if room < int (length entries) then
        l\<lparr> lg_dropped := lg_dropped l + (int (length entries) - room),
           lg_buffer := take (nat room) entries @ lg_buffer l \<rparr>
      else l\<lparr> lg_buffer := entries @ lg_buffer l \<rparr>)"

definition quarantine :: "AuditEntry list \<Rightarrow> Logger \<Rightarrow> Logger" where
  "quarantine entries l = l\<lparr> lg_quarantined := lg_quarantined l + int (length entries) \<rparr>"

text \<open>\<open>ok i\<close> says whether the store takes the \<open>i\<close>-th entry offered on its own.\<close>

definition taken :: "(nat \<Rightarrow> bool) \<Rightarrow> AuditEntry list \<Rightarrow> AuditEntry list" where
  "taken ok entries = map snd (filter (\<lambda>(i, e). ok i) (enumerate 0 entries))"

definition refused :: "(nat \<Rightarrow> bool) \<Rightarrow> AuditEntry list \<Rightarrow> AuditEntry list" where
  "refused ok entries = map snd (filter (\<lambda>(i, e). \<not> ok i) (enumerate 0 entries))"

definition isolate :: "(string \<Rightarrow> string) \<Rightarrow> (nat \<Rightarrow> bool) \<Rightarrow> AuditEntry list \<Rightarrow> Logger \<Rightarrow> Logger" where
  "isolate uni ok entries l =
     (let l1 = l\<lparr> lg_store := lg_store l @ map (row_of uni) (taken ok entries) \<rparr>
      in if taken ok entries = [] then requeue (refused ok entries) l1
         else quarantine (refused ok entries) l1)"

definition take_buffer :: "Logger \<Rightarrow> Logger \<times> AuditEntry list" where
  "take_buffer l = (l\<lparr> lg_buffer := [] \<rparr>, lg_buffer l)"

definition finish_flush ::
  "(string \<Rightarrow> string) \<Rightarrow> bool \<Rightarrow> (nat \<Rightarrow> bool) \<Rightarrow> AuditEntry list \<Rightarrow> Logger \<Rightarrow> Logger \<times> (audit_error + unit)" where
  "finish_flush uni batchOk ok entries l =
     (if entries = [] then (l, Inr ())
      else if batchOk then (l\<lparr> lg_store := lg_store l @ map (row_of uni) entries \<rparr>, Inr ())
      else (isolate uni ok entries l, Inl ErrInsert))"

definition Flush :: "(string \<Rightarrow> string) \<Rightarrow> bool \<Rightarrow> (nat \<Rightarrow> bool) \<Rightarrow> Logger \<Rightarrow> Logger \<times> (audit_error + unit)" where
  "Flush uni batchOk ok l = (case take_buffer l of (l1, entries) \<Rightarrow> finish_flush uni batchOk ok entries l1)"

definition audit_Close :: "(string \<Rightarrow> string) \<Rightarrow> bool \<Rightarrow> (nat \<Rightarrow> bool) \<Rightarrow> Logger \<Rightarrow> Logger \<times> (audit_error + unit)" where
  "audit_Close uni batchOk ok l =
     (if lg_closed l then (l, Inr ()) else Flush uni batchOk ok (l\<lparr> lg_closed := True \<rparr>))"

definition batchLoop_tick :: "(string \<Rightarrow> string) \<Rightarrow> bool \<Rightarrow> (nat \<Rightarrow> bool) \<Rightarrow> Logger \<Rightarrow> Logger" where
  "batchLoop_tick uni batchOk ok l = (if lg_closed l then l else fst (Flush uni batchOk ok l))"

section \<open>Querying\<close>

record AuditFilter =
  fi_UserID :: string
  fi_EventType :: string
  fi_Since :: "time option"
  fi_Until :: "time option"
  fi_MinRiskScore :: int
  fi_ExcludeEventTypePrefixes :: "string list"
  fi_Limit :: int
  fi_Offset :: int

text \<open>The user column is a UUID, so the database reads the requested id as one: \<open>uuid_in s\<close> is the
  canonical text it reads from \<open>s\<close>, \<open>None\<close> where it refuses, which fails the query.\<close>

datatype query_error = ErrQueryAudit

definition matches :: "string \<Rightarrow> AuditFilter \<Rightarrow> AuditEntry \<Rightarrow> bool" where
  "matches u f e \<longleftrightarrow>
     (fi_UserID f \<noteq> [] \<longrightarrow> en_UserID e = u) \<and>
     (fi_EventType f \<noteq> [] \<longrightarrow> en_EventType e = fi_EventType f) \<and>
     (case fi_Since f of None \<Rightarrow> True | Some t \<Rightarrow> t \<le> en_Timestamp e) \<and>
     (case fi_Until f of None \<Rightarrow> True | Some t \<Rightarrow> en_Timestamp e \<le> t) \<and>
     (0 < fi_MinRiskScore f \<longrightarrow> fi_MinRiskScore f \<le> en_RiskScore e) \<and>
     list_all (\<lambda>p. \<not> HasPrefix (en_EventType e) p) (fi_ExcludeEventTypePrefixes f)"

text \<open>Newest first; rows of one instant come back in the reverse of the order they were written in, one
  of the orders the statement allows.\<close>

definition audit_Query ::
  "(string \<Rightarrow> string option) \<Rightarrow> AuditFilter \<Rightarrow> AuditEntry list \<Rightarrow> query_error + AuditEntry list" where
  "audit_Query uuid_in f rows =
     (case (if fi_UserID f = [] then Some [] else uuid_in (fi_UserID f)) of
        None \<Rightarrow> Inl ErrQueryAudit
      | Some u \<Rightarrow>
          let limit = (if fi_Limit f \<le> 0 \<or> 1000 < fi_Limit f then 100 else fi_Limit f);
              hits = rev (sort_key en_Timestamp (filter (matches u f) rows));
              page = (if 0 < fi_Offset f then drop (nat (fi_Offset f)) hits else hits)
          in Inr (take (nat limit) page))"

definition CountByUser :: "(string \<Rightarrow> string option) \<Rightarrow> string \<Rightarrow> AuditEntry list \<Rightarrow> query_error + int" where
  "CountByUser uuid_in userID rows =
     (case uuid_in userID of
        None \<Rightarrow> Inl ErrQueryAudit
      | Some u \<Rightarrow> Inr (int (length (filter (\<lambda>e. en_UserID e = u) rows))))"

lemma Query_bounded: "audit_Query uuid_in f rows = Inr page \<Longrightarrow> length page \<le> 1000"
  by (auto simp: audit_Query_def Let_def min_def split: option.splits)

lemma Query_rows_match:
  assumes "audit_Query uuid_in f rows = Inr page" and "e \<in> set page"
  shows "e \<in> set rows \<and> (\<exists>u. matches u f e)"
proof -
  from assms obtain u where "e \<in> set (filter (matches u f) rows)"
    by (auto simp: audit_Query_def Let_def split: option.splits if_splits dest!: in_set_takeD in_set_dropD)
  then show ?thesis by auto
qed

text \<open>A caller without the admin namespace sees none of its rows.\<close>

lemma Query_withholds_admin_plane:
  assumes "fi_ExcludeEventTypePrefixes f = AdminPlaneEventPrefixes"
    and "audit_Query uuid_in f rows = Inr page" and "e \<in> set page"
  shows "\<not> IsAdminPlaneEvent (en_EventType e)"
  using Query_rows_match [OF assms(2,3)] assms(1)
  by (auto simp: matches_def IsAdminPlaneEvent_def list_ex_iff list_all_iff)

section \<open>No silent loss\<close>

text \<open>
  One process: the entries whose writers have seen the logger open (\<open>am_pending\<close>), the batches a flush
  holds outside the lock (\<open>am_inflight\<close>), whether the flush loop still runs and whether \<open>Close\<close> has
  yet to flush, how many entries were logged and how many calls answered an error.
\<close>

record machine =
  am_logger :: Logger
  am_pending :: "AuditEntry list"
  am_inflight :: "AuditEntry list list"
  am_loop :: bool
  am_closing :: bool
  am_logged :: int
  am_errors :: int

definition boot :: "duration \<Rightarrow> int \<Rightarrow> machine" where
  "boot flushEvery bufferSize =
     \<lparr> am_logger = NewLoggerWithBufferSize flushEvery bufferSize, am_pending = [], am_inflight = [],
       am_loop = (0 < flushEvery), am_closing = False, am_logged = 0, am_errors = 0 \<rparr>"

text \<open>The atomic steps, in any order: a writer that finds the logger open, its append, a writer that finds
  it closed or unbuffered; a flush taking the buffer and finishing, for the loop and for \<open>Close\<close>; the loop's exit.\<close>

inductive astep :: "machine \<Rightarrow> machine \<Rightarrow> bool" where
  check: "0 < lg_flushEvery (am_logger m) \<Longrightarrow> \<not> lg_closed (am_logger m) \<Longrightarrow>
    astep m (m\<lparr> am_pending := e # am_pending m, am_logged := am_logged m + 1 \<rparr>)"
| append: "am_pending m = xs @ e # ys \<Longrightarrow>
    astep m (m\<lparr> am_logger := observe_entry (log_buffered uni up e (am_logger m)) e, am_pending := xs @ ys \<rparr>)"
| direct: "\<not> (0 < lg_flushEvery (am_logger m) \<and> \<not> lg_closed (am_logger m)) \<Longrightarrow>
    log_entry uni up e (am_logger m) = (l, r) \<Longrightarrow>
    astep m (m\<lparr> am_logger := observe_entry l e, am_logged := am_logged m + 1,
               am_errors := am_errors m + (if r = Inr () then 0 else 1) \<rparr>)"
| tick: "am_loop m \<Longrightarrow> take_buffer (am_logger m) = (l, b) \<Longrightarrow>
    astep m (m\<lparr> am_logger := l, am_inflight := b # am_inflight m \<rparr>)"
| finish: "am_inflight m = xs @ b # ys \<Longrightarrow> finish_flush uni batchOk ok b (am_logger m) = (l, r) \<Longrightarrow>
    astep m (m\<lparr> am_logger := l, am_inflight := xs @ ys \<rparr>)"
| close: "\<not> lg_closed (am_logger m) \<Longrightarrow>
    astep m (m\<lparr> am_logger := (am_logger m)\<lparr> lg_closed := True \<rparr>, am_closing := True \<rparr>)"
| close_flush: "am_closing m \<Longrightarrow> take_buffer (am_logger m) = (l, b) \<Longrightarrow>
    astep m (m\<lparr> am_logger := l, am_inflight := b # am_inflight m, am_closing := False \<rparr>)"
| loop_exit: "lg_closed (am_logger m) \<Longrightarrow> astep m (m\<lparr> am_loop := False \<rparr>)"

abbreviation asteps :: "machine \<Rightarrow> machine \<Rightarrow> bool" where
  "asteps \<equiv> astep\<^sup>*\<^sup>*"

definition accounted :: "machine \<Rightarrow> int" where
  "accounted m =
     int (length (lg_store (am_logger m))) + int (length (lg_buffer (am_logger m))) +
     int (length (am_pending m)) + int (length (concat (am_inflight m))) +
     lg_dropped (am_logger m) + lg_quarantined (am_logger m) + am_errors m"

definition am_inv :: "machine \<Rightarrow> bool" where
  "am_inv m \<longleftrightarrow> am_logged m \<le> accounted m \<and> 0 < lg_bufferSize (am_logger m) \<and>
     int (length (lg_buffer (am_logger m))) \<le> lg_bufferSize (am_logger m)"

lemma observe_entry_keeps [simp]:
  "lg_store (observe_entry l e) = lg_store l" "lg_buffer (observe_entry l e) = lg_buffer l"
  "lg_dropped (observe_entry l e) = lg_dropped l" "lg_quarantined (observe_entry l e) = lg_quarantined l"
  "lg_bufferSize (observe_entry l e) = lg_bufferSize l" "lg_closed (observe_entry l e) = lg_closed l"
  "lg_flushEvery (observe_entry l e) = lg_flushEvery l"
  by (auto simp: observe_entry_def split: option.splits prod.splits)

lemma taken_refused: "length (taken ok xs) + length (refused ok xs) = length xs"
proof -
  have "length (filter P ys) + length (filter (\<lambda>y. \<not> P y) ys) = length ys" for P and ys :: "(nat \<times> AuditEntry) list"
    by (rule sum_length_filter_compl)
  from this [of "\<lambda>(i, e). ok i" "enumerate 0 xs"] show ?thesis
    by (simp add: taken_def refused_def case_prod_beta')
qed

lemma finish_flush_accounts:
  assumes "finish_flush uni batchOk ok b l = (l', r)" and "int (length (lg_buffer l)) \<le> lg_bufferSize l"
  shows "lg_bufferSize l' = lg_bufferSize l \<and> int (length (lg_buffer l')) \<le> lg_bufferSize l \<and>
     int (length (lg_store l)) + int (length (lg_buffer l)) + lg_dropped l + lg_quarantined l + int (length b) =
     int (length (lg_store l')) + int (length (lg_buffer l')) + lg_dropped l' + lg_quarantined l'"
  using assms taken_refused [of ok b]
  by (auto simp: finish_flush_def isolate_def requeue_def quarantine_def Let_def split: if_splits)

lemma am_inv_step: "astep m m' \<Longrightarrow> am_inv m \<Longrightarrow> am_inv m'"
proof (induction rule: astep.induct)
  case (finish m xs b ys uni batchOk ok l r)
  with finish_flush_accounts [OF finish(2)] show ?case by (auto simp: am_inv_def accounted_def)
qed (auto simp: am_inv_def accounted_def log_entry_def log_buffered_def log_after_close_def store_row_def take_buffer_def Let_def
       split: if_splits)

lemma am_inv_steps: "asteps m m' \<Longrightarrow> am_inv m \<Longrightarrow> am_inv m'"
  by (induction rule: rtranclp_induct) (auto intro: am_inv_step)

lemma boot_inv: "am_inv (boot flushEvery bufferSize)"
  by (simp add: am_inv_def accounted_def boot_def NewLoggerWithBufferSize_def)


definition sample_entry :: AuditEntry where
  "sample_entry = mk_entry id ''1'' 1 EvTokenRefresh [] [] [] [] [] [] None"


section \<open>The gap at shutdown\<close>

text \<open>Once the logger is closed, its loop gone and no flush in flight, nothing drains the buffer.\<close>

definition drained_for_good :: "machine \<Rightarrow> bool" where
  "drained_for_good m \<longleftrightarrow> lg_closed (am_logger m) \<and> \<not> am_loop m \<and> \<not> am_closing m \<and>
     am_inflight m = [] \<and> am_pending m = []"

lemma drained_step:
  "astep m m' \<Longrightarrow> drained_for_good m \<Longrightarrow>
     drained_for_good m' \<and> lg_buffer (am_logger m') = lg_buffer (am_logger m)"
  by (induction rule: astep.induct)
     (auto simp: drained_for_good_def log_entry_def log_after_close_def store_row_def Let_def split: if_splits)

lemma drained_steps:
  "asteps m m' \<Longrightarrow> drained_for_good m \<Longrightarrow>
     drained_for_good m' \<and> lg_buffer (am_logger m') = lg_buffer (am_logger m)"
  by (induction rule: rtranclp_induct) (auto dest: drained_step)

text \<open>
  A shutdown can strand an entry. A writer finds the logger open; \<open>Close\<close> then marks it closed,
  flushes and the loop exits; the writer appends to the buffer. No error is answered and no counter
  moves, and from there on no step ever takes the entry out of the buffer, whatever the store does.
\<close>

theorem shutdown_strands_an_entry:
  "\<exists>m. asteps (boot 1 1) m \<and> lg_buffer (am_logger m) = [e] \<and> lg_store (am_logger m) = [] \<and>
       lg_dropped (am_logger m) = 0 \<and> lg_quarantined (am_logger m) = 0 \<and> am_errors m = 0 \<and>
       {b. \<exists>m'. asteps m m' \<and> b = lg_buffer (am_logger m')} = {[e]}"
proof -
  define m0 where "m0 = boot 1 1"
  define m1 where "m1 = m0\<lparr> am_pending := [e], am_logged := 1 \<rparr>"
  define m2 where "m2 = m1\<lparr> am_logger := (am_logger m1)\<lparr> lg_closed := True \<rparr>, am_closing := True \<rparr>"
  define m3 where "m3 = m2\<lparr> am_inflight := [[]], am_closing := False \<rparr>"
  define m4 where "m4 = m3\<lparr> am_inflight := [] \<rparr>"
  define m5 where "m5 = m4\<lparr> am_loop := False \<rparr>"
  define m6 where "m6 = m5\<lparr> am_logger := observe_entry (log_buffered id True e (am_logger m5)) e, am_pending := [] \<rparr>"
  note defs = m0_def m1_def m2_def m3_def m4_def m5_def boot_def NewLoggerWithBufferSize_def
  have "astep m0 m1" using astep.check [of m0 e] by (simp add: defs)
  moreover have "astep m1 m2" using astep.close [of m1] by (simp add: defs)
  moreover have "astep m2 m3" using astep.close_flush [of m2 "am_logger m2" "[]"] by (simp add: defs take_buffer_def)
  moreover have "astep m3 m4"
    using astep.finish [of m3 "[]" "[]" "[]" id True "\<lambda>_. True" "am_logger m3" "Inr ()"] by (simp add: defs finish_flush_def)
  moreover have "astep m4 m5" using astep.loop_exit [of m4] by (simp add: defs)
  moreover have "astep m5 m6" using astep.append [of m5 "[]" e "[]" id True] by (simp add: m6_def defs)
  ultimately have run: "asteps m0 m6" by (meson r_into_rtranclp rtranclp_trans)
  have buffer: "lg_buffer (am_logger m6) = [e]" and gone: "drained_for_good m6"
    by (simp_all add: m6_def log_buffered_def drained_for_good_def defs)
  have "{b. \<exists>m'. asteps m6 m' \<and> b = lg_buffer (am_logger m')} = {[e]}"
    using drained_steps [OF _ gone] buffer by auto
  moreover have "lg_store (am_logger m6) = [] \<and> lg_dropped (am_logger m6) = 0 \<and> lg_quarantined (am_logger m6) = 0 \<and> am_errors m6 = 0"
    by (simp add: m6_def log_buffered_def defs)
  ultimately show ?thesis using run buffer unfolding m0_def by blast
qed

end
