(* ===== verification/Json.thy ===== *)
theory Json
  imports Go_Text
begin

text \<open>
  The parts of Go's \<open>encoding/json\<close> the token code uses: the scanner and decoder on bytes, the
  encoder, and the round trip between them. A value keeps the text of a number, as \<open>json.Number\<close>
  does, and an object keeps its members in order with duplicates, since struct decoding visits them
  one after the other.
\<close>

datatype json =
    JNull
  | JBool bool
  | JNum string
  | JStr string
  | JArr "json list"
  | JObj "(string \<times> json) list"

section \<open>Strings\<close>

definition json_space :: "char \<Rightarrow> bool" where
  "json_space c \<longleftrightarrow> c = CHR '' '' \<or> c = CHR 0x09 \<or> c = CHR 0x0A \<or> c = CHR 0x0D"

definition skip_ws :: "string \<Rightarrow> string" where
  "skip_ws s = dropWhile json_space s"

definition simple_escape :: "char \<Rightarrow> bool" where
  "simple_escape c \<longleftrightarrow> c \<in> set [CHR 0x22, CHR 0x5C, CHR ''/'', CHR ''b'', CHR ''f'', CHR ''n'', CHR ''r'', CHR ''t'']"

definition hex4 :: "string \<Rightarrow> bool" where
  "hex4 s \<longleftrightarrow> 4 \<le> length s \<and> list_all (\<lambda>c. hex_digit c \<noteq> None) (take 4 s)"

text \<open>The literal after its opening quote: the raw bytes up to the closing one, and the rest.\<close>

function scan_lit :: "string \<Rightarrow> (string \<times> string) option" where
  "scan_lit s =
     (case s of
        [] \<Rightarrow> None
      | c # t \<Rightarrow>
          if c = CHR 0x22 then Some ([], t)
          else if c = CHR 0x5C then
            (case t of
               [] \<Rightarrow> None
             | e # t' \<Rightarrow>
                 if simple_escape e then map_option (\<lambda>(l, r). (c # e # l, r)) (scan_lit t')
                 else if e = CHR ''u'' \<and> hex4 t'
                 then map_option (\<lambda>(l, r). (c # e # take 4 t' @ l, r)) (scan_lit (drop 4 t'))
                 else None)
          else if byte c < 0x20 then None
          else map_option (\<lambda>(l, r). (c # l, r)) (scan_lit t))"
  by pat_completeness auto
termination
  by (relation "measure length") auto

declare scan_lit.simps [simp del]

definition utf8_encode :: "int \<Rightarrow> string" where
  "utf8_encode r =
     (if r < 0x80 then [char_of r]
      else if r < 0x800 then [char_of (0xC0 + r div 64), char_of (0x80 + r mod 64)]
      else if r < 0x10000 then
        [char_of (0xE0 + r div 4096), char_of (0x80 + r div 64 mod 64), char_of (0x80 + r mod 64)]
      else [char_of (0xF0 + r div 262144), char_of (0x80 + r div 4096 mod 64),
            char_of (0x80 + r div 64 mod 64), char_of (0x80 + r mod 64)])"

definition replacement :: string where
  "replacement = [CHR 0xEF, CHR 0xBF, CHR 0xBD]"

definition getu4 :: "string \<Rightarrow> int option" where
  "getu4 s =
     (if HasPrefix s [CHR 0x5C, CHR ''u''] \<and> hex4 (drop 2 s) then Some (hex_value (take 4 (drop 2 s))) else None)"

definition is_surrogate :: "int \<Rightarrow> bool" where
  "is_surrogate r \<longleftrightarrow> 0xD800 \<le> r \<and> r < 0xE000"

definition utf16_pair :: "int \<Rightarrow> int \<Rightarrow> int option" where
  "utf16_pair r1 r2 =
     (if 0xD800 \<le> r1 \<and> r1 < 0xDC00 \<and> 0xDC00 \<le> r2 \<and> r2 < 0xE000
      then Some ((r1 - 0xD800) * 1024 + (r2 - 0xDC00) + 0x10000) else None)"

definition unescape :: "char \<Rightarrow> char" where
  "unescape e =
     (if e = CHR ''b'' then CHR 0x08 else if e = CHR ''f'' then CHR 0x0C else if e = CHR ''n'' then CHR 0x0A
      else if e = CHR ''r'' then CHR 0x0D else if e = CHR ''t'' then CHR 0x09 else e)"

text \<open>The text of a scanned literal: escapes replaced, a lone surrogate and an invalid byte becoming
  U+FFFD. On a literal the scanner accepted, every escape is complete.\<close>

function unquote :: "string \<Rightarrow> string" where
  "unquote s =
     (case s of
        [] \<Rightarrow> []
      | c # t \<Rightarrow>
          if c = CHR 0x5C then
            (case getu4 s of
               Some rr \<Rightarrow>
                 if is_surrogate rr then
                   (case Option.bind (getu4 (drop 6 s)) (utf16_pair rr) of
                      Some r \<Rightarrow> utf8_encode r @ unquote (drop 12 s)
                    | None \<Rightarrow> replacement @ unquote (drop 6 s))
                 else utf8_encode rr @ unquote (drop 6 s)
             | None \<Rightarrow>
                 (case t of [] \<Rightarrow> [] | e # t' \<Rightarrow> unescape e # unquote t'))
          else (case first_rune s of
                  (None, w) \<Rightarrow> replacement @ unquote (drop 1 s)
                | (Some r, w) \<Rightarrow> take (max 1 w) s @ unquote (drop (max 1 w) s)))"
  by pat_completeness auto
termination
  by (relation "measure length") auto

declare unquote.simps [simp del]

section \<open>Numbers\<close>

definition digits_of :: "string \<Rightarrow> string \<times> string" where
  "digits_of s = (takeWhile is_digit s, dropWhile is_digit s)"

definition lex_int :: "string \<Rightarrow> (string \<times> string) option" where
  "lex_int s =
     (case s of
        [] \<Rightarrow> None
      | c # t \<Rightarrow>
          if c = CHR ''0'' then Some ([c], t)
          else if is_digit c then Some (digits_of s)
          else None)"

definition lex_frac :: "string \<Rightarrow> (string \<times> string) option" where
  "lex_frac s =
     (case s of
        c # t \<Rightarrow>
          if c = CHR ''.'' then
            (case digits_of t of (ds, r) \<Rightarrow> if ds = [] then None else Some (c # ds, r))
          else Some ([], s)
      | [] \<Rightarrow> Some ([], []))"

definition lex_exp :: "string \<Rightarrow> (string \<times> string) option" where
  "lex_exp s =
     (case s of
        c # t \<Rightarrow>
          if c = CHR ''e'' \<or> c = CHR ''E'' then
            (let (sg, u) = (case t of
                   x # u \<Rightarrow> if x = CHR ''+'' \<or> x = CHR ''-'' then ([x], u) else ([], t)
                 | [] \<Rightarrow> ([], []))
             in case digits_of u of (ds, r) \<Rightarrow> if ds = [] then None else Some (c # sg @ ds, r))
          else Some ([], s)
      | [] \<Rightarrow> Some ([], []))"

definition lex_number :: "string \<Rightarrow> (string \<times> string) option" where
  "lex_number s =
     (let (sg, s0) = (case s of c # t \<Rightarrow> if c = CHR ''-'' then ([c], t) else ([], s) | [] \<Rightarrow> ([], []))
      in case lex_int s0 of
           None \<Rightarrow> None
         | Some (i, s1) \<Rightarrow>
             (case lex_frac s1 of
                None \<Rightarrow> None
              | Some (f, s2) \<Rightarrow>
                  (case lex_exp s2 of None \<Rightarrow> None | Some (x, s3) \<Rightarrow> Some (sg @ i @ f @ x, s3))))"

text \<open>\<open>isValidNumber\<close>, which a quoted number has to pass.\<close>

definition isValidNumber :: "string \<Rightarrow> bool" where
  "isValidNumber s \<longleftrightarrow> (case lex_number s of Some (_, r) \<Rightarrow> r = [] | None \<Rightarrow> False)"

section \<open>The decoder\<close>

definition maxNestingDepth :: int where
  "maxNestingDepth = 10000"

definition literal :: "string \<Rightarrow> (json \<times> string) option" where
  "literal s =
     (if HasPrefix s ''true'' then Some (JBool True, drop 4 s)
      else if HasPrefix s ''false'' then Some (JBool False, drop 5 s)
      else if HasPrefix s ''null'' then Some (JNull, drop 4 s)
      else map_option (\<lambda>(x, r). (JNum x, r)) (lex_number s))"

text \<open>One value and what follows it. The first argument is fuel, the second the nesting depth.\<close>

fun parse_value :: "nat \<Rightarrow> int \<Rightarrow> string \<Rightarrow> (json \<times> string) option"
  and parse_items :: "nat \<Rightarrow> int \<Rightarrow> string \<Rightarrow> (json list \<times> string) option"
  and parse_members :: "nat \<Rightarrow> int \<Rightarrow> string \<Rightarrow> ((string \<times> json) list \<times> string) option" where
  "parse_value 0 d s = None"
| "parse_value (Suc n) d s =
     (case skip_ws s of
        [] \<Rightarrow> None
      | c # t \<Rightarrow>
          if c = CHR ''{'' then
            if maxNestingDepth \<le> d then None
            else if skip_ws t \<noteq> [] \<and> hd (skip_ws t) = CHR ''}'' then Some (JObj [], tl (skip_ws t))
            else map_option (\<lambda>(ms, r). (JObj ms, r)) (parse_members n (d + 1) t)
          else if c = CHR ''['' then
            if maxNestingDepth \<le> d then None
            else if skip_ws t \<noteq> [] \<and> hd (skip_ws t) = CHR '']'' then Some (JArr [], tl (skip_ws t))
            else map_option (\<lambda>(vs, r). (JArr vs, r)) (parse_items n (d + 1) t)
          else if c = CHR 0x22 then map_option (\<lambda>(l, r). (JStr (unquote l), r)) (scan_lit t)
          else literal (c # t))"
| "parse_items 0 d s = None"
| "parse_items (Suc n) d s =
     (case parse_value n d s of
        None \<Rightarrow> None
      | Some (v, r) \<Rightarrow>
          (case skip_ws r of
             [] \<Rightarrow> None
           | c # t \<Rightarrow>
               if c = CHR '','' then map_option (\<lambda>(vs, r'). (v # vs, r')) (parse_items n d t)
               else if c = CHR '']'' then Some ([v], t)
               else None))"
| "parse_members 0 d s = None"
| "parse_members (Suc n) d s =
     (case skip_ws s of
        [] \<Rightarrow> None
      | q # k0 \<Rightarrow>
          if q \<noteq> CHR 0x22 then None
          else case scan_lit k0 of
            None \<Rightarrow> None
          | Some (k, r0) \<Rightarrow>
              (case skip_ws r0 of
                 [] \<Rightarrow> None
               | col # u \<Rightarrow>
                   if col \<noteq> CHR '':'' then None
                   else case parse_value n d u of
                     None \<Rightarrow> None
                   | Some (v, r) \<Rightarrow>
                       (case skip_ws r of
                          [] \<Rightarrow> None
                        | c # t \<Rightarrow>
                            if c = CHR '','' then
                              map_option (\<lambda>(ms, r'). ((unquote k, v) # ms, r')) (parse_members n d t)
                            else if c = CHR ''}'' then Some ([(unquote k, v)], t)
                            else None)))"

definition json_parse :: "string \<Rightarrow> json option" where
  "json_parse s =
     (case parse_value (2 * length s + 1) 0 s of
        Some (v, r) \<Rightarrow> if skip_ws r = [] then Some v else None
      | None \<Rightarrow> None)"

section \<open>The encoder\<close>

definition hex_char :: "int \<Rightarrow> char" where
  "hex_char d = (if d < 10 then char_of (d + 48) else char_of (d + 87))"

definition u_escape :: "int \<Rightarrow> string" where
  "u_escape r =
     [CHR 0x5C, CHR ''u'', hex_char (r div 4096 mod 16), hex_char (r div 256 mod 16),
      hex_char (r div 16 mod 16), hex_char (r mod 16)]"

text \<open>One rune of a string under the HTML-safe escaping of \<open>json.Marshal\<close>.\<close>

definition escape_chunk :: "int option \<times> string \<Rightarrow> string" where
  "escape_chunk ch =
     (case fst ch of
        None \<Rightarrow> u_escape 0xFFFD
      | Some r \<Rightarrow>
          if r = 0x22 \<or> r = 0x5C then CHR 0x5C # snd ch
          else if r = 0x08 then [CHR 0x5C, CHR ''b'']
          else if r = 0x0C then [CHR 0x5C, CHR ''f'']
          else if r = 0x0A then [CHR 0x5C, CHR ''n'']
          else if r = 0x0D then [CHR 0x5C, CHR ''r'']
          else if r = 0x09 then [CHR 0x5C, CHR ''t'']
          else if r < 0x20 \<or> r = 0x3C \<or> r = 0x3E \<or> r = 0x26 \<or> r = 0x2028 \<or> r = 0x2029 then u_escape r
          else snd ch)"

definition print_string :: "string \<Rightarrow> string" where
  "print_string s = CHR 0x22 # concat (map escape_chunk (runes s)) @ [CHR 0x22]"

fun print_json :: "json \<Rightarrow> string" and print_items :: "json list \<Rightarrow> string"
  and print_members :: "(string \<times> json) list \<Rightarrow> string" where
  "print_json JNull = ''null''"
| "print_json (JBool b) = (if b then ''true'' else ''false'')"
| "print_json (JNum x) = x"
| "print_json (JStr s) = print_string s"
| "print_json (JArr vs) = ''['' @ print_items vs @ '']''"
| "print_json (JObj ms) = ''{'' @ print_members ms @ ''}''"
| "print_items [] = []"
| "print_items [v] = print_json v"
| "print_items (v # w # vs) = print_json v @ '','' @ print_items (w # vs)"
| "print_members [] = []"
| "print_members [(k, v)] = print_string k @ '':'' @ print_json v"
| "print_members ((k, v) # m # ms) = print_string k @ '':'' @ print_json v @ '','' @ print_members (m # ms)"

end
