(* ===== verification/Base64url.thy ===== *)
theory Base64url
  imports Go_Text
begin

text \<open>
  The segment encoding of \<open>internal/jwt/jwt.go\<close>: unpadded base64url, with the strict decoder that
  \<open>decodeSegment\<close> builds from an alphabet scan and \<open>base64.RawURLEncoding.Strict\<close>. Decoding and
  encoding are inverse in both directions, so a segment has one spelling.
\<close>

definition b64_char :: "int \<Rightarrow> char" where
  "b64_char i =
     (if i < 26 then char_of (i + 65)
      else if i < 52 then char_of (i + 71)
      else if i < 62 then char_of (i - 4)
      else if i = 62 then CHR ''-'' else CHR ''_'')"

definition b64_index :: "char \<Rightarrow> int option" where
  "b64_index c =
     (let b = byte c in
      if 65 \<le> b \<and> b \<le> 90 then Some (b - 65)
      else if 97 \<le> b \<and> b \<le> 122 then Some (b - 71)
      else if 48 \<le> b \<and> b \<le> 57 then Some (b + 4)
      else if c = CHR ''-'' then Some 62
      else if c = CHR ''_'' then Some 63
      else None)"

fun sextets :: "int list \<Rightarrow> int list" where
  "sextets (a # b # c # r) =
     a div 4 # ((a mod 4) * 16 + b div 16) # ((b mod 16) * 4 + c div 64) # c mod 64 # sextets r"
| "sextets [a, b] = [a div 4, (a mod 4) * 16 + b div 16, (b mod 16) * 4]"
| "sextets [a] = [a div 4, (a mod 4) * 16]"
| "sextets [] = []"

text \<open>The strict decoder: unused low bits of the last character must be zero, and a single leftover
  character is an error.\<close>

fun octets :: "int list \<Rightarrow> int list option" where
  "octets (w # x # y # z # r) =
     map_option (\<lambda>bs. (w * 4 + x div 16) # ((x mod 16) * 16 + y div 4) # ((y mod 4) * 64 + z) # bs) (octets r)"
| "octets [w, x, y] =
     (if y mod 4 = 0 then Some [w * 4 + x div 16, (x mod 16) * 16 + y div 4] else None)"
| "octets [w, x] = (if x mod 16 = 0 then Some [w * 4 + x div 16] else None)"
| "octets [w] = None"
| "octets [] = Some []"

definition encodeSegment :: "string \<Rightarrow> string" where
  "encodeSegment data = map b64_char (sextets (map byte data))"

definition decodeSegment :: "string \<Rightarrow> string option" where
  "decodeSegment seg =
     (if list_all (\<lambda>c. b64_index c \<noteq> None) seg
      then map_option (map char_of) (octets (map (\<lambda>c. the (b64_index c)) seg))
      else None)"

section \<open>One spelling per segment\<close>

lemma b64_index_char_range: "list_all (\<lambda>i. b64_index (b64_char i) = Some i) [0..63]"
  by code_simp

lemma b64_index_char: "0 \<le> i \<Longrightarrow> i < 64 \<Longrightarrow> b64_index (b64_char i) = Some i"
  using b64_index_char_range by (simp add: list_all_iff)

lemma b64_char_index_all:
  "\<forall>c. case b64_index c of None \<Rightarrow> True | Some i \<Rightarrow> b64_char i = c \<and> 0 \<le> i \<and> i < 64"
  by code_simp

lemma b64_char_index: "b64_index c = Some i \<Longrightarrow> b64_char i = c \<and> 0 \<le> i \<and> i < 64"
  using b64_char_index_all [rule_format, of c] by simp

lemma byte_range [simp]: "0 \<le> byte c" "byte c < 256"
proof -
  have "byte c = byte c mod 256" by (metis char_of_char of_char_of)
  then show "0 \<le> byte c" "byte c < 256"
    using pos_mod_sign [of 256 "byte c"] pos_mod_bound [of 256 "byte c"] by linarith+
qed

lemma byte_char_of: "0 \<le> b \<Longrightarrow> b < 256 \<Longrightarrow> byte (char_of b) = b"
  by simp

abbreviation bytes_ok :: "int list \<Rightarrow> bool" where
  "bytes_ok bs \<equiv> list_all (\<lambda>b. 0 \<le> b \<and> b < 256) bs"

abbreviation sextets_ok :: "int list \<Rightarrow> bool" where
  "sextets_ok ss \<equiv> list_all (\<lambda>b. 0 \<le> b \<and> b < 64) ss"

lemma octets_sextets: "bytes_ok bs \<Longrightarrow> octets (sextets bs) = Some bs \<and> sextets_ok (sextets bs)"
  by (induction bs rule: sextets.induct) auto

lemma sextets_octets: "sextets_ok ss \<Longrightarrow> octets ss = Some bs \<Longrightarrow> sextets bs = ss \<and> bytes_ok bs"
  by (induction ss arbitrary: bs rule: octets.induct) (auto split: if_splits)

lemma bytes_ok_bytes [simp]: "bytes_ok (map byte s)"
  by (simp add: list_all_iff)

lemma map_char_of_byte [simp]: "map char_of (map byte s) = s"
  by (induction s) simp_all

lemma map_byte_char_of: "bytes_ok bs \<Longrightarrow> map byte (map char_of bs) = bs"
  by (induction bs) simp_all

lemma decode_encode [simp]: "decodeSegment (encodeSegment data) = Some data"
proof -
  have ok: "octets (sextets (map byte data)) = Some (map byte data)" "sextets_ok (sextets (map byte data))"
    using octets_sextets [of "map byte data"] by simp_all
  then have idx: "map (\<lambda>c. the (b64_index c)) (encodeSegment data) = sextets (map byte data)"
    unfolding encodeSegment_def by (simp add: list_all_iff b64_index_char map_idI comp_def)
  have "list_all (\<lambda>c. b64_index c \<noteq> None) (encodeSegment data)"
    using ok(2) by (auto simp: encodeSegment_def list_all_iff b64_index_char)
  with idx ok(1) show ?thesis by (simp add: decodeSegment_def)
qed

lemma encode_decode: "decodeSegment seg = Some data \<Longrightarrow> encodeSegment data = seg"
proof -
  assume d: "decodeSegment seg = Some data"
  let ?ss = "map (\<lambda>c. the (b64_index c)) seg"
  from d obtain bs where alpha: "list_all (\<lambda>c. b64_index c \<noteq> None) seg"
    and bs: "octets ?ss = Some bs" "data = map char_of bs"
    by (auto simp: decodeSegment_def split: if_splits)
  have ok: "sextets_ok ?ss" using alpha b64_char_index by (fastforce simp: list_all_iff)
  have again: "map b64_char ?ss = seg"
    using alpha by (induction seg) (auto dest!: b64_char_index simp: b64_index_char)
  from sextets_octets [OF ok bs(1)] bs(2) again show ?thesis
    by (simp add: encodeSegment_def map_byte_char_of del: map_map)
qed

lemma encodeSegment_alphabet: "c \<in> set (encodeSegment data) \<Longrightarrow> b64_index c \<noteq> None"
  using octets_sextets [of "map byte data"] by (auto simp: encodeSegment_def list_all_iff b64_index_char)

lemma encodeSegment_no_dot: "CHR ''.'' \<notin> set (encodeSegment data)"
  using encodeSegment_alphabet [of "CHR ''.''"] by (auto simp: b64_index_def)

lemma encodeSegment_inject: "encodeSegment a = encodeSegment b \<longleftrightarrow> a = b"
  by (metis decode_encode option.inject)

lemma length_sextets: "length (sextets bs) = (4 * length bs + 2) div 3"
  by (induction bs rule: sextets.induct) auto

lemma length_encodeSegment [simp]: "length (encodeSegment data) = (4 * length data + 2) div 3"
  by (simp add: encodeSegment_def length_sextets)

end
