(* ===== verification/Json_Roundtrip.thy ===== *)
theory Json_Roundtrip
  imports Json Base64url
begin

text \<open>
  What the JSON model of \<open>Json\<close> guarantees: a printed value parses back to itself, the fuel of the
  parser is enough for every input, and every parser consumes what it reads.
\<close>

section \<open>Runes and their bytes\<close>

lemma utf8_first_cases:
  assumes "utf8_first bs = (Some r, w)"
  obtains (one) t where "w = 1" "bs = r # t" "r < 0x80"
  | (two) b0 b1 t where "w = 2" "bs = b0 # b1 # t" "0xC2 \<le> b0" "b0 \<le> 0xDF" "continuation 0x80 0xBF b1"
      "r = (b0 - 0xC0) * 64 + (b1 - 0x80)"
  | (three) b0 b1 b2 t where "w = 3" "bs = b0 # b1 # b2 # t" "0xE0 \<le> b0" "b0 \<le> 0xEF"
      "continuation 0x80 0xBF b2"
      "continuation (if b0 = 0xE0 then 0xA0 else 0x80) (if b0 = 0xED then 0x9F else 0xBF) b1"
      "r = (b0 - 0xE0) * 4096 + (b1 - 0x80) * 64 + (b2 - 0x80)"
  | (four) b0 b1 b2 b3 t where "w = 4" "bs = b0 # b1 # b2 # b3 # t" "0xF0 \<le> b0" "b0 \<le> 0xF4"
      "continuation 0x80 0xBF b2" "continuation 0x80 0xBF b3"
      "continuation (if b0 = 0xF0 then 0x90 else 0x80) (if b0 = 0xF4 then 0x8F else 0xBF) b1"
      "r = (b0 - 0xF0) * 262144 + (b1 - 0x80) * 4096 + (b2 - 0x80) * 64 + (b3 - 0x80)"
  using assms one two three four by (cases bs) (auto split: if_splits list.splits)


lemma utf8_first_prefix: "utf8_first bs = (Some r, w) \<Longrightarrow> utf8_first (take w bs @ t) = (Some r, w) \<and> w \<le> length bs \<and> 1 \<le> w"
  by (erule utf8_first_cases) (auto simp: continuation_def)

lemma sextet:
  "r = x * 64 + y \<Longrightarrow> 0 \<le> y \<Longrightarrow> y < 64 \<Longrightarrow> r div 64 = (x::int)"
  "r = x * 64 + y \<Longrightarrow> 0 \<le> y \<Longrightarrow> y < 64 \<Longrightarrow> r mod 64 = (y::int)"
  by auto

lemma div_sextets:
  "r div 64 = q \<Longrightarrow> r div 4096 = q div (64::int)" "r div 64 = q \<Longrightarrow> r div 262144 = q div (4096::int)"
  using zdiv_zmult2_eq [of 64 r 64] zdiv_zmult2_eq [of 4096 r 64] by simp_all

lemma utf8_encode_first:
  assumes "utf8_first (map byte s) = (Some r, w)"
  shows "utf8_encode r = take w s"
  using assms
proof (cases rule: utf8_first_cases)
  case (one t)
  then show ?thesis by (cases s) (auto simp: utf8_encode_def)
next
  case (two b0 b1 t)
  then have "r div 64 = b0 - 0xC0" "r mod 64 = b1 - 0x80" "0x80 \<le> r" "r < 0x800"
    using sextet [of r "b0 - 0xC0" "b1 - 0x80"] by (auto simp: continuation_def)
  moreover from two obtain c0 c1 u where "s = c0 # c1 # u" "b0 = byte c0" "b1 = byte c1"
    by (auto simp: map_eq_Cons_conv)
  ultimately show ?thesis using two(1) by (simp add: utf8_encode_def)
next
  case (three b0 b1 b2 t)
  define q where "q = (b0 - 0xE0) * 64 + (b1 - 0x80)"
  have r: "r = q * 64 + (b2 - 0x80)" using three(7) by (simp add: q_def)
  have b: "0 \<le> b1 - 0x80" "b1 - 0x80 < 64" "0 \<le> b2 - 0x80" "b2 - 0x80 < 64" "b0 = 0xE0 \<Longrightarrow> 0xA0 \<le> b1"
    using three(5,6) by (auto simp: continuation_def split: if_splits)
  have q: "r div 64 = q" "r mod 64 = b2 - 0x80" "q div 64 = b0 - 0xE0" "q mod 64 = b1 - 0x80"
    using sextet [OF r b(3,4)] sextet [OF q_def b(1,2)] by simp_all
  then have "r div 4096 = b0 - 0xE0" "r div 64 mod 64 = b1 - 0x80" "r mod 64 = b2 - 0x80"
    using div_sextets(1) [OF q(1)] by auto
  moreover have "0x800 \<le> r" "r < 0x10000"
    using three(3,4) b by (cases "b0 = 0xE0"; simp add: r q_def)+
  moreover from three obtain c0 c1 c2 u where "s = c0 # c1 # c2 # u" "b0 = byte c0" "b1 = byte c1" "b2 = byte c2"
    by (auto simp: map_eq_Cons_conv)
  ultimately show ?thesis using three(1) by (simp add: utf8_encode_def numeral_3_eq_3)
next
  case (four b0 b1 b2 b3 t)
  define p where "p = (b0 - 0xF0) * 64 + (b1 - 0x80)"
  define q where "q = p * 64 + (b2 - 0x80)"
  have r: "r = q * 64 + (b3 - 0x80)" using four(8) by (simp add: p_def q_def)
  have b: "0 \<le> b1 - 0x80" "b1 - 0x80 < 64" "0 \<le> b2 - 0x80" "b2 - 0x80 < 64" "0 \<le> b3 - 0x80" "b3 - 0x80 < 64"
      "b0 = 0xF0 \<Longrightarrow> 0x90 \<le> b1"
    using four(5-7) by (auto simp: continuation_def split: if_splits)
  have q: "r div 64 = q" "r mod 64 = b3 - 0x80" "q div 64 = p" "q mod 64 = b2 - 0x80" "p div 64 = b0 - 0xF0" "p mod 64 = b1 - 0x80"
    using sextet [OF r b(5,6)] sextet [OF q_def b(3,4)] sextet [OF p_def b(1,2)] by simp_all
  have "r div 4096 = p" "q div 4096 = p div 64" using div_sextets(1) [OF q(1)] div_sextets(1) [OF q(3)] q(3) by simp_all
  then have d: "0xF0 + r div 262144 = b0" "0x80 + r div 4096 mod 64 = b1" "0x80 + r div 64 mod 64 = b2" "0x80 + r mod 64 = b3"
    using div_sextets(2) [OF q(1)] q(1,2,4-6) by (simp_all only: diff_add_eq add_diff_cancel_left' add_diff_eq)
  have "0x10000 \<le> r"
    using four(3,4) b by (cases "b0 = 0xF0"; simp add: r q_def p_def)
  then have "utf8_encode r = map char_of [0xF0 + r div 262144, 0x80 + r div 4096 mod 64, 0x80 + r div 64 mod 64, 0x80 + r mod 64]"
    by (simp add: utf8_encode_def)
  also have "\<dots> = map char_of [b0, b1, b2, b3]" by (simp only: d)
  also have "\<dots> = take w s" using four(1,2) by (auto simp: map_eq_Cons_conv)
  finally show ?thesis .
qed

section \<open>Escapes, one rune at a time\<close>

lemma first_rune_prefix:
  assumes "first_rune s = (Some r, w)"
  shows "1 \<le> w" "w \<le> length s" "first_rune (take w s @ t) = (Some r, w)" "utf8_encode r = take w s"
proof -
  from assms have f: "utf8_first (map byte (take 4 s)) = (Some r, w)" by (simp add: first_rune_def)
  from utf8_first_prefix [OF f] show "1 \<le> w" by blast
  from utf8_first_prefix [OF f] have w: "w \<le> length s" "w \<le> 4" by auto
  then show "w \<le> length s" by simp
  have "map byte (take 4 (take w s @ t)) = take w (map byte (take 4 s)) @ map byte (take (4 - w) t)"
    using w by (simp add: take_map min_def)
  with utf8_first_prefix [OF f] show "first_rune (take w s @ t) = (Some r, w)" by (simp add: first_rune_def)
  from utf8_encode_first [OF f] w show "utf8_encode r = take w s" by (simp add: min_def)
qed

lemma utf8_first_bytes:
  "utf8_first bs = (Some r, w) \<Longrightarrow>
     (r < 0x80 \<and> w = 1) \<or> (0x80 \<le> r \<and> (\<forall>b \<in> set (take w bs). 0x80 \<le> b))"
  by (erule utf8_first_cases) (auto simp: continuation_def split: if_splits)

lemma first_rune_bytes:
  assumes "first_rune s = (Some r, w)"
  shows "(r < 0x80 \<and> w = 1 \<and> take w s = [char_of r]) \<or> (0x80 \<le> r \<and> (\<forall>c \<in> set (take w s). 0x80 \<le> byte c))"
proof -
  from assms have f: "utf8_first (map byte (take 4 s)) = (Some r, w)" by (simp add: first_rune_def)
  then have "w \<le> 4" using utf8_first_prefix [OF f] by auto
  then have "take w (map byte (take 4 s)) = map byte (take w s)" by (simp add: take_map min_def)
  with utf8_first_bytes [OF f] first_rune_prefix(4) [OF assms] show ?thesis by (auto simp: utf8_encode_def)
qed

text \<open>A string the scanner passes through unchanged.\<close>

abbreviation plain :: "char \<Rightarrow> bool" where
  "plain c \<equiv> 0x20 \<le> byte c \<and> c \<noteq> CHR 0x22 \<and> c \<noteq> CHR 0x5C"

lemma scan_plain: "list_all plain b \<Longrightarrow> scan_lit (b @ x) = map_option (\<lambda>(l, q). (b @ l, q)) (scan_lit x)"
proof (induction b)
  case Nil
  then show ?case by (simp add: case_prod_beta option.map_ident)
next
  case (Cons c b)
  then have "scan_lit ((c # b) @ x) = map_option (\<lambda>(l, r). (c # l, r)) (scan_lit (b @ x))"
    by (subst scan_lit.simps) simp
  with Cons show ?case by (simp add: option.map_comp comp_def case_prod_beta)
qed

lemma scan_simple:
  "simple_escape e \<Longrightarrow> scan_lit (CHR 0x5C # e # x) = map_option (\<lambda>(l, q). (CHR 0x5C # e # l, q)) (scan_lit x)"
  by (subst scan_lit.simps) simp

lemma scan_hex:
  "list_all (\<lambda>c. hex_digit c \<noteq> None) [a, b, c, d] \<Longrightarrow>
     scan_lit ([CHR 0x5C, CHR ''u'', a, b, c, d] @ x) =
       map_option (\<lambda>(l, q). ([CHR 0x5C, CHR ''u'', a, b, c, d] @ l, q)) (scan_lit x)"
  by (subst scan_lit.simps) (simp add: simple_escape_def hex4_def)

lemma unquote_simple: "e \<noteq> CHR ''u'' \<Longrightarrow> unquote (CHR 0x5C # e # x) = unescape e # unquote x"
  by (subst unquote.simps) (simp add: getu4_def HasPrefix_def)

lemma unquote_hex:
  assumes "getu4 u = Some r" "length u = 6" "\<not> is_surrogate r"
  shows "unquote (u @ x) = utf8_encode r @ unquote x"
proof -
  from assms(1) have hd: "hd u = CHR 0x5C" "u \<noteq> []"
    by (cases u; auto simp: getu4_def HasPrefix_def split: if_splits)+
  have g: "getu4 (u @ x) = Some r"
    using assms(1,2) by (auto simp: getu4_def HasPrefix_def hex4_def split: if_splits)
  from hd obtain t where t: "u @ x = CHR 0x5C # t" by (cases u) auto
  have "drop 5 t = x" using arg_cong [OF t, of "drop 6"] assms(2) by simp
  with g t assms(3) show ?thesis by (subst unquote.simps) simp
qed

lemma unquote_rune:
  assumes "first_rune s = (Some r, w)" "r \<noteq> 0x5C"
  shows "unquote (take w s @ x) = take w s @ unquote x"
proof -
  note p = first_rune_prefix [OF assms(1)]
  obtain c t where s: "take w s @ x = c # t" using p(1,2) by (cases s) (auto simp: Suc_le_eq take_Cons')
  have "c \<noteq> CHR 0x5C"
  proof
    assume "c = CHR 0x5C"
    with s p(3) [of x] have "first_rune (CHR 0x5C # t) = (Some r, w)" by simp
    with assms(2) show False by (simp add: first_rune_def)
  qed
  moreover have "first_rune (c # t) = (Some r, w)" using p(3) [of x] s by simp
  ultimately have "unquote (c # t) = take (max 1 w) (c # t) @ unquote (drop (max 1 w) (c # t))"
    by (subst unquote.simps) simp
  with p(1,2) show ?thesis unfolding s [symmetric] by (simp add: max_def)
qed

lemma u_escape_getu4:
  "list_all (\<lambda>r. getu4 (u_escape r) = Some r \<and> \<not> is_surrogate r \<and> length (u_escape r) = 6)
     ([0..31] @ [0x3C, 0x3E, 0x26, 0x2028, 0x2029])"
  by code_simp

section \<open>String round trip\<close>

definition valid_utf8 :: "string \<Rightarrow> bool" where
  "valid_utf8 s \<longleftrightarrow> list_all (\<lambda>ch. fst ch \<noteq> None) (runes s)"

lemma char_of_eq: "0 \<le> r \<Longrightarrow> r < 256 \<Longrightarrow> c = char_of r \<longleftrightarrow> r = byte c" "0 \<le> r \<Longrightarrow> r < 256 \<Longrightarrow> char_of r = c \<longleftrightarrow> r = byte c"
  by (metis byte_char_of char_of_char)+

abbreviation named :: "(int \<times> char) list" where
  "named \<equiv> [(0x22, CHR 0x22), (0x5C, CHR 0x5C), (0x08, CHR ''b''), (0x0C, CHR ''f''), (0x0A, CHR ''n''), (0x0D, CHR ''r''),
     (0x09, CHR ''t'')]"

lemma named_escapes:
  "list_all (\<lambda>(r, e). simple_escape e \<and> e \<noteq> CHR ''u'' \<and> escape_chunk (Some r, [char_of r]) = [CHR 0x5C, e] \<and>
      [char_of r] = [unescape e]) named"
  by code_simp

lemma utf8_first_ascii: "utf8_first bs = (Some r, w) \<Longrightarrow> r \<in> set bs \<or> 0x80 \<le> r"
  by (erule utf8_first_cases) (auto simp: continuation_def split: if_splits)

lemma first_rune_nonneg: "first_rune s = (Some r, w) \<Longrightarrow> 0 \<le> r"
  using utf8_first_ascii [of "map byte (take 4 s)" r w] by (fastforce simp: first_rune_def)

lemma escape_chunk_cases:
  assumes "first_rune s = (Some r, w)"
  shows "(\<exists>e. simple_escape e \<and> e \<noteq> CHR ''u'' \<and> escape_chunk (Some r, take w s) = [CHR 0x5C, e] \<and> take w s = [unescape e]) \<or>
     (getu4 (u_escape r) = Some r \<and> \<not> is_surrogate r \<and> escape_chunk (Some r, take w s) = u_escape r) \<or>
     (r \<noteq> 0x5C \<and> list_all plain (take w s) \<and> escape_chunk (Some r, take w s) = take w s)"
proof (cases "r \<in> {0x22, 0x5C, 0x08, 0x0C, 0x0A, 0x0D, 0x09}")
  case True
  then have b: "take w s = [char_of r]" using first_rune_bytes [OF assms] by auto
  from True obtain e where "(r, e) \<in> set named" by auto
  with named_escapes have "simple_escape e \<and> e \<noteq> CHR ''u'' \<and> escape_chunk (Some r, [char_of r]) = [CHR 0x5C, e] \<and> [char_of r] = [unescape e]"
    unfolding list_all_iff by blast
  then show ?thesis unfolding b by blast
next
  case named: False
  show ?thesis
  proof (cases "r \<in> set ([0..31] @ [0x3C, 0x3E, 0x26, 0x2028, 0x2029])")
    case True
    then have "getu4 (u_escape r) = Some r \<and> \<not> is_surrogate r" using u_escape_getu4 by (auto simp: list_all_iff)
    with True named show ?thesis by (auto simp: escape_chunk_def)
  next
    case False
    note nonneg = first_rune_nonneg [OF assms]
    have "list_all plain (take w s)"
      using first_rune_bytes [OF assms] False named nonneg
      by (auto simp: list_all_iff char_of_eq)
    with False named nonneg show ?thesis by (auto simp: escape_chunk_def)
  qed
qed

lemma scan_chunk:
  assumes "first_rune s = (Some r, w)"
  shows "scan_lit (escape_chunk (Some r, take w s) @ x) =
     map_option (\<lambda>(l, q). (escape_chunk (Some r, take w s) @ l, q)) (scan_lit x)"
  using escape_chunk_cases [OF assms]
proof (elim disjE exE conjE)
  fix e assume "simple_escape e" "escape_chunk (Some r, take w s) = [CHR 0x5C, e]"
  then show ?thesis by (simp add: scan_simple)
next
  assume g: "getu4 (u_escape r) = Some r" and e: "escape_chunk (Some r, take w s) = u_escape r"
  from g have "hex4 (drop 2 (u_escape r))" by (simp add: getu4_def split: if_splits)
  then show ?thesis unfolding e unfolding u_escape_def
    by (intro scan_hex) (simp add: hex4_def numeral_eq_Suc)
next
  assume "list_all plain (take w s)" "escape_chunk (Some r, take w s) = take w s"
  then show ?thesis using scan_plain [of "take w s" x] by simp
qed

lemma unquote_chunk:
  assumes "first_rune s = (Some r, w)"
  shows "unquote (escape_chunk (Some r, take w s) @ x) = take w s @ unquote x"
  using escape_chunk_cases [OF assms]
proof (elim disjE exE conjE)
  fix e assume "e \<noteq> CHR ''u''" "escape_chunk (Some r, take w s) = [CHR 0x5C, e]" "take w s = [unescape e]"
  then show ?thesis by (simp add: unquote_simple)
next
  assume g: "getu4 (u_escape r) = Some r" "\<not> is_surrogate r" and e: "escape_chunk (Some r, take w s) = u_escape r"
  then show ?thesis using unquote_hex [OF g(1) _ g(2), of x] first_rune_prefix(4) [OF assms] by (simp add: u_escape_def)
next
  assume "r \<noteq> 0x5C" "escape_chunk (Some r, take w s) = take w s"
  then show ?thesis using unquote_rune [OF assms, of x] by simp
qed

definition escaped :: "string \<Rightarrow> string" where
  "escaped s = concat (map escape_chunk (runes s))"

lemma scan_escaped: "valid_utf8 s \<Longrightarrow> scan_lit (escaped s @ CHR 0x22 # x) = Some (escaped s, x)"
  and unquote_escaped: "valid_utf8 s \<Longrightarrow> unquote (escaped s) = s"
proof (induction s rule: runes.induct)
  case (1 s)
  have "(scan_lit (escaped s @ CHR 0x22 # x) = Some (escaped s, x)) \<and> unquote (escaped s) = s" if v: "valid_utf8 s"
  proof (cases "s = []")
    case True
    then show ?thesis by (simp add: escaped_def scan_lit.simps unquote.simps)
  next
    case False
    obtain r0 w where f0: "first_rune s = (r0, w)" by fastforce
    with v False obtain r where f: "first_rune s = (Some r, w)"
      by (subst (asm) valid_utf8_def) (auto simp: runes.simps [of s])
    note p = first_rune_prefix [OF f]
    have rs: "runes s = (Some r, take w s) # runes (drop w s)"
      using False f p by (simp add: runes.simps [of s] max_def)
    then have e: "escaped s = escape_chunk (Some r, take w s) @ escaped (drop w s)" by (simp add: escaped_def)
    have v': "valid_utf8 (drop w s)" using v rs by (simp add: valid_utf8_def)
    have m: "max 1 w = w" using p(1) by simp
    from 1 [OF False f [symmetric], unfolded m] v' show ?thesis
      by (simp add: e scan_chunk [OF f] unquote_chunk [OF f])
  qed
  then show "valid_utf8 s \<Longrightarrow> scan_lit (escaped s @ CHR 0x22 # x) = Some (escaped s, x)"
    and "valid_utf8 s \<Longrightarrow> unquote (escaped s) = s" by blast+
qed

section \<open>Every parser consumes\<close>

lemma skip_ws_length [simp]: "length (skip_ws s) \<le> length s"
  by (simp add: skip_ws_def length_dropWhile_le)

lemma skip_ws_Cons_length: "skip_ws s = c # t \<Longrightarrow> length t < length s"
  using skip_ws_length [of s] by simp

lemma scan_lit_length: "scan_lit s = Some (l, r) \<Longrightarrow> length r < length s"
proof (induction s arbitrary: l r rule: length_induct)
  case (1 s)
  have IH: "length r' < length s" if "scan_lit t = Some (l', r')" "length t < length s" for t l' r'
    using "1.IH" that by (meson less_trans)
  from "1.prems" show ?case
    by (subst (asm) scan_lit.simps) (auto split: list.splits if_splits dest: IH)
qed

lemma digits_of_length: "digits_of s = (ds, r) \<Longrightarrow> length r \<le> length s \<and> (ds \<noteq> [] \<longrightarrow> length r < length s)"
  by (cases s) (auto simp: digits_of_def length_dropWhile_le le_imp_less_Suc le_SucI split: if_splits)

lemma lex_int_length: "lex_int s = Some (x, r) \<Longrightarrow> length r < length s"
  by (cases s) (auto simp: lex_int_def digits_of_def length_dropWhile_le le_imp_less_Suc split: if_splits)

lemma lex_frac_length: "lex_frac s = Some (x, r) \<Longrightarrow> length r \<le> length s"
  by (cases s) (auto simp: lex_frac_def split: if_splits prod.splits dest!: digits_of_length)

lemma lex_exp_length: "lex_exp s = Some (x, r) \<Longrightarrow> length r \<le> length s"
  by (cases s) (auto simp: lex_exp_def split: if_splits prod.splits list.splits dest!: digits_of_length)

lemma lex_number_length: "lex_number s = Some (x, r) \<Longrightarrow> length r < length s"
  by (auto simp: lex_number_def split: option.splits prod.splits list.splits if_splits
      dest!: lex_int_length lex_frac_length lex_exp_length)

lemma HasPrefix_length: "HasPrefix s p \<Longrightarrow> length p \<le> length s"
  by (metis HasPrefix_def length_take min.cobounded1)

lemma literal_length: "literal s = Some (v, r) \<Longrightarrow> length r < length s"
  by (auto simp: literal_def split: if_splits dest: lex_number_length dest!: HasPrefix_length)

lemma parse_length_all:
  "(\<forall>d s v r. parse_value n d s = Some (v, r) \<longrightarrow> length r < length s) \<and>
   (\<forall>d s vs r. parse_items n d s = Some (vs, r) \<longrightarrow> length r < length s) \<and>
   (\<forall>d s ms r. parse_members n d s = Some (ms, r) \<longrightarrow> length r < length s)"
proof (induction n)
  case (Suc n)
  then have IHv: "\<And>d s v r. parse_value n d s = Some (v, r) \<Longrightarrow> length r < length s"
    and IHi: "\<And>d s vs r. parse_items n d s = Some (vs, r) \<Longrightarrow> length r < length s"
    and IHm: "\<And>d s ms r. parse_members n d s = Some (ms, r) \<Longrightarrow> length r < length s" by blast+
  have tl: "length (tl (skip_ws t)) \<le> length t" for t by (metis diff_le_self le_trans length_tl skip_ws_length)
  have "length r < length s" if p: "parse_value (Suc n) d s = Some (v, r)" for d s v r
  proof -
    from p obtain c t where ws: "skip_ws s = c # t" by (cases "skip_ws s") auto
    have "length r \<le> length t \<or> literal (c # t) = Some (v, r)"
      using p ws tl [of t] by (auto split: if_splits dest: IHi IHm scan_lit_length)
    with skip_ws_Cons_length [OF ws] literal_length [of "c # t"] skip_ws_length [of s] ws show ?thesis by fastforce
  qed
  moreover have "length r < length s" if p: "parse_items (Suc n) d s = Some (vs, r)" for d s vs r
    using p by (auto split: option.splits list.splits if_splits dest!: IHv IHi skip_ws_Cons_length)
  moreover have "length r < length s" if p: "parse_members (Suc n) d s = Some (ms, r)" for d s ms r
    using p by (auto split: option.splits list.splits if_splits dest!: IHv IHm scan_lit_length skip_ws_Cons_length)
  ultimately show ?case by blast
qed simp

lemma parse_length:
  "parse_value n d s = Some (v, r) \<Longrightarrow> length r < length s"
  "parse_items n d s = Some (vs, r) \<Longrightarrow> length r < length s"
  "parse_members n d s = Some (ms, r) \<Longrightarrow> length r < length s"
  using parse_length_all by blast+

section \<open>The fuel is enough\<close>

lemma parse_fuel_all:
  "(\<forall>m d s. 2 * length s + 1 \<le> n \<longrightarrow> 2 * length s + 1 \<le> m \<longrightarrow> parse_value n d s = parse_value m d s) \<and>
   (\<forall>m d s. 2 * length s + 2 \<le> n \<longrightarrow> 2 * length s + 2 \<le> m \<longrightarrow> parse_items n d s = parse_items m d s) \<and>
   (\<forall>m d s. 2 * length s + 2 \<le> n \<longrightarrow> 2 * length s + 2 \<le> m \<longrightarrow> parse_members n d s = parse_members m d s)"
proof (induction n)
  case (Suc n)
  then have IHv: "\<And>m d s. 2 * length s + 1 \<le> n \<Longrightarrow> 2 * length s + 1 \<le> m \<Longrightarrow> parse_value n d s = parse_value m d s"
    and IHi: "\<And>m d s. 2 * length s + 2 \<le> n \<Longrightarrow> 2 * length s + 2 \<le> m \<Longrightarrow> parse_items n d s = parse_items m d s"
    and IHm: "\<And>m d s. 2 * length s + 2 \<le> n \<Longrightarrow> 2 * length s + 2 \<le> m \<Longrightarrow> parse_members n d s = parse_members m d s"
    by blast+
  have "parse_value (Suc n) d s = parse_value m d s"
    if b: "2 * length s + 1 \<le> Suc n" "2 * length s + 1 \<le> m" for m d s
  proof (cases m)
    case (Suc k)
    have "parse_items n (d + 1) t = parse_items k (d + 1) t" "parse_members n (d + 1) t = parse_members k (d + 1) t"
      if "skip_ws s = c # t" for c t
      using skip_ws_Cons_length [OF that] b Suc by (auto intro!: IHi IHm)
    then show ?thesis using Suc by (auto split: list.splits)
  qed (use b in simp)
  moreover have "parse_items (Suc n) d s = parse_items m d s"
    if b: "2 * length s + 2 \<le> Suc n" "2 * length s + 2 \<le> m" for m d s
  proof (cases m)
    case (Suc k)
    have v: "parse_value n d s = parse_value k d s" using b Suc by (intro IHv) auto
    have "parse_items n d t = parse_items k d t" if "parse_value k d s = Some (w, r)" "skip_ws r = c # t" for w r c t
      using parse_length(1) [OF that(1)] skip_ws_Cons_length [OF that(2)] b Suc by (intro IHi) auto
    then show ?thesis using Suc v by (auto split: list.splits option.splits)
  qed (use b in simp)
  moreover have "parse_members (Suc n) d s = parse_members m d s"
    if b: "2 * length s + 2 \<le> Suc n" "2 * length s + 2 \<le> m" for m d s
  proof (cases m)
    case (Suc k)
    have v: "parse_value n d u = parse_value k d u" if "length u \<le> length s" for u
      using that b Suc by (intro IHv) auto
    have i: "parse_members n d t = parse_members k d t" if "length t < length s" for t
      using that b Suc by (intro IHm) auto
    { fix q k0 key r0 col u
      assume w: "skip_ws s = q # k0" "scan_lit k0 = Some (key, r0)" "skip_ws r0 = col # u"
      then have u: "length u < length s"
        using skip_ws_Cons_length [OF w(1)] scan_lit_length [OF w(2)] skip_ws_Cons_length [OF w(3)] by linarith
      have "parse_members n d t = parse_members k d t" if x: "parse_value k d u = Some (y, r)" "skip_ws r = c # t" for y r c t
        using u parse_length(1) [OF x(1)] skip_ws_Cons_length [OF x(2)] by (intro i) linarith
      with v [of u] u have "parse_members (Suc n) d s = parse_members m d s"
        using Suc w by (auto split: option.splits list.splits) }
    moreover have "parse_members (Suc j) d s = None"
      if "\<nexists>q k0 key r0 col u. skip_ws s = q # k0 \<and> scan_lit k0 = Some (key, r0) \<and> skip_ws r0 = col # u" for j
      using that by (auto split: list.splits option.splits)
    ultimately show ?thesis using Suc by metis
  qed (use b in simp)
  ultimately show ?case by blast
qed simp

lemma json_parse_fuel: "2 * length s + 1 \<le> n \<Longrightarrow> parse_value (2 * length s + 1) d s = parse_value n d s"
  using parse_fuel_all by blast

section \<open>Print, then parse\<close>

fun json_ok :: "json \<Rightarrow> bool" and items_ok :: "json list \<Rightarrow> bool" and members_ok :: "(string \<times> json) list \<Rightarrow> bool" where
  "json_ok JNull = True"
| "json_ok (JBool b) = True"
| "json_ok (JNum x) = (\<exists>n. x = FormatInt n)"
| "json_ok (JStr s) = valid_utf8 s"
| "json_ok (JArr vs) = items_ok vs"
| "json_ok (JObj ms) = members_ok ms"
| "items_ok [] = True"
| "items_ok (v # vs) = (json_ok v \<and> items_ok vs)"
| "members_ok [] = True"
| "members_ok ((k, v) # ms) = (valid_utf8 k \<and> json_ok v \<and> members_ok ms)"

fun json_depth :: "json \<Rightarrow> int" and items_depth :: "json list \<Rightarrow> int" and members_depth :: "(string \<times> json) list \<Rightarrow> int" where
  "json_depth (JArr vs) = 1 + items_depth vs"
| "json_depth (JObj ms) = 1 + members_depth ms"
| "json_depth _ = 0"
| "items_depth [] = 0"
| "items_depth (v # vs) = max (json_depth v) (items_depth vs)"
| "members_depth [] = 0"
| "members_depth ((k, v) # ms) = max (json_depth v) (members_depth ms)"

definition ends_value :: "string \<Rightarrow> bool" where
  "ends_value r \<longleftrightarrow> (case r of [] \<Rightarrow> True | c # _ \<Rightarrow> c = CHR '','' \<or> c = CHR ''}'' \<or> c = CHR '']'')"

lemma digits10_zero: "hd (digits10 n) = CHR ''0'' \<Longrightarrow> n = 0"
proof (induction n rule: digits10.induct)
  case (1 n)
  show ?case
  proof (cases "n < 10")
    case True
    with "1.prems" have "digit_char n = CHR ''0''" by (simp add: digits10.simps [of n])
    then have "n = digit_val CHR ''0''" using digit_val_digit_char [OF True] by simp
    then show ?thesis by (simp add: digit_val_def)
  next
    case False
    then have "hd (digits10 n) = hd (digits10 (n div 10))" by (simp add: digits10.simps [of n])
    with 1 False show ?thesis by simp
  qed
qed

lemma ends_value_not_digit: "ends_value r \<Longrightarrow> takeWhile is_digit r = [] \<and> dropWhile is_digit r = r"
  by (cases r) (auto simp: ends_value_def is_digit_def)

lemma lex_int_digits10: "ends_value r \<Longrightarrow> lex_int (digits10 n @ r) = Some (digits10 n, r)"
proof -
  assume r: "ends_value r"
  obtain c t where d: "digits10 n = c # t" using digits10_nonempty by (cases "digits10 n") auto
  have all: "\<forall>x \<in> set (digits10 n). is_digit x" using digits10_digits by blast
  show ?thesis
  proof (cases "c = CHR ''0''")
    case True
    with d have "n = 0" using digits10_zero [of n] by simp
    with d have "t = []" by (simp add: digits10.simps)
    with True d show ?thesis by (simp add: lex_int_def)
  next
    case False
    with all d r show ?thesis
      by (auto simp: lex_int_def digits_of_def takeWhile_append dropWhile_append ends_value_not_digit)
  qed
qed

lemma lex_rest: "ends_value r \<Longrightarrow> lex_frac r = Some ([], r) \<and> lex_exp r = Some ([], r)"
  by (cases r) (auto simp: ends_value_def lex_frac_def lex_exp_def)

lemma lex_number_FormatInt: "ends_value r \<Longrightarrow> lex_number (FormatInt n @ r) = Some (FormatInt n, r)"
proof -
  assume r: "ends_value r"
  have "lex_number (digits10 m @ r) = Some (digits10 m, r) \<and>
      lex_number (CHR ''-'' # digits10 m @ r) = Some (CHR ''-'' # digits10 m, r)" for m
  proof -
    obtain c t where d: "digits10 m = c # t" using digits10_nonempty by (cases "digits10 m") auto
    then have "c \<noteq> CHR ''-''" using hd_digits10_digit [of m] is_digit_not_sign by auto
    with d lex_int_digits10 [OF r, of m] lex_rest [OF r] show ?thesis by (simp add: lex_number_def)
  qed
  then show ?thesis by (simp add: FormatInt_def)
qed

lemma FormatInt_hd: "\<exists>c t. FormatInt n = c # t \<and> (is_digit c \<or> c = CHR ''-'')"
proof (cases "n < 0")
  case False
  then show ?thesis using hd_digits10_digit [of "nat n"] digits10_nonempty [of "nat n"]
    by (cases "digits10 (nat n)") (simp_all add: FormatInt_def)
qed (simp add: FormatInt_def)

lemma digit_not_special: "is_digit c \<or> c = CHR ''-'' \<Longrightarrow>
   \<not> json_space c \<and> c \<notin> set [CHR ''{'', CHR ''['', CHR 0x22, CHR ''t'', CHR ''f'', CHR ''n'', CHR '']'', CHR ''}'', CHR '','']"
  by (auto simp: is_digit_def json_space_def)

lemma print_string_eq: "print_string s = CHR 0x22 # escaped s @ [CHR 0x22]"
  by (simp add: print_string_def escaped_def)

lemma parse_string:
  "valid_utf8 s \<Longrightarrow> parse_value (Suc n) d (print_string s @ r) = Some (JStr s, r)"
  by (simp add: print_string_eq skip_ws_def json_space_def scan_escaped unquote_escaped)

lemma parse_int: "ends_value r \<Longrightarrow> parse_value (Suc n) d (FormatInt i @ r) = Some (JNum (FormatInt i), r)"
proof -
  assume r: "ends_value r"
  obtain c t where c: "FormatInt i = c # t" "is_digit c \<or> c = CHR ''-''" using FormatInt_hd by blast
  with digit_not_special [OF c(2)] lex_number_FormatInt [OF r, of i] show ?thesis
    by (simp add: skip_ws_def literal_def HasPrefix_def)
qed

lemma print_json_hd:
  "json_ok v \<Longrightarrow> \<exists>c t. print_json v = c # t \<and> \<not> json_space c \<and> c \<noteq> CHR '']'' \<and> c \<noteq> CHR ''}''"
proof (cases v)
  case (JNum x)
  assume "json_ok v"
  with JNum obtain i where "x = FormatInt i" by auto
  with JNum FormatInt_hd [of i] digit_not_special show ?thesis by fastforce
qed (auto simp: print_string_eq json_space_def)

lemma skip_print: "json_ok v \<Longrightarrow> skip_ws (print_json v @ r) = print_json v @ r"
  using print_json_hd [of v] by (auto simp: skip_ws_def)

lemma skip_print_string: "skip_ws (print_string s @ r) = print_string s @ r"
  by (simp add: print_string_eq skip_ws_def json_space_def)

lemma depth_nonneg [simp]: "0 \<le> json_depth v" "0 \<le> items_depth vs" "0 \<le> members_depth ms"
  by (induction v and vs and ms rule: json_depth_items_depth_members_depth.induct) auto

lemma ends_value_Cons [simp]: "ends_value (CHR '','' # r)" "ends_value (CHR '']'' # r)" "ends_value (CHR ''}'' # r)"
  by (simp_all add: ends_value_def)

lemma skip_ws_delim [simp]:
  "skip_ws (CHR '','' # r) = CHR '','' # r" "skip_ws (CHR '']'' # r) = CHR '']'' # r"
  "skip_ws (CHR ''}'' # r) = CHR ''}'' # r" "skip_ws (CHR '':'' # r) = CHR '':'' # r"
  "skip_ws (CHR ''{'' # r) = CHR ''{'' # r" "skip_ws (CHR ''['' # r) = CHR ''['' # r"
  by (simp_all add: skip_ws_def json_space_def)

lemma print_items_hd:
  "items_ok (v # vs) \<Longrightarrow> \<exists>c t. print_items (v # vs) = c # t \<and> \<not> json_space c \<and> c \<noteq> CHR '']''"
  using print_json_hd [of v] by (cases vs) auto

lemma print_members_hd: "\<exists>t. print_members ((k, v) # ms) = CHR 0x22 # t"
  by (cases ms) (auto simp: print_string_eq)

lemma print_parse_all:
  "json_ok v \<Longrightarrow> d + json_depth v \<le> maxNestingDepth \<Longrightarrow> ends_value r \<Longrightarrow> 2 * length (print_json v) < n \<Longrightarrow>
     parse_value n d (print_json v @ r) = Some (v, r)"
  "items_ok vs \<Longrightarrow> vs \<noteq> [] \<Longrightarrow> d + items_depth vs \<le> maxNestingDepth \<Longrightarrow> 2 * length (print_items vs) + 1 < n \<Longrightarrow>
     parse_items n d (print_items vs @ CHR '']'' # r) = Some (vs, r)"
  "members_ok ms \<Longrightarrow> ms \<noteq> [] \<Longrightarrow> d + members_depth ms \<le> maxNestingDepth \<Longrightarrow> 2 * length (print_members ms) + 1 < n \<Longrightarrow>
     parse_members n d (print_members ms @ CHR ''}'' # r) = Some (ms, r)"
proof (induction v and vs and ms arbitrary: n d r and n d r and n d r
    rule: print_json_print_items_print_members.induct)
  case 1
  then show ?case by (cases n) (simp_all add: skip_ws_def json_space_def literal_def HasPrefix_def)
next
  case (2 b)
  then show ?case by (cases n; cases b) (simp_all add: skip_ws_def json_space_def literal_def HasPrefix_def)
next
  case (3 x)
  then show ?case by (cases n) (auto simp: parse_int simp del: parse_value.simps)
next
  case (4 s)
  then show ?case by (cases n) (auto simp: parse_string simp del: parse_value.simps)
next
  case (5 vs)
  then obtain m where n: "n = Suc m" by (cases n) auto
  show ?case
  proof (cases vs)
    case Nil
    with 5 n show ?thesis by simp
  next
    case (Cons w ws)
    then obtain c t where h: "print_items vs = c # t" "\<not> json_space c" "c \<noteq> CHR '']''"
      using print_items_hd [of w ws] 5 by auto
    then have "skip_ws (print_items vs @ x) = c # t @ x" for x by (simp add: skip_ws_def)
    moreover have "parse_items m (d + 1) (print_items vs @ CHR '']'' # r) = Some (vs, r)"
      using 5 n Cons by (intro "5.IH") auto
    moreover have "\<not> maxNestingDepth \<le> d"
      using "5.prems"(2) depth_nonneg(2) [of vs] unfolding json_depth.simps by linarith
    ultimately show ?thesis using n h(3) by simp
  qed
next
  case (6 ms)
  then obtain m where n: "n = Suc m" by (cases n) auto
  show ?case
  proof (cases ms)
    case Nil
    with 6 n show ?thesis by simp
  next
    case (Cons kv ws)
    then obtain t where h: "print_members ms = CHR 0x22 # t"
      using print_members_hd [of "fst kv" "snd kv" ws] by auto
    then have "skip_ws (print_members ms @ x) = CHR 0x22 # t @ x" for x by (simp add: skip_ws_def json_space_def)
    moreover have "parse_members m (d + 1) (print_members ms @ CHR ''}'' # r) = Some (ms, r)"
      using 6 n Cons by (intro "6.IH") auto
    moreover have "\<not> maxNestingDepth \<le> d"
      using "6.prems"(2) depth_nonneg(3) [of ms] unfolding json_depth.simps by linarith
    ultimately show ?thesis using n by simp
  qed
next
  case (8 v)
  then obtain m where n: "n = Suc m" by (cases n) auto
  have "parse_value m d (print_json v @ CHR '']'' # r) = Some (v, CHR '']'' # r)"
    using 8 n by (intro "8.IH") auto
  with n show ?case by simp
next
  case (9 v w vs)
  then obtain m where n: "n = Suc m" by (cases n) auto
  have "parse_value m d (print_json v @ CHR '','' # x) = Some (v, CHR '','' # x)" for x
    using 9 n by (intro "9.IH"(1)) auto
  moreover have "parse_items m d (print_items (w # vs) @ CHR '']'' # r) = Some (w # vs, r)"
    using 9 n by (intro "9.IH"(2)) auto
  ultimately show ?case using n by simp
next
  case (11 k v)
  then obtain m where n: "n = Suc m" by (cases n) auto
  have "parse_value m d (print_json v @ CHR ''}'' # r) = Some (v, CHR ''}'' # r)"
    using 11 n by (intro "11.IH") auto
  with 11 n show ?case
    by (simp add: print_string_eq skip_ws_def json_space_def scan_escaped unquote_escaped)
next
  case (12 k v m0 ms)
  then obtain m where n: "n = Suc m" by (cases n) auto
  have "parse_value m d (print_json v @ CHR '','' # x) = Some (v, CHR '','' # x)" for x
    using 12 n by (intro "12.IH"(1)) auto
  moreover have "parse_members m d (print_members (m0 # ms) @ CHR ''}'' # r) = Some (m0 # ms, r)"
    using 12 n by (intro "12.IH"(2)) auto
  ultimately show ?case using 12 n
    by (simp add: print_string_eq skip_ws_def json_space_def scan_escaped unquote_escaped)
qed simp_all

lemma json_parse_print:
  assumes "json_ok v" "json_depth v \<le> maxNestingDepth"
  shows "json_parse (print_json v) = Some v"
proof -
  have "parse_value (2 * length (print_json v) + 1) 0 (print_json v @ []) = Some (v, [])"
    using assms by (intro print_parse_all(1)) (auto simp: ends_value_def)
  then show ?thesis by (simp add: json_parse_def skip_ws_def)
qed

end
