(* ===== verification/Jwt.thy ===== *)
theory Jwt
  imports Json_Roundtrip Token_Service
begin

text \<open>
  The JWT implementation of \<open>internal/jwt\<close>: claim types and their decoding, dates, validation,
  signing and the two parsers.

  RSA, ECDSA and SHA-256 are the fields of the record \<open>crypto\<close>; keys are values of its type
  variables. A claims type is a record of its decoder and its getters, as the interface \<open>Claims\<close> is.
  \<open>lower\<close> is \<open>unicode.ToLower\<close> on runes outside ASCII. A result of errors is the list of the
  sentinel errors it wraps, empty for success.
\<close>

section \<open>Errors\<close>

datatype jwt_error =
    TokenMalformed
  | TokenUnverifiable
  | TokenSignatureInvalid
  | TokenExpired
  | TokenNotValidYet
  | TokenUsedBeforeIssued
  | TokenInvalidAudience
  | TokenInvalidIssuer
  | TokenRequiredClaimMissing
  | InvalidKeyType
  | OtherError

section \<open>Numbers as float64\<close>

text \<open>A JSON number as \<open>m * 10 ^ e\<close>.\<close>

definition digits_value :: "string \<Rightarrow> int" where
  "digits_value ds = foldl (\<lambda>acc c. acc * 10 + (byte c - 48)) 0 ds"

definition decimal :: "string \<Rightarrow> int \<times> int" where
  "decimal s =
     (let neg = (s \<noteq> [] \<and> hd s = CHR ''-'');
          (i, r) = digits_of (if neg then tl s else s);
          (f, r1) = (if r \<noteq> [] \<and> hd r = CHR ''.'' then digits_of (tl r) else ([], r));
          x = (if r1 = [] then 0
               else case tl r1 of
                 [] \<Rightarrow> 0
               | c # ds \<Rightarrow> if c = CHR ''-'' then - digits_value ds
                           else if c = CHR ''+'' then digits_value ds else digits_value (c # ds));
          m = digits_value (i @ f)
      in (if neg then - m else m, x - int (length f)))"

text \<open>\<open>ParseFloat\<close> fails with a range error from half a unit above the largest double on.\<close>

definition float_overflow :: "int \<times> int \<Rightarrow> bool" where
  "float_overflow x =
     (case x of (m, e) \<Rightarrow>
        if 0 \<le> e then 2 ^ 1024 - 2 ^ 970 \<le> \<bar>m\<bar> * 10 ^ nat e
        else (2 ^ 1024 - 2 ^ 970) * 10 ^ nat (- e) \<le> \<bar>m\<bar>)"

definition round_half_even :: "int \<Rightarrow> int \<Rightarrow> int" where
  "round_half_even a d =
     (let t = a div d; r = a mod d
      in if 2 * r < d \<or> 2 * r = d \<and> even t then t else t + 1)"

fun bit_length :: "int \<Rightarrow> nat" where
  "bit_length n = (if n \<le> 0 then 0 else Suc (bit_length (n div 2)))"

declare bit_length.simps [simp del]

text \<open>The double nearest to \<open>n / d\<close> below \<open>2 ^ 53\<close>, as \<open>(r, q)\<close> for \<open>r / 2 ^ q\<close>: 53 significant bits, ties
  to even. Values below the normal range keep more bits than a double has, which no use here observes.\<close>

definition float_round :: "int \<Rightarrow> int \<Rightarrow> int \<times> nat" where
  "float_round n d =
     (if n = 0 then (0, 0)
      else let k = int (bit_length n) - int (bit_length d);
               above = (if 0 \<le> k then 2 ^ nat k * d \<le> n else d \<le> n * 2 ^ nat (- k));
               q = nat (if above then 52 - k else 53 - k)
           in (round_half_even (n * 2 ^ q) d, q))"

section \<open>Dates\<close>

definition minNumericDate :: int where "minNumericDate = - 62135596800"
definition maxNumericDate :: int where "maxNumericDate = 253402300799"

definition unix_time :: "int \<Rightarrow> time" where
  "unix_time s = (s + unix_epoch_seconds) * Second"

definition NumericDate_MarshalJSON :: "time \<Rightarrow> json" where
  "NumericDate_MarshalJSON t = JNum (FormatInt (Unix (NewNumericDate t)))"

text \<open>The whole seconds and the nanoseconds of the rounded value, as \<open>math.Modf\<close> and the conversions
  give them; \<open>Truncate\<close> rounds down.\<close>

definition date_of_number :: "string \<Rightarrow> time option" where
  "date_of_number s =
     (case decimal s of (m, e) \<Rightarrow>
        let n = \<bar>m\<bar> * 10 ^ nat e; d = 10 ^ nat (- e) in
        if 2 ^ 53 * d \<le> n then None
        else case float_round n d of (r, q) \<Rightarrow>
          if (if m < 0 then - minNumericDate else maxNumericDate) * 2 ^ q < r then None
          else let whole = r div 2 ^ q;
                   nanos = (case float_round (r mod 2 ^ q * 1000000000) (2 ^ q) of (r', q') \<Rightarrow> r' div 2 ^ q');
                   ns = (if m < 0 then - (whole * 1000000000 + nanos) else whole * 1000000000 + nanos)
               in Some (NewNumericDate (ns + unix_epoch_seconds * 1000000000)))"

text \<open>\<open>json.Number\<close> takes a number or a string that spells one.\<close>

definition NumericDate_UnmarshalJSON :: "json \<Rightarrow> time option" where
  "NumericDate_UnmarshalJSON v =
     (case v of
        JNum s \<Rightarrow> date_of_number s
      | JStr s \<Rightarrow> if isValidNumber s then date_of_number s else None
      | _ \<Rightarrow> None)"

section \<open>Decoding into structs\<close>

definition rune_values :: "string \<Rightarrow> int list" where
  "rune_values s = map (\<lambda>ch. case fst ch of Some r \<Rightarrow> r | None \<Rightarrow> 0xFFFD) (runes s)"

text \<open>The name folding of \<open>encoding/json\<close>, as far as it can meet an ASCII name: letters ignore case, the
  Kelvin sign folds to K and the long s to S.\<close>

definition fold_rune :: "int \<Rightarrow> int" where
  "fold_rune r =
     (if 0x61 \<le> r \<and> r \<le> 0x7A then r - 0x20 else if r = 0x212A then 0x4B else if r = 0x17F then 0x53 else r)"

definition foldName :: "string \<Rightarrow> int list" where
  "foldName s = map fold_rune (rune_values s)"

type_synonym 'c fields = "(string \<times> (json \<Rightarrow> 'c \<Rightarrow> 'c option)) list"

definition match_field :: "'c fields \<Rightarrow> string \<Rightarrow> (json \<Rightarrow> 'c \<Rightarrow> 'c option) option" where
  "match_field fs k =
     (case map_of fs k of
        Some f \<Rightarrow> Some f
      | None \<Rightarrow> map_option snd (find (\<lambda>(n, f). foldName n = foldName k) fs))"

text \<open>Members in order, so that the last one that matches a field decides it; unknown names are
  skipped.\<close>

fun decode_members :: "'c fields \<Rightarrow> (string \<times> json) list \<Rightarrow> 'c \<Rightarrow> 'c option" where
  "decode_members fs [] c = Some c"
| "decode_members fs ((k, v) # ms) c =
     (case match_field fs k of
        None \<Rightarrow> decode_members fs ms c
      | Some f \<Rightarrow> (case f v c of None \<Rightarrow> None | Some c' \<Rightarrow> decode_members fs ms c'))"

definition decode_struct :: "'c fields \<Rightarrow> json \<Rightarrow> 'c \<Rightarrow> 'c option" where
  "decode_struct fs v c =
     (case v of JNull \<Rightarrow> Some c | JObj ms \<Rightarrow> decode_members fs ms c | _ \<Rightarrow> None)"

definition string_field :: "((string \<Rightarrow> string) \<Rightarrow> 'c \<Rightarrow> 'c) \<Rightarrow> json \<Rightarrow> 'c \<Rightarrow> 'c option" where
  "string_field upd v c = (case v of JStr s \<Rightarrow> Some (upd (\<lambda>_. s) c) | JNull \<Rightarrow> Some c | _ \<Rightarrow> None)"

definition date_field :: "((time option \<Rightarrow> time option) \<Rightarrow> 'c \<Rightarrow> 'c) \<Rightarrow> json \<Rightarrow> 'c \<Rightarrow> 'c option" where
  "date_field upd v c =
     (if v = JNull then Some (upd (\<lambda>_. None) c)
      else map_option (\<lambda>t. upd (\<lambda>_. Some t) c) (NumericDate_UnmarshalJSON v))"

fun strings_of :: "json list \<Rightarrow> string list option" where
  "strings_of [] = Some []"
| "strings_of (JStr s # vs) = map_option ((#) s) (strings_of vs)"
| "strings_of (v # vs) = None"

text \<open>\<open>ClaimStrings.UnmarshalJSON\<close>: a string or an array of strings.\<close>

definition aud_field :: "((string list \<Rightarrow> string list) \<Rightarrow> 'c \<Rightarrow> 'c) \<Rightarrow> json \<Rightarrow> 'c \<Rightarrow> 'c option" where
  "aud_field upd v c =
     (case v of
        JStr s \<Rightarrow> Some (upd (\<lambda>_. [s]) c)
      | JArr vs \<Rightarrow> map_option (\<lambda>xs. upd (\<lambda>_. xs) c) (strings_of vs)
      | JNull \<Rightarrow> Some c
      | _ \<Rightarrow> None)"

text \<open>A \<open>[]string\<close> field: the elements are appended to an emptied slice, a null one as the empty string.\<close>

definition strings_field :: "((string list \<Rightarrow> string list) \<Rightarrow> 'c \<Rightarrow> 'c) \<Rightarrow> json \<Rightarrow> 'c \<Rightarrow> 'c option" where
  "strings_field upd v c =
     (case v of
        JArr vs \<Rightarrow> map_option (\<lambda>xs. upd (\<lambda>_. xs) c) (strings_of (map (\<lambda>v. if v = JNull then JStr [] else v) vs))
      | JNull \<Rightarrow> Some (upd (\<lambda>_. []) c)
      | _ \<Rightarrow> None)"

text \<open>An \<open>int64\<close> field takes integer literals in range only.\<close>

definition int64_field :: "((int \<Rightarrow> int) \<Rightarrow> 'c \<Rightarrow> 'c) \<Rightarrow> json \<Rightarrow> 'c \<Rightarrow> 'c option" where
  "int64_field upd v c =
     (case v of
        JNum s \<Rightarrow> (case ParseInt s of (n, None) \<Rightarrow> Some (upd (\<lambda>_. n) c) | _ \<Rightarrow> None)
      | JNull \<Rightarrow> Some c
      | _ \<Rightarrow> None)"

section \<open>Claims\<close>

record 'c claims_type =
  ct_fields :: "'c fields"
  ct_zero :: 'c
  GetExpirationTime :: "'c \<Rightarrow> time option"
  GetIssuedAt :: "'c \<Rightarrow> time option"
  GetNotBefore :: "'c \<Rightarrow> time option"
  GetIssuer :: "'c \<Rightarrow> string"
  GetAudience :: "'c \<Rightarrow> string list"

record RegisteredClaims =
  g_iss :: string
  g_sub :: string
  g_aud :: "string list"
  g_exp :: "time option"
  g_nbf :: "time option"
  g_iat :: "time option"
  g_jti :: string

text \<open>The registered fields of a struct that embeds \<open>RegisteredClaims\<close>, by the updates of its own fields.\<close>

definition registered_fields ::
  "((string \<Rightarrow> string) \<Rightarrow> 'c \<Rightarrow> 'c) \<Rightarrow> ((string \<Rightarrow> string) \<Rightarrow> 'c \<Rightarrow> 'c) \<Rightarrow> ((string list \<Rightarrow> string list) \<Rightarrow> 'c \<Rightarrow> 'c) \<Rightarrow>
   ((time option \<Rightarrow> time option) \<Rightarrow> 'c \<Rightarrow> 'c) \<Rightarrow> ((time option \<Rightarrow> time option) \<Rightarrow> 'c \<Rightarrow> 'c) \<Rightarrow>
   ((time option \<Rightarrow> time option) \<Rightarrow> 'c \<Rightarrow> 'c) \<Rightarrow> ((string \<Rightarrow> string) \<Rightarrow> 'c \<Rightarrow> 'c) \<Rightarrow> 'c fields" where
  "registered_fields iss sub aud exp nbf iat jti =
     [(''iss'', string_field iss), (''sub'', string_field sub), (''aud'', aud_field aud), (''exp'', date_field exp),
      (''nbf'', date_field nbf), (''iat'', date_field iat), (''jti'', string_field jti)]"

section \<open>Validation\<close>

record validationConfig =
  cfg_validMethods :: "string list"
  cfg_expectedIssuer :: string
  cfg_expectedAud :: string
  cfg_requireExp :: bool
  cfg_verifyIat :: bool
  cfg_skipValidation :: bool

definition no_config :: validationConfig where
  "no_config = \<lparr> cfg_validMethods = [], cfg_expectedIssuer = [], cfg_expectedAud = [], cfg_requireExp = False,
     cfg_verifyIat = False, cfg_skipValidation = False \<rparr>"

type_synonym ParseOption = "validationConfig \<Rightarrow> validationConfig"

definition WithValidMethods :: "string list \<Rightarrow> ParseOption" where
  "WithValidMethods methods cfg = cfg\<lparr> cfg_validMethods := methods \<rparr>"

definition WithIssuer :: "string \<Rightarrow> ParseOption" where
  "WithIssuer iss cfg = cfg\<lparr> cfg_expectedIssuer := iss \<rparr>"

definition WithAudience :: "string \<Rightarrow> ParseOption" where
  "WithAudience aud cfg = cfg\<lparr> cfg_expectedAud := aud \<rparr>"

definition WithExpirationRequired :: ParseOption where
  "WithExpirationRequired cfg = cfg\<lparr> cfg_requireExp := True \<rparr>"

definition WithIssuedAt :: ParseOption where
  "WithIssuedAt cfg = cfg\<lparr> cfg_verifyIat := True \<rparr>"

definition WithoutClaimsValidation :: ParseOption where
  "WithoutClaimsValidation cfg = cfg\<lparr> cfg_skipValidation := True \<rparr>"

definition validateClaims :: "'c claims_type \<Rightarrow> time \<Rightarrow> validationConfig \<Rightarrow> 'c \<Rightarrow> jwt_error list" where
  "validateClaims ct now cfg c =
     (case GetExpirationTime ct c of
        None \<Rightarrow> if cfg_requireExp cfg then [TokenRequiredClaimMissing] else []
      | Some exp \<Rightarrow> if \<not> now < exp then [TokenExpired] else []) @
     (case GetNotBefore ct c of
        Some nbf \<Rightarrow> if now < nbf then [TokenNotValidYet] else []
      | None \<Rightarrow> []) @
     (if cfg_verifyIat cfg then
        (case GetIssuedAt ct c of
           Some iat \<Rightarrow> if now < iat then [TokenUsedBeforeIssued] else []
         | None \<Rightarrow> [])
      else []) @
     (if cfg_expectedIssuer cfg \<noteq> [] \<and> GetIssuer ct c \<noteq> cfg_expectedIssuer cfg then [TokenInvalidIssuer] else []) @
     (if cfg_expectedAud cfg \<noteq> [] \<and> cfg_expectedAud cfg \<notin> set (GetAudience ct c) then [TokenInvalidAudience] else [])"

section \<open>Keys and signatures\<close>

record ('r, 'e) crypto =
  cr_sha256 :: "string \<Rightarrow> string"
  cr_rsa_verify :: "'r \<Rightarrow> string \<Rightarrow> string \<Rightarrow> bool"
  cr_on_p256 :: "'e \<Rightarrow> bool"
  cr_ecdsa_verify :: "'e \<Rightarrow> string \<Rightarrow> string \<Rightarrow> bool"

text \<open>What a \<open>Keyfunc\<close> may return; \<open>None\<close> is a nil pointer of the type.\<close>

datatype ('r, 'e) any_key = RSAPublicKey "'r option" | ECDSAPublicKey "'e option" | OtherKey

definition VerifyRS256 :: "('r, 'e) crypto \<Rightarrow> string \<Rightarrow> string \<Rightarrow> 'r option \<Rightarrow> jwt_error list" where
  "VerifyRS256 cr signing sig key =
     (case key of
        None \<Rightarrow> [InvalidKeyType]
      | Some k \<Rightarrow> if cr_rsa_verify cr k (cr_sha256 cr signing) sig then [] else [OtherError])"

definition isRawRS :: "string \<Rightarrow> bool" where
  "isRawRS sig \<longleftrightarrow> length sig = 64"

text \<open>The DER encoding of a nonnegative integer: no leading zero byte but the one that keeps it
  nonnegative. The lengths here stay below 128.\<close>

definition der_integer :: "string \<Rightarrow> string" where
  "der_integer bs =
     (let m = dropWhile (\<lambda>c. c = CHR 0x00) bs;
          body = (if m = [] then [CHR 0x00] else if 0x80 \<le> byte (hd m) then CHR 0x00 # m else m)
      in CHR 0x02 # char_of (length body) # body)"

definition rawRSToDER :: "string \<Rightarrow> string" where
  "rawRSToDER sig =
     (let half = length sig div 2;
          body = der_integer (take half sig) @ der_integer (drop half sig)
      in CHR 0x30 # char_of (length body) # body)"

definition VerifyES256 :: "('r, 'e) crypto \<Rightarrow> string \<Rightarrow> string \<Rightarrow> 'e option \<Rightarrow> jwt_error list" where
  "VerifyES256 cr signing sig key =
     (case key of
        None \<Rightarrow> [InvalidKeyType]
      | Some k \<Rightarrow>
          if \<not> cr_on_p256 cr k then [InvalidKeyType]
          else let derSig = (if isRawRS sig then rawRSToDER sig else sig)
               in if cr_ecdsa_verify cr k (cr_sha256 cr signing) derSig then [] else [TokenSignatureInvalid])"

section \<open>Parsing\<close>

text \<open>Exactly two dots.\<close>

definition splitToken :: "string \<Rightarrow> (string \<times> string \<times> string) option" where
  "splitToken raw =
     (case cut_at CHR ''.'' raw of
        None \<Rightarrow> None
      | Some (h, remain) \<Rightarrow>
          (case cut_at CHR ''.'' remain of
             None \<Rightarrow> None
           | Some (p, remain') \<Rightarrow> if CHR ''.'' \<in> set remain' then None else Some (h, p, remain')))"

text \<open>Decoding into \<open>any\<close> converts every number, wherever it stands.\<close>

fun floats_ok :: "json \<Rightarrow> bool" and floats_ok_items :: "json list \<Rightarrow> bool"
  and floats_ok_members :: "(string \<times> json) list \<Rightarrow> bool" where
  "floats_ok (JNum s) = (\<not> float_overflow (decimal s))"
| "floats_ok (JArr vs) = floats_ok_items vs"
| "floats_ok (JObj ms) = floats_ok_members ms"
| "floats_ok _ = True"
| "floats_ok_items [] = True"
| "floats_ok_items (v # vs) = (floats_ok v \<and> floats_ok_items vs)"
| "floats_ok_members [] = True"
| "floats_ok_members ((k, v) # ms) = (floats_ok v \<and> floats_ok_members ms)"

definition decode_header :: "string \<Rightarrow> (string \<times> json) list option" where
  "decode_header s =
     (case json_parse s of
        Some (JObj ms) \<Rightarrow> if floats_ok_members ms then Some ms else None
      | Some JNull \<Rightarrow> Some []
      | _ \<Rightarrow> None)"

text \<open>A map keeps the last member of a name.\<close>

definition header_get :: "(string \<times> json) list \<Rightarrow> string \<Rightarrow> json option" where
  "header_get h k = map_of (rev h) k"

definition header_string :: "(string \<times> json) list \<Rightarrow> string \<Rightarrow> string" where
  "header_string h k = (case header_get h k of Some (JStr s) \<Rightarrow> s | _ \<Rightarrow> [])"

definition lower_name :: "(int \<Rightarrow> int) \<Rightarrow> string \<Rightarrow> int list" where
  "lower_name lower s =
     map (\<lambda>r. if r < 0x80 then (if 0x41 \<le> r \<and> r \<le> 0x5A then r + 0x20 else r) else lower r) (rune_values s)"

definition refuseAmbiguousClaimNames :: "(int \<Rightarrow> int) \<Rightarrow> json \<Rightarrow> bool" where
  "refuseAmbiguousClaimNames lower v =
     (case v of JObj ms \<Rightarrow> \<not> distinct (map (lower_name lower \<circ> fst) ms) | _ \<Rightarrow> False)"

record 'c Token =
  tk_header :: "(string \<times> json) list"
  tk_claims :: 'c
  tk_signature :: string
  tk_raw :: string
  tk_valid :: bool

type_synonym ('c, 'r, 'e) keyfunc = "'c Token \<Rightarrow> jwt_error list + ('r, 'e) any_key"

text \<open>The claims segment: base64, JSON, no ambiguous name, then the struct.\<close>

definition decode_claims :: "(int \<Rightarrow> int) \<Rightarrow> 'c claims_type \<Rightarrow> string \<Rightarrow> 'c option" where
  "decode_claims lower ct seg =
     Option.bind (decodeSegment seg) (\<lambda>bytes.
       Option.bind (json_parse bytes) (\<lambda>v.
         if refuseAmbiguousClaimNames lower v then None else decode_struct (ct_fields ct) v (ct_zero ct)))"

definition verify_signature ::
  "('r, 'e) crypto \<Rightarrow> string \<Rightarrow> string \<Rightarrow> string \<Rightarrow> ('r, 'e) any_key \<Rightarrow> jwt_error list" where
  "verify_signature cr alg signing sig key =
     (if alg = ''RS256'' then
        (case key of
           RSAPublicKey k \<Rightarrow> if VerifyRS256 cr signing sig k = [] then [] else [TokenSignatureInvalid]
         | _ \<Rightarrow> [InvalidKeyType])
      else if alg = ''ES256'' then
        (case key of
           ECDSAPublicKey k \<Rightarrow> if VerifyES256 cr signing sig k = [] then [] else [TokenSignatureInvalid]
         | _ \<Rightarrow> [InvalidKeyType])
      else [TokenUnverifiable])"

definition ParseWithClaims ::
  "('r, 'e) crypto \<Rightarrow> (int \<Rightarrow> int) \<Rightarrow> 'c claims_type \<Rightarrow> time \<Rightarrow> string \<Rightarrow> ('c, 'r, 'e) keyfunc option \<Rightarrow> ParseOption list \<Rightarrow>
     'c Token option \<times> jwt_error list" where
  "ParseWithClaims cr lower ct now tokenString keyFunc opts =
     (let cfg = foldl (\<lambda>c opt. opt c) no_config opts in
      case splitToken tokenString of
        None \<Rightarrow> (None, [TokenMalformed])
      | Some (headerSeg, payloadSeg, sigSeg) \<Rightarrow>
          (case Option.bind (decodeSegment headerSeg) decode_header of
             None \<Rightarrow> (None, [TokenMalformed])
           | Some header \<Rightarrow>
               let alg = header_string header ''alg'' in
               if alg = [] then (None, [TokenUnverifiable])
               else if cfg_validMethods cfg \<noteq> [] \<and> alg \<notin> set (cfg_validMethods cfg) then (None, [TokenSignatureInvalid])
               else case decode_claims lower ct payloadSeg of
                 None \<Rightarrow> (None, [TokenMalformed])
               | Some claims \<Rightarrow>
                   (case decodeSegment sigSeg of
                      None \<Rightarrow> (None, [TokenMalformed])
                    | Some sigBytes \<Rightarrow>
                        let token = \<lparr> tk_header = header, tk_claims = claims, tk_signature = sigBytes,
                                      tk_raw = tokenString, tk_valid = False \<rparr> in
                        (case keyFunc of
                           None \<Rightarrow> (Some token, [TokenUnverifiable])
                         | Some kf \<Rightarrow>
                             (case kf token of
                                Inl errs \<Rightarrow> (Some token, TokenUnverifiable # errs)
                              | Inr key \<Rightarrow>
                                  (case verify_signature cr alg (headerSeg @ ''.'' @ payloadSeg) sigBytes key of
                                     e # es \<Rightarrow> (Some token, e # es)
                                   | [] \<Rightarrow>
                                       let errs = (if cfg_skipValidation cfg then []
                                                   else validateClaims ct now cfg claims)
                                       in if errs \<noteq> [] then (Some token, errs)
                                          else (Some (token\<lparr> tk_valid := True \<rparr>), [])))))))"

definition ParseUnverified :: "(int \<Rightarrow> int) \<Rightarrow> 'c claims_type \<Rightarrow> string \<Rightarrow> 'c Token option \<times> jwt_error list" where
  "ParseUnverified lower ct tokenString =
     (case splitToken tokenString of
        None \<Rightarrow> (None, [TokenMalformed])
      | Some (headerSeg, payloadSeg, sigSeg) \<Rightarrow>
          (case Option.bind (decodeSegment headerSeg) decode_header of
             None \<Rightarrow> (None, [TokenMalformed])
           | Some header \<Rightarrow>
               (case decode_claims lower ct payloadSeg of
                  None \<Rightarrow> (None, [TokenMalformed])
                | Some claims \<Rightarrow>
                    (Some \<lparr> tk_header = header, tk_claims = claims,
                            tk_signature = (case decodeSegment sigSeg of Some b \<Rightarrow> b | None \<Rightarrow> []),
                            tk_raw = tokenString, tk_valid = False \<rparr>, []))))"

section \<open>Signing\<close>

text \<open>\<open>sign key hash\<close> is \<open>rsa.SignPKCS1v15\<close>, \<open>None\<close> where it fails.\<close>

definition SignRS256Bytes :: "('r, 'e) crypto \<Rightarrow> ('k \<Rightarrow> string \<Rightarrow> string option) \<Rightarrow> string \<Rightarrow> 'k option \<Rightarrow> string option" where
  "SignRS256Bytes cr sign signing key =
     (case key of None \<Rightarrow> None | Some k \<Rightarrow> sign k (cr_sha256 cr signing))"

definition SignRS256 ::
  "('r, 'e) crypto \<Rightarrow> ('k \<Rightarrow> string \<Rightarrow> string option) \<Rightarrow> json \<Rightarrow> 'k option \<Rightarrow> string \<Rightarrow> string option" where
  "SignRS256 cr sign claims key kid =
     (let header = JObj [(''alg'', JStr ''RS256''), (''kid'', JStr kid), (''typ'', JStr ''JWT'')];
          signing = encodeSegment (print_json header) @ ''.'' @ encodeSegment (print_json claims)
      in map_option (\<lambda>sig. signing @ ''.'' @ encodeSegment sig) (SignRS256Bytes cr sign signing key))"

section \<open>What an accepted token went through\<close>

lemma cut_at_Some: "cut_at c s = Some (a, b) \<longleftrightarrow> s = a @ c # b \<and> c \<notin> set a"
proof
  assume "cut_at c s = Some (a, b)"
  then have c: "c \<in> set s" and a: "a = takeWhile (\<lambda>x. x \<noteq> c) s" and b: "b = tl (dropWhile (\<lambda>x. x \<noteq> c) s)"
    by (auto simp: cut_at_def split: if_splits)
  from c obtain d where "dropWhile (\<lambda>x. x \<noteq> c) s = c # d"
    by (metis (mono_tags, lifting) dropWhile_eq_Nil_conv hd_dropWhile list.collapse)
  with a b show "s = a @ c # b \<and> c \<notin> set a"
    by (metis (mono_tags, lifting) list.sel(3) set_takeWhileD takeWhile_dropWhile_id)
next
  assume "s = a @ c # b \<and> c \<notin> set a"
  then show "cut_at c s = Some (a, b)" by (auto simp: cut_at_def takeWhile_append dropWhile_append)
qed

lemma splitToken_Some:
  "splitToken raw = Some (h, p, s) \<longleftrightarrow>
     raw = h @ ''.'' @ p @ ''.'' @ s \<and> CHR ''.'' \<notin> set h \<and> CHR ''.'' \<notin> set p \<and> CHR ''.'' \<notin> set s"
proof
  assume "splitToken raw = Some (h, p, s)"
  then show "raw = h @ ''.'' @ p @ ''.'' @ s \<and> CHR ''.'' \<notin> set h \<and> CHR ''.'' \<notin> set p \<and> CHR ''.'' \<notin> set s"
    by (auto simp: splitToken_def cut_at_Some split: option.splits if_splits)
next
  assume r: "raw = h @ ''.'' @ p @ ''.'' @ s \<and> CHR ''.'' \<notin> set h \<and> CHR ''.'' \<notin> set p \<and> CHR ''.'' \<notin> set s"
  then have "cut_at CHR ''.'' raw = Some (h, p @ CHR ''.'' # s)" "cut_at CHR ''.'' (p @ CHR ''.'' # s) = Some (p, s)"
    by (simp_all add: cut_at_Some)
  with r show "splitToken raw = Some (h, p, s)" by (simp add: splitToken_def)
qed

lemma verify_signature_ok:
  "verify_signature cr alg signing sig key = [] \<Longrightarrow>
     (\<exists>k. alg = ''RS256'' \<and> key = RSAPublicKey (Some k) \<and> cr_rsa_verify cr k (cr_sha256 cr signing) sig) \<or>
     (\<exists>k. alg = ''ES256'' \<and> key = ECDSAPublicKey (Some k) \<and> cr_on_p256 cr k \<and>
        cr_ecdsa_verify cr k (cr_sha256 cr signing) (if isRawRS sig then rawRSToDER sig else sig))"
  by (auto simp: verify_signature_def VerifyRS256_def VerifyES256_def Let_def split: if_splits any_key.splits option.splits)

lemma ParseWithClaims_ok:
  assumes "ParseWithClaims cr lower ct now raw (Some kf) opts = (Some t, [])"
  obtains h p s key where "splitToken raw = Some (h, p, s)"
    "Option.bind (decodeSegment h) decode_header = Some (tk_header t)"
    "header_string (tk_header t) ''alg'' \<noteq> []"
    "cfg_validMethods (foldl (\<lambda>c opt. opt c) no_config opts) \<noteq> [] \<Longrightarrow>
       header_string (tk_header t) ''alg'' \<in> set (cfg_validMethods (foldl (\<lambda>c opt. opt c) no_config opts))"
    "decode_claims lower ct p = Some (tk_claims t)" "decodeSegment s = Some (tk_signature t)"
    "kf (t\<lparr> tk_valid := False \<rparr>) = Inr key"
    "verify_signature cr (header_string (tk_header t) ''alg'') (h @ ''.'' @ p) (tk_signature t) key = []"
    "\<not> cfg_skipValidation (foldl (\<lambda>c opt. opt c) no_config opts) \<Longrightarrow>
       validateClaims ct now (foldl (\<lambda>c opt. opt c) no_config opts) (tk_claims t) = []"
    "tk_raw t = raw" "tk_valid t"
  using assms unfolding ParseWithClaims_def Let_def
  by (auto split: option.splits prod.splits if_splits sum.splits list.splits)

section \<open>One spelling per token\<close>

lemma splitToken_encoded:
  "splitToken (encodeSegment a @ ''.'' @ encodeSegment b @ ''.'' @ encodeSegment c) =
     Some (encodeSegment a, encodeSegment b, encodeSegment c)"
  by (simp add: splitToken_Some encodeSegment_no_dot)

lemma token_canonical:
  assumes "splitToken raw = Some (h, p, s)" "decodeSegment h = Some hb" "decodeSegment p = Some pb" "decodeSegment s = Some sb"
  shows "raw = encodeSegment hb @ ''.'' @ encodeSegment pb @ ''.'' @ encodeSegment sb"
  using assms by (simp add: splitToken_Some encode_decode)

section \<open>Dates\<close>

lemma float_round_int:
  assumes "0 \<le> n" "n < 2 ^ 53"
  shows "\<exists>q. float_round n 1 = (n * 2 ^ q, q)"
proof (cases "n = 0")
  case False
  with assms show ?thesis by (simp add: float_round_def Let_def round_half_even_def)
qed (simp add: float_round_def)

lemma digits_value_snoc: "digits_value (s @ [c]) = digits_value s * 10 + (byte c - 48)"
  by (simp add: digits_value_def)

lemma byte_digit_char: "d < 10 \<Longrightarrow> byte (digit_char d) = int d + 48"
proof -
  assume "d < 10"
  then have "(of_char (digit_char d) :: nat) = 48 + d" by (simp add: digit_char_def)
  then have "int (of_char (digit_char d)) = int d + 48" by simp
  then show ?thesis by (simp only: of_nat_of_char)
qed

lemma digits_value_digits10: "digits_value (digits10 n) = int n"
proof (induction n rule: digits10.induct)
  case (1 n)
  show ?case
  proof (cases "n < 10")
    case True
    then show ?thesis by (simp add: digits10.simps [of n] digits_value_def byte_digit_char)
  next
    case False
    then have "digits_value (digits10 n) = int (n div 10) * 10 + int (n mod 10)"
      using 1 by (simp add: digits10.simps [of n] digits_value_snoc byte_digit_char)
    then show ?thesis by (metis div_mult_mod_eq of_nat_add of_nat_mult of_nat_numeral)
  qed
qed

lemma decimal_FormatInt: "decimal (FormatInt n) = (n, 0)"
proof -
  have d: "digits_of (digits10 m) = (digits10 m, [])" for m
    using digits10_digits by (auto simp: digits_of_def takeWhile_eq_all_conv dropWhile_eq_Nil_conv)
  have "hd (digits10 m) \<noteq> CHR ''-''" for m using is_digit_not_sign [OF hd_digits10_digit] by auto
  then show ?thesis
    by (simp add: decimal_def FormatInt_def d Let_def digits_value_digits10)
qed

lemma date_of_FormatInt:
  assumes "minNumericDate \<le> n" "n \<le> maxNumericDate"
  shows "date_of_number (FormatInt n) = Some (unix_time n)"
proof -
  have b: "\<bar>n\<bar> < 2 ^ 53" using assms by (simp add: minNumericDate_def maxNumericDate_def)
  then obtain q where q: "float_round \<bar>n\<bar> 1 = (\<bar>n\<bar> * 2 ^ q, q)" using float_round_int [of "\<bar>n\<bar>"] by auto
  have z: "float_round 0 (2 ^ q) = (0, 0)" by (simp add: float_round_def)
  have "\<not> (if n < 0 then - minNumericDate else maxNumericDate) * 2 ^ q < \<bar>n\<bar> * 2 ^ q" using assms by (simp add: not_less)
  with b show ?thesis
    by (simp add: date_of_number_def decimal_FormatInt Let_def q z unix_time_def NewNumericDate_def algebra_simps not_le)
qed

lemma NumericDate_roundtrip:
  assumes "unix_time minNumericDate \<le> t" "t \<le> unix_time maxNumericDate" "NewNumericDate t = t"
  shows "NumericDate_UnmarshalJSON (NumericDate_MarshalJSON t) = Some t"
proof -
  have "t mod Second = 0" using assms(3) by (simp add: NewNumericDate_def)
  then have t: "t = unix_time (Unix t)" by (auto simp: unix_time_def Unix_def)
  then have "minNumericDate \<le> Unix t" "Unix t \<le> maxNumericDate"
    using assms(1,2) by (simp_all add: unix_time_def)
  with t assms(3) show ?thesis
    by (simp add: NumericDate_UnmarshalJSON_def NumericDate_MarshalJSON_def date_of_FormatInt)
qed

end
