(* ===== verification/Jwt_Auth.thy ===== *)
theory Jwt_Auth
  imports Jwt Audit_Log Cache "HOL-Library.List_Lexorder" "HOL-Library.Char_ord" "HOL-Library.Sublist"
begin

text \<open>
  Access tokens: the vault claims of \<open>internal/crypto/jwt.go\<close> with their encoding, \<open>ParseAndValidate\<close>
  and the published key set, and the middlewares of \<open>internal/middleware/auth.go\<close> that admit a
  request on them. A middleware's answer is the refusal it writes, a status and a code, or what it hands
  to the next handler.
\<close>

section \<open>Vault claims\<close>

definition MaxJWTSize :: int where "MaxJWTSize = 8192"
definition AllowedAlgorithm :: string where "AllowedAlgorithm = ''RS256''"

definition no_claims :: VaultClaims where
  "no_claims =
     \<lparr> c_iss = [], c_aud = [], c_sub = [], c_exp = None, c_nbf = None, c_iat = None, c_jti = [], c_roles = [],
       c_scopes = [], c_client_id = [], c_fingerprint = [], c_cnf = None, c_token_type = [], c_minted_by = [],
       c_acr = [], c_amr = [], c_auth_time = 0, c_factors = [], c_email = [] \<rparr>"

text \<open>The confirmation is a pointer to a struct: an object decodes into the struct it points to, or a
  fresh one.\<close>

definition cnf_field :: "json \<Rightarrow> VaultClaims \<Rightarrow> VaultClaims option" where
  "cnf_field v c =
     (case v of
        JNull \<Rightarrow> Some (c\<lparr> c_cnf := None \<rparr>)
      | JObj ms \<Rightarrow>
          map_option (\<lambda>j. c\<lparr> c_cnf := Some j \<rparr>)
            (decode_members [(''jkt'', string_field id)] ms (case c_cnf c of Some j \<Rightarrow> j | None \<Rightarrow> []))
      | _ \<Rightarrow> None)"

definition vault_fields :: "VaultClaims fields" where
  "vault_fields =
     registered_fields c_iss_update c_sub_update c_aud_update c_exp_update c_nbf_update c_iat_update c_jti_update @
     [(''roles'', strings_field c_roles_update), (''scopes'', strings_field c_scopes_update),
      (''client_id'', string_field c_client_id_update), (''fingerprint'', string_field c_fingerprint_update),
      (''cnf'', cnf_field), (''token_type'', string_field c_token_type_update),
      (''minted_by'', string_field c_minted_by_update), (''acr'', string_field c_acr_update),
      (''amr'', strings_field c_amr_update), (''auth_time'', int64_field c_auth_time_update),
      (''factors'', strings_field c_factors_update), (''email'', string_field c_email_update)]"

definition vault_claims :: "VaultClaims claims_type" where
  "vault_claims =
     \<lparr> ct_fields = vault_fields, ct_zero = no_claims, GetExpirationTime = c_exp, GetIssuedAt = c_iat,
       GetNotBefore = c_nbf, GetIssuer = c_iss, GetAudience = c_aud \<rparr>"

section \<open>Encoding\<close>

definition omit_string :: "string \<Rightarrow> string \<Rightarrow> (string \<times> json) list" where
  "omit_string k s = (if s = [] then [] else [(k, JStr s)])"

definition omit_strings :: "string \<Rightarrow> string list \<Rightarrow> (string \<times> json) list" where
  "omit_strings k xs = (if xs = [] then [] else [(k, JArr (map JStr xs))])"

definition omit_date :: "string \<Rightarrow> time option \<Rightarrow> (string \<times> json) list" where
  "omit_date k d = (case d of None \<Rightarrow> [] | Some t \<Rightarrow> [(k, NumericDate_MarshalJSON t)])"

definition omit_int :: "string \<Rightarrow> int \<Rightarrow> (string \<times> json) list" where
  "omit_int k n = (if n = 0 then [] else [(k, JNum (FormatInt n))])"

definition omit_cnf :: "string option \<Rightarrow> (string \<times> json) list" where
  "omit_cnf cnf = (case cnf of None \<Rightarrow> [] | Some j \<Rightarrow> [(''cnf'', JObj (omit_string ''jkt'' j))])"

text \<open>\<open>json.Marshal\<close> of the claims: the embedded registered ones first, every field \<open>omitempty\<close>.\<close>

definition marshal_claims :: "VaultClaims \<Rightarrow> (string \<times> json) list" where
  "marshal_claims c =
     omit_string ''iss'' (c_iss c) @ omit_string ''sub'' (c_sub c) @ omit_strings ''aud'' (c_aud c) @
     omit_date ''exp'' (c_exp c) @ omit_date ''nbf'' (c_nbf c) @ omit_date ''iat'' (c_iat c) @
     omit_string ''jti'' (c_jti c) @ omit_strings ''roles'' (c_roles c) @ omit_strings ''scopes'' (c_scopes c) @
     omit_string ''client_id'' (c_client_id c) @ omit_string ''fingerprint'' (c_fingerprint c) @
     omit_cnf (c_cnf c) @
     omit_string ''token_type'' (c_token_type c) @ omit_string ''minted_by'' (c_minted_by c) @
     omit_string ''acr'' (c_acr c) @ omit_strings ''amr'' (c_amr c) @
     omit_int ''auth_time'' (c_auth_time c) @
     omit_strings ''factors'' (c_factors c) @ omit_string ''email'' (c_email c)"

definition SignToken ::
  "('r, 'e) crypto \<Rightarrow> ('k \<Rightarrow> string \<Rightarrow> string option) \<Rightarrow> VaultClaims \<Rightarrow> 'k option \<Rightarrow> string \<Rightarrow> string option" where
  "SignToken cr sign claims key kid = SignRS256 cr sign (JObj (marshal_claims claims)) key kid"

section \<open>Accepting a token\<close>

definition isValidKID :: "string \<Rightarrow> bool" where
  "isValidKID kid \<longleftrightarrow>
     kid \<noteq> [] \<and> int (length kid) \<le> 64 \<and> list_all (\<lambda>c. hex_digit c \<noteq> None \<or> c = CHR ''-'') kid"

text \<open>The header rules, before the caller's key function sees the token.\<close>

definition guarded_keyfunc :: "('c, 'r, 'e) keyfunc \<Rightarrow> ('c, 'r, 'e) keyfunc" where
  "guarded_keyfunc keyFunc t =
     (let h = tk_header t in
      if list_ex (\<lambda>k. header_get h k \<noteq> None) [''jku'', ''x5u'', ''x5c'', ''jwk''] then Inl [OtherError]
      else if header_get h ''crit'' \<noteq> None then Inl [OtherError]
      else if header_string h ''kid'' = [] then Inl [OtherError]
      else if \<not> isValidKID (header_string h ''kid'') then Inl [OtherError]
      else keyFunc t)"

definition access_options :: "string \<Rightarrow> string \<Rightarrow> ParseOption list" where
  "access_options issuer audience =
     [WithValidMethods [AllowedAlgorithm], WithIssuer issuer, WithAudience audience, WithExpirationRequired, WithIssuedAt]"

abbreviation access_config :: "string \<Rightarrow> string \<Rightarrow> validationConfig" where
  "access_config issuer audience \<equiv> foldl (\<lambda>c opt. opt c) no_config (access_options issuer audience)"

definition ParseAndValidate ::
  "('r, 'e) crypto \<Rightarrow> (int \<Rightarrow> int) \<Rightarrow> time \<Rightarrow> string \<Rightarrow> (VaultClaims, 'r, 'e) keyfunc \<Rightarrow> string \<Rightarrow> string \<Rightarrow>
     jwt_error list + VaultClaims" where
  "ParseAndValidate cr lower now tokenString keyFunc issuer audience =
     (if MaxJWTSize < int (length tokenString) then Inl [OtherError]
      else case ParseWithClaims cr lower vault_claims now tokenString (Some (guarded_keyfunc keyFunc))
                  (access_options issuer audience) of
             (Some t, []) \<Rightarrow> Inr (tk_claims t)
           | (_, errs) \<Rightarrow> Inl errs)"

section \<open>The published key set\<close>

record JWK =
  jwk_kty :: string
  jwk_use :: string
  jwk_kid :: string
  jwk_alg :: string
  jwk_n :: string
  jwk_e :: string

text \<open>An exponent of at most four bytes, big endian without leading zeros; \<open>e\<close> is a nonnegative int.\<close>

definition encodeRSAExponent :: "int \<Rightarrow> string" where
  "encodeRSAExponent e =
     (if e < 256 then [char_of (e mod 256)]
      else if e < 65536 then [char_of (e div 256 mod 256), char_of (e mod 256)]
      else if e < 16777216 then [char_of (e div 65536 mod 256), char_of (e div 256 mod 256), char_of (e mod 256)]
      else [char_of (e div 16777216 mod 256), char_of (e div 65536 mod 256), char_of (e div 256 mod 256),
            char_of (e mod 256)])"

text \<open>A key is its modulus bytes and its exponent; the kids come out sorted.\<close>

definition SerializeJWKS :: "(string \<times> string \<times> int) list \<Rightarrow> JWK list" where
  "SerializeJWKS keys =
     map (\<lambda>(kid, n, e).
            \<lparr> jwk_kty = ''RSA'', jwk_use = ''sig'', jwk_kid = kid, jwk_alg = ''RS256'',
              jwk_n = encodeSegment n, jwk_e = encodeSegment (encodeRSAExponent e) \<rparr>)
       (sort_key fst keys)"

section \<open>The authentication middleware\<close>

datatype 'a answer = Refuse int string | Next 'a

definition schemeAllowed :: "bool \<Rightarrow> string \<Rightarrow> bool" where
  "schemeAllowed acceptDPoPScheme scheme \<longleftrightarrow>
     scheme = ''Bearer'' \<or> acceptDPoPScheme \<and> scheme = ''DPoP''"

text \<open>\<open>strings.SplitN(header, " ", 2)\<close> with two parts.\<close>

definition scheme_and_token :: "string \<Rightarrow> (string \<times> string) option" where
  "scheme_and_token h = cut_at CHR '' '' h"

text \<open>The key the header's kid names in the published set.\<close>

definition key_lookup :: "(string \<times> 'r option) list \<Rightarrow> ('c, 'r, 'e) keyfunc" where
  "key_lookup keys t =
     (case map_of keys (header_string (tk_header t) ''kid'') of
        None \<Rightarrow> Inl [TokenSignatureInvalid]
      | Some key \<Rightarrow> Inr (RSAPublicKey key))"

definition authWithTypes ::
  "('r, 'e) crypto \<Rightarrow> (int \<Rightarrow> int) \<Rightarrow> time \<Rightarrow> (string \<times> 'r option) list \<Rightarrow> string \<Rightarrow> string \<Rightarrow> bool \<Rightarrow> string list \<Rightarrow>
     http_request \<Rightarrow> VaultClaims answer" where
  "authWithTypes cr lower now keys issuer audience acceptDPoPScheme allowed r =
     (let authHeader = header_Get r ''Authorization'' in
      if authHeader = [] then Refuse 401 ''missing_authorization''
      else case scheme_and_token authHeader of
        None \<Rightarrow> Refuse 401 ''invalid_authorization''
      | Some (scheme, tokenStr) \<Rightarrow>
          if \<not> schemeAllowed acceptDPoPScheme scheme then Refuse 401 ''invalid_authorization''
          else case ParseAndValidate cr lower now tokenStr (key_lookup keys) issuer audience of
            Inl errs \<Rightarrow> Refuse 401 ''invalid_token''
          | Inr claims \<Rightarrow>
              let tt = (if c_token_type claims = [] then ''Bearer'' else c_token_type claims)
              in if tt \<notin> set allowed then Refuse 401 ''invalid_token_type'' else Next claims)"

definition Auth ::
  "('r, 'e) crypto \<Rightarrow> (int \<Rightarrow> int) \<Rightarrow> time \<Rightarrow> (string \<times> 'r option) list \<Rightarrow> string \<Rightarrow> string \<Rightarrow> bool \<Rightarrow>
     http_request \<Rightarrow> VaultClaims answer" where
  "Auth cr lower now keys issuer audience dpop r =
     authWithTypes cr lower now keys issuer audience dpop [''Bearer''] r"

definition AuthChallenge ::
  "('r, 'e) crypto \<Rightarrow> (int \<Rightarrow> int) \<Rightarrow> time \<Rightarrow> (string \<times> 'r option) list \<Rightarrow> string \<Rightarrow> string \<Rightarrow> bool \<Rightarrow>
     http_request \<Rightarrow> VaultClaims answer" where
  "AuthChallenge cr lower now keys issuer audience dpop r =
     authWithTypes cr lower now keys issuer audience dpop [''Bearer'', ''2fa_challenge''] r"

section \<open>Scopes and confirmation\<close>

text \<open>\<open>audit\<close> is the refusal event of \<open>WithScopeRefusalAudit\<close>, \<open>None\<close> without it; its row id, instant and
  store answer are the arguments of the write.\<close>

definition recordRefusal ::
  "proxy_config \<Rightarrow> (string \<Rightarrow> string) \<Rightarrow> bool \<Rightarrow> string option \<Rightarrow> time \<Rightarrow> string option \<Rightarrow> Logger \<Rightarrow> string \<Rightarrow> http_request \<Rightarrow>
     VaultClaims \<Rightarrow> string \<Rightarrow> Logger" where
  "recordRefusal px uni up i now audit l method r claims scope =
     (case audit of
        None \<Rightarrow> l
      | Some event \<Rightarrow>
          fst (audit_Log uni up i now l event (c_sub claims) (c_client_id claims) (ClientIP px r)
                 (header_Get r ''User-Agent'') [] []
                 (Some [(''success'', VBool False), (''reason'', VStr ''insufficient_scope''), (''scope'', VStr scope),
                        (''method'', VStr method), (''path'', VStr (hr_path r))])))"

definition RequireScope ::
  "proxy_config \<Rightarrow> (string \<Rightarrow> string) \<Rightarrow> bool \<Rightarrow> string option \<Rightarrow> time \<Rightarrow> string \<Rightarrow> string option \<Rightarrow> Logger \<Rightarrow> string \<Rightarrow>
     http_request \<Rightarrow> VaultClaims option \<Rightarrow> Logger \<times> VaultClaims answer" where
  "RequireScope px uni up i now scope audit l method r claims =
     (case claims of
        None \<Rightarrow> (l, Refuse 401 ''unauthorized'')
      | Some c \<Rightarrow>
          if scope \<in> set (c_scopes c) then (l, Next c)
          else (recordRefusal px uni up i now audit l method r c scope, Refuse 403 ''insufficient_scope''))"

definition Confirmed :: "'s Cache \<Rightarrow> 's \<Rightarrow> time \<Rightarrow> VaultClaims option \<Rightarrow> VaultClaims answer" where
  "Confirmed C s now claims =
     (case claims of
        None \<Rightarrow> Refuse 401 ''unauthorized''
      | Some c \<Rightarrow>
          (case Get C s now (''confirm:'' @ c_sub c) of
             Inl e \<Rightarrow> Refuse 403 ''requires_confirmation''
           | Inr val \<Rightarrow> if val = [] \<or> val \<noteq> c_jti c then Refuse 403 ''requires_confirmation'' else Next c))"

section \<open>Claims survive their encoding\<close>

lemma decode_members_append:
  "decode_members fs (xs @ ys) c = Option.bind (decode_members fs xs c) (decode_members fs ys)"
  by (induction fs xs c rule: decode_members.induct) (auto split: option.splits)

lemma decode_omit_string:
  "match_field fs k = Some (string_field upd) \<Longrightarrow> (s = [] \<Longrightarrow> upd (\<lambda>_. s) c = c) \<Longrightarrow>
     decode_members fs (omit_string k s) c = Some (upd (\<lambda>_. s) c)"
  by (simp add: omit_string_def string_field_def)

lemma strings_of_map [simp]: "strings_of (map JStr xs) = Some xs"
  by (induction xs) auto

lemma decode_omit_strings:
  "match_field fs k = Some (strings_field upd) \<Longrightarrow> (xs = [] \<Longrightarrow> upd (\<lambda>_. xs) c = c) \<Longrightarrow>
     decode_members fs (omit_strings k xs) c = Some (upd (\<lambda>_. xs) c)"
  "match_field fs k = Some (aud_field upd) \<Longrightarrow> (xs = [] \<Longrightarrow> upd (\<lambda>_. xs) c = c) \<Longrightarrow>
     decode_members fs (omit_strings k xs) c = Some (upd (\<lambda>_. xs) c)"
  by (auto simp: omit_strings_def strings_field_def aud_field_def comp_def)

definition date_ok :: "time option \<Rightarrow> bool" where
  "date_ok d = (case d of None \<Rightarrow> True
     | Some t \<Rightarrow> unix_time minNumericDate \<le> t \<and> t \<le> unix_time maxNumericDate \<and> NewNumericDate t = t)"

lemma decode_omit_date:
  "match_field fs k = Some (date_field upd) \<Longrightarrow> date_ok d \<Longrightarrow> (d = None \<Longrightarrow> upd (\<lambda>_. d) c = c) \<Longrightarrow>
     decode_members fs (omit_date k d) c = Some (upd (\<lambda>_. d) c)"
proof (cases d)
  case (Some t)
  assume "match_field fs k = Some (date_field upd)" "date_ok d"
  moreover have "NumericDate_MarshalJSON t \<noteq> JNull" by (simp add: NumericDate_MarshalJSON_def)
  ultimately show ?thesis using Some by (simp add: omit_date_def date_field_def date_ok_def NumericDate_roundtrip)
qed (simp add: omit_date_def)

lemma vault_match:
  "match_field vault_fields ''iss'' = Some (string_field c_iss_update)"
  "match_field vault_fields ''sub'' = Some (string_field c_sub_update)"
  "match_field vault_fields ''aud'' = Some (aud_field c_aud_update)"
  "match_field vault_fields ''exp'' = Some (date_field c_exp_update)"
  "match_field vault_fields ''nbf'' = Some (date_field c_nbf_update)"
  "match_field vault_fields ''iat'' = Some (date_field c_iat_update)"
  "match_field vault_fields ''jti'' = Some (string_field c_jti_update)"
  "match_field vault_fields ''roles'' = Some (strings_field c_roles_update)"
  "match_field vault_fields ''scopes'' = Some (strings_field c_scopes_update)"
  "match_field vault_fields ''client_id'' = Some (string_field c_client_id_update)"
  "match_field vault_fields ''fingerprint'' = Some (string_field c_fingerprint_update)"
  "match_field vault_fields ''cnf'' = Some cnf_field"
  "match_field vault_fields ''token_type'' = Some (string_field c_token_type_update)"
  "match_field vault_fields ''minted_by'' = Some (string_field c_minted_by_update)"
  "match_field vault_fields ''acr'' = Some (string_field c_acr_update)"
  "match_field vault_fields ''amr'' = Some (strings_field c_amr_update)"
  "match_field vault_fields ''auth_time'' = Some (int64_field c_auth_time_update)"
  "match_field vault_fields ''factors'' = Some (strings_field c_factors_update)"
  "match_field vault_fields ''email'' = Some (string_field c_email_update)"
  by (simp_all add: match_field_def vault_fields_def registered_fields_def)

lemma jkt_match: "match_field [(''jkt'', f)] ''jkt'' = Some f"
  by (simp add: match_field_def)

lemma decode_cnf:
  "c_cnf c = None \<Longrightarrow>
   decode_members vault_fields (omit_cnf j) c = Some (c\<lparr> c_cnf := j \<rparr>)"
  by (cases j) (auto simp: omit_cnf_def vault_match cnf_field_def omit_string_def jkt_match string_field_def)

lemma decode_auth_time:
  "in_int64 n \<Longrightarrow> c_auth_time c = 0 \<Longrightarrow>
   decode_members vault_fields (omit_int ''auth_time'' n) c = Some (c\<lparr> c_auth_time := n \<rparr>)"
  by (auto simp: omit_int_def vault_match int64_field_def)

lemma decode_marshal:
  assumes "date_ok (c_exp c)" "date_ok (c_nbf c)" "date_ok (c_iat c)" "in_int64 (c_auth_time c)"
  shows "decode_members vault_fields (marshal_claims c) no_claims = Some c"
proof -
  note s = decode_omit_string [of vault_fields] and l = decode_omit_strings [of vault_fields]
    and d = decode_omit_date [of vault_fields]
  show ?thesis
    unfolding marshal_claims_def decode_members_append
    using assms
    by (cases c) (simp add: no_claims_def vault_match s l d decode_cnf decode_auth_time)
qed

section \<open>An issued token is accepted\<close>

definition vault_names :: "string list" where
  "vault_names =
     [''iss'', ''sub'', ''aud'', ''exp'', ''nbf'', ''iat'', ''jti'', ''roles'', ''scopes'', ''client_id'', ''fingerprint'',
      ''cnf'', ''token_type'', ''minted_by'', ''acr'', ''amr'', ''auth_time'', ''factors'', ''email'']"

lemma subseq_omit:
  "subseq (map fst (omit_string k s)) [k]" "subseq (map fst (omit_strings k xs)) [k]"
  "subseq (map fst (omit_date k d)) [k]" "subseq (map fst (omit_int k n)) [k]" "subseq (map fst (omit_cnf j)) [''cnf'']"
  by (auto simp: omit_string_def omit_strings_def omit_date_def omit_int_def omit_cnf_def split: option.splits)

lemma marshal_names: "subseq (map fst (marshal_claims c)) vault_names"
proof -
  have names: "vault_names = [''iss''] @ [''sub''] @ [''aud''] @ [''exp''] @ [''nbf''] @ [''iat''] @ [''jti''] @ [''roles''] @
     [''scopes''] @ [''client_id''] @ [''fingerprint''] @ [''cnf''] @ [''token_type''] @ [''minted_by''] @ [''acr''] @
     [''amr''] @ [''auth_time''] @ [''factors''] @ [''email'']"
    by (simp add: vault_names_def)
  show ?thesis unfolding names marshal_claims_def map_append by (intro list_emb_append_mono subseq_omit)
qed

lemma lower_name_ascii:
  "\<forall>c \<in> set s. byte c < 0x80 \<Longrightarrow>
     lower_name lower s = map (\<lambda>c. if 0x41 \<le> byte c \<and> byte c \<le> 0x5A then byte c + 0x20 else byte c) s"
  by (simp add: lower_name_def rune_values_def runes_ascii comp_def)

lemma vault_names_distinct:
  "list_all (\<lambda>s. \<forall>c \<in> set s. byte c < 0x80) vault_names"
  "distinct (map (map (\<lambda>c. if 0x41 \<le> byte c \<and> byte c \<le> 0x5A then byte c + 0x20 else byte c)) vault_names)"
  by code_simp+

lemma marshal_unambiguous: "\<not> refuseAmbiguousClaimNames lower (JObj (marshal_claims c))"
proof -
  have "distinct (map (lower_name lower) vault_names)"
    using vault_names_distinct by (simp add: list_all_iff lower_name_ascii cong: map_cong)
  then have "distinct (map (lower_name lower) (map fst (marshal_claims c)))"
    using marshal_names [of c] by (metis distinct_nthsI subseq_conv_nths subseq_map)
  then show ?thesis by (simp add: refuseAmbiguousClaimNames_def comp_def)
qed

definition claims_text :: "VaultClaims \<Rightarrow> string list" where
  "claims_text c =
     [c_iss c, c_sub c, c_jti c, c_client_id c, c_fingerprint c, c_token_type c, c_minted_by c, c_acr c, c_email c] @
     (case c_cnf c of None \<Rightarrow> [] | Some j \<Rightarrow> [j]) @ c_aud c @ c_roles c @ c_scopes c @ c_amr c @ c_factors c"

definition claims_ok :: "VaultClaims \<Rightarrow> bool" where
  "claims_ok c \<longleftrightarrow> date_ok (c_exp c) \<and> date_ok (c_nbf c) \<and> date_ok (c_iat c) \<and> in_int64 (c_auth_time c) \<and>
     list_all valid_utf8 (claims_text c)"

lemma valid_utf8_ascii: "\<forall>c \<in> set s. byte c < 0x80 \<Longrightarrow> valid_utf8 s"
  by (simp add: valid_utf8_def runes_ascii list_all_iff)

lemma members_ok_append [simp]: "members_ok (xs @ ys) \<longleftrightarrow> members_ok xs \<and> members_ok ys"
  by (induction xs) auto

lemma members_depth_append [simp]: "members_depth (xs @ ys) = max (members_depth xs) (members_depth ys)"
  by (induction xs) auto

lemma items_JStr [simp]: "items_ok (map JStr xs) = list_all valid_utf8 xs" "items_depth (map JStr xs) = 0"
  by (induction xs) auto

lemma members_ok_omit:
  "valid_utf8 k \<Longrightarrow> valid_utf8 s \<Longrightarrow> members_ok (omit_string k s)"
  "valid_utf8 k \<Longrightarrow> list_all valid_utf8 xs \<Longrightarrow> members_ok (omit_strings k xs)"
  "valid_utf8 k \<Longrightarrow> members_ok (omit_date k d)" "valid_utf8 k \<Longrightarrow> members_ok (omit_int k n)"
  by (auto simp: omit_string_def omit_strings_def omit_date_def omit_int_def NumericDate_MarshalJSON_def split: option.splits)

lemma depth_omit:
  "members_depth (omit_string k s) \<le> 2" "members_depth (omit_strings k xs) \<le> 2"
  "members_depth (omit_date k d) \<le> 2" "members_depth (omit_int k n) \<le> 2" "members_depth (omit_cnf j) \<le> 2"
  by (auto simp: omit_string_def omit_strings_def omit_date_def omit_int_def omit_cnf_def NumericDate_MarshalJSON_def
      split: option.splits)

lemma vault_names_utf8: "list_all valid_utf8 (''jkt'' # vault_names)"
  by code_simp

lemma marshal_parse:
  assumes "claims_ok c"
  shows "json_parse (print_json (JObj (marshal_claims c))) = Some (JObj (marshal_claims c))"
proof (rule json_parse_print)
  have "members_ok (omit_cnf (c_cnf c))"
    using assms vault_names_utf8
    by (auto simp: omit_cnf_def claims_ok_def claims_text_def vault_names_def members_ok_omit split: option.splits)
  then show "json_ok (JObj (marshal_claims c))"
    using assms vault_names_utf8
    by (simp add: marshal_claims_def claims_ok_def claims_text_def vault_names_def members_ok_omit)
  have "members_depth (marshal_claims c) \<le> 2"
    unfolding marshal_claims_def members_depth_append
    by (intro max.boundedI depth_omit)
  then show "json_depth (JObj (marshal_claims c)) \<le> maxNestingDepth" by (simp add: maxNestingDepth_def)
qed

lemma isValidKID_ascii: "isValidKID kid \<Longrightarrow> \<forall>c \<in> set kid. byte c < 0x80"
  by (fastforce simp: isValidKID_def list_all_iff hex_digit_def Let_def split: if_splits)

definition token_header :: "string \<Rightarrow> (string \<times> json) list" where
  "token_header kid = [(''alg'', JStr ''RS256''), (''kid'', JStr kid), (''typ'', JStr ''JWT'')]"

lemma header_words_utf8: "list_all valid_utf8 [''alg'', ''kid'', ''typ'', ''RS256'', ''JWT'']"
  by code_simp

lemma header_parse:
  assumes "isValidKID kid"
  shows "decode_header (print_json (JObj (token_header kid))) = Some (token_header kid)"
proof -
  have "valid_utf8 kid" using isValidKID_ascii [OF assms] by (rule valid_utf8_ascii)
  then have "json_parse (print_json (JObj (token_header kid))) = Some (JObj (token_header kid))"
    using header_words_utf8 by (intro json_parse_print) (simp_all add: token_header_def maxNestingDepth_def)
  then show ?thesis by (simp add: decode_header_def token_header_def)
qed

lemma header_fields:
  "header_string (token_header kid) ''alg'' = ''RS256''" "header_string (token_header kid) ''kid'' = kid"
  by (auto simp: header_string_def header_get_def token_header_def)

lemma guarded_keyfunc_pass:
  "isValidKID kid \<Longrightarrow> tk_header t = token_header kid \<Longrightarrow> guarded_keyfunc kf t = kf t"
  by (simp add: guarded_keyfunc_def Let_def header_fields(2)) (auto simp: isValidKID_def header_get_def token_header_def)

lemma access_config:
  "cfg_validMethods (access_config issuer audience) = [''RS256'']" "\<not> cfg_skipValidation (access_config issuer audience)"
  "cfg_expectedIssuer (access_config issuer audience) = issuer" "cfg_expectedAud (access_config issuer audience) = audience"
  "cfg_requireExp (access_config issuer audience)" "cfg_verifyIat (access_config issuer audience)"
  by (simp_all add: access_options_def WithValidMethods_def WithIssuer_def WithAudience_def WithExpirationRequired_def
      WithIssuedAt_def no_config_def AllowedAlgorithm_def)

lemma signed_token_parses:
  assumes sign: "SignToken cr sign c key kid = Some tok" and kid: "isValidKID kid" and c: "claims_ok c"
    and size: "int (length tok) \<le> MaxJWTSize"
    and key: "\<And>t. tk_header t = token_header kid \<Longrightarrow> kf t = Inr (RSAPublicKey (Some pub))"
    and pair: "\<And>k h sig. key = Some k \<Longrightarrow> sign k h = Some sig \<Longrightarrow> cr_rsa_verify cr pub h sig"
    and valid: "validateClaims vault_claims now (access_config issuer audience) c = []"
  shows "ParseAndValidate cr lower now tok kf issuer audience = Inr c"
proof -
  define hs where "hs = encodeSegment (print_json (JObj (token_header kid)))"
  define ps where "ps = encodeSegment (print_json (JObj (marshal_claims c)))"
  from sign obtain k sig where k: "key = Some k" and s: "sign k (cr_sha256 cr (hs @ ''.'' @ ps)) = Some sig"
    and tok: "tok = hs @ ''.'' @ ps @ ''.'' @ encodeSegment sig"
    by (auto simp: SignToken_def SignRS256_def SignRS256Bytes_def Let_def hs_def ps_def token_header_def split: option.splits)
  have split: "splitToken tok = Some (hs, ps, encodeSegment sig)"
    unfolding tok hs_def ps_def by (rule splitToken_encoded)
  have dh: "Option.bind (decodeSegment hs) decode_header = Some (token_header kid)"
    by (simp add: hs_def header_parse [OF kid] del: print_json.simps)
  have dc: "decode_claims lower vault_claims ps = Some c"
    using c marshal_unambiguous [of lower c]
    by (simp add: decode_claims_def ps_def marshal_parse decode_struct_def vault_claims_def decode_marshal claims_ok_def
        del: print_json.simps)
  have v: "verify_signature cr ''RS256'' (hs @ ''.'' @ ps) sig (RSAPublicKey (Some pub)) = []"
    using pair [OF k s] by (simp add: verify_signature_def VerifyRS256_def)
  show ?thesis
    using size valid
    unfolding ParseAndValidate_def ParseWithClaims_def
    by (simp add: split dh dc v [simplified] access_config header_fields guarded_keyfunc_pass [OF kid] key Let_def)
qed

section \<open>Properties\<close>

lemma validated:
  assumes "validateClaims vault_claims now (access_config issuer audience) c = []"
  shows "(\<exists>e. c_exp c = Some e \<and> now < e) \<and> (\<forall>t. c_nbf c = Some t \<longrightarrow> t \<le> now) \<and> (\<forall>t. c_iat c = Some t \<longrightarrow> t \<le> now) \<and>
    (issuer \<noteq> [] \<longrightarrow> c_iss c = issuer) \<and> (audience \<noteq> [] \<longrightarrow> audience \<in> set (c_aud c))"
  using assms
  by (auto simp: validateClaims_def vault_claims_def access_config split: option.splits if_splits)

lemma ParseAndValidate_ok:
  assumes "ParseAndValidate cr lower now tok kf issuer audience = Inr c"
  obtains h p s hdr sig t key where "tok = h @ ''.'' @ p @ ''.'' @ s" "int (length tok) \<le> MaxJWTSize"
    "Option.bind (decodeSegment h) decode_header = Some hdr" "header_string hdr ''alg'' = ''RS256''"
    "tk_header t = hdr" "guarded_keyfunc kf t = Inr key" "decodeSegment s = Some sig"
    "verify_signature cr ''RS256'' (h @ ''.'' @ p) sig key = []" "decode_claims lower vault_claims p = Some c"
    "validateClaims vault_claims now (access_config issuer audience) c = []"
proof -
  from assms obtain t where size: "int (length tok) \<le> MaxJWTSize" and c: "c = tk_claims t"
    and ok: "ParseWithClaims cr lower vault_claims now tok (Some (guarded_keyfunc kf)) (access_options issuer audience) = (Some t, [])"
    unfolding ParseAndValidate_def by (auto split: if_splits prod.splits option.splits list.splits)
  from ok show ?thesis
  proof (rule ParseWithClaims_ok, goal_cases)
    case (1 h p s key)
    from 1(4) have alg: "header_string (tk_header t) ''alg'' = ''RS256''" by (simp add: access_config)
    with 1 size c show ?thesis
      by (intro that [of h p s "tk_header t" "t\<lparr> tk_valid := False \<rparr>" key "tk_signature t"])
         (simp_all add: splitToken_Some access_config)
  qed
qed

lemma guarded_keyfunc_ok:
  "guarded_keyfunc kf t = Inr key \<Longrightarrow> kf t = Inr key \<and> isValidKID (header_string (tk_header t) ''kid'')"
  by (auto simp: guarded_keyfunc_def Let_def split: if_splits)

text \<open>
  C9: A request passes the authentication middleware only on a token that one of the published keys
  signed: under an allowed scheme, of at most 8 KB, with the algorithm RS256 and a key the header's kid
  names, whose signature verifies over the very bytes the claims were decoded from; and whose claims
  are unexpired at this instant, already valid, already issued, of the expected issuer and audience and of
  an allowed type.
\<close>

theorem admitted_only_on_signed_live_token:
  assumes "authWithTypes cr lower now keys issuer audience dpop allowed r = Next c"
  shows "\<exists>scheme tok h p s hdr key sig.
     header_Get r ''Authorization'' = scheme @ '' '' @ tok \<and> schemeAllowed dpop scheme \<and>
     tok = h @ ''.'' @ p @ ''.'' @ s \<and> int (length tok) \<le> MaxJWTSize \<and>
     Option.bind (decodeSegment h) decode_header = Some hdr \<and> header_string hdr ''alg'' = ''RS256'' \<and>
     map_of keys (header_string hdr ''kid'') = Some (Some key) \<and> decodeSegment s = Some sig \<and>
     cr_rsa_verify cr key (cr_sha256 cr (h @ ''.'' @ p)) sig \<and> decode_claims lower vault_claims p = Some c \<and>
     (\<exists>e. c_exp c = Some e \<and> now < e) \<and> (\<forall>t. c_nbf c = Some t \<longrightarrow> t \<le> now) \<and> (\<forall>t. c_iat c = Some t \<longrightarrow> t \<le> now) \<and>
     (issuer \<noteq> [] \<longrightarrow> c_iss c = issuer) \<and> (audience \<noteq> [] \<longrightarrow> audience \<in> set (c_aud c)) \<and>
     (if c_token_type c = [] then ''Bearer'' else c_token_type c) \<in> set allowed"
proof -
  from assms obtain scheme tok where st: "scheme_and_token (header_Get r ''Authorization'') = Some (scheme, tok)"
    and sc: "schemeAllowed dpop scheme" and pv: "ParseAndValidate cr lower now tok (key_lookup keys) issuer audience = Inr c"
    and tt: "(if c_token_type c = [] then ''Bearer'' else c_token_type c) \<in> set allowed"
    by (auto simp: authWithTypes_def Let_def split: if_splits option.splits sum.splits)
  from pv show ?thesis
  proof (rule ParseAndValidate_ok, goal_cases)
    case (1 h p s hdr sig t key)
    from guarded_keyfunc_ok [OF 1(6)] 1(5) have kf: "map_of keys (header_string hdr ''kid'') \<noteq> None" "key = RSAPublicKey (the (map_of keys (header_string hdr ''kid'')))"
      by (auto simp: key_lookup_def split: option.splits)
    from verify_signature_ok [OF 1(8)] obtain k where k: "key = RSAPublicKey (Some k)" "cr_rsa_verify cr k (cr_sha256 cr (h @ ''.'' @ p)) sig"
      by auto
    have "header_Get r ''Authorization'' = scheme @ '' '' @ tok" using st by (simp add: scheme_and_token_def cut_at_Some)
    moreover have "map_of keys (header_string hdr ''kid'') = Some (Some k)" using kf k(1) by auto
    ultimately show ?thesis using 1 k(2) validated [OF 1(10)] sc tt by blast
  qed
qed

section \<open>Issued tokens are accepted\<close>

lemma bearer_admitted:
  assumes "header_Get r ''Authorization'' = ''Bearer '' @ tok"
    and "ParseAndValidate cr lower t tok (key_lookup keys) issuer audience = Inr c"
    and "c_token_type c = ''Bearer''" "''Bearer'' \<in> set allowed"
  shows "authWithTypes cr lower t keys issuer audience dpop allowed r = Next c"
proof -
  have "scheme_and_token (header_Get r ''Authorization'') = Some (''Bearer'', tok)"
    unfolding assms(1) scheme_and_token_def by (simp add: cut_at_Some)
  with assms show ?thesis by (simp add: authWithTypes_def schemeAllowed_def)
qed

lemma access_claims_valid:
  assumes "now \<le> t" "t < NewNumericDate (now + ts_accessTokenTTL s)"
  shows "validateClaims vault_claims t (access_config (ts_issuer s) (ts_audience s))
     (accessClaims s ctx now jti u roles scopes cid fp auth) = []"
proof -
  have "NewNumericDate now \<le> now" by (simp add: NewNumericDate_def)
  with assms show ?thesis by (auto simp: validateClaims_def vault_claims_def access_config accessClaims_def)
qed

text \<open>
  C10: An access token the token service issues is accepted by the middleware of the same issuer and
  audience, from the instant of issue to the second of its expiry, and hands the handler exactly the
  claims that were signed. The published key has to verify what the private key signs, the key id has to
  be in the key set, and the claims have to be text and dates that JSON and RFC 7519 can carry.
\<close>

theorem issued_token_is_accepted:
  assumes issue: "IssueTokenPairWithAuth (SignToken cr sign) s d now ctx u roles scopes cid fp fam rm auth = Inr pair"
    and req: "header_Get r ''Authorization'' = ''Bearer '' @ p_accessToken pair"
    and key: "map_of keys (ts_kid s) = Some (Some pub)" and kid: "isValidKID (ts_kid s)"
    and pair: "\<And>k h sig. ts_privateKey s = Some k \<Longrightarrow> sign k h = Some sig \<Longrightarrow> cr_rsa_verify cr pub h sig"
    and claims: "\<And>jti. d_jti d = Some jti \<Longrightarrow> claims_ok (accessClaims s ctx now jti u roles scopes cid fp auth)"
    and size: "int (length (p_accessToken pair)) \<le> MaxJWTSize"
    and time: "now \<le> t" "t < NewNumericDate (now + ts_accessTokenTTL s)"
  shows "\<exists>jti. d_jti d = Some jti \<and>
    Auth cr lower t keys (ts_issuer s) (ts_audience s) dpop r =
      Next (accessClaims s ctx now jti u roles scopes cid fp auth)"
  using issue
proof (rule issue_cases, goal_cases)
  case (1 jti)
  let ?c = "accessClaims s ctx now jti u roles scopes cid fp auth"
  have "ParseAndValidate cr lower t (p_accessToken pair) (key_lookup keys) (ts_issuer s) (ts_audience s) = Inr ?c"
    using 1(2) kid claims [OF 1(1)] size
  proof (rule signed_token_parses [where pub = pub])
    show "key_lookup keys t = Inr (RSAPublicKey (Some pub))" if "tk_header t = token_header (ts_kid s)" for t :: "VaultClaims Token"
      using that key by (simp add: key_lookup_def header_fields)
  qed (use pair access_claims_valid [OF time] in auto)
  then have "Auth cr lower t keys (ts_issuer s) (ts_audience s) dpop r = Next ?c"
    unfolding Auth_def by (intro bearer_admitted [OF req]) (simp_all add: accessClaims_def)
  with 1(1) show ?case by blast
qed

section \<open>A sample token\<close>

definition sample_crypto :: "(unit, unit) crypto" where
  "sample_crypto = \<lparr> cr_sha256 = take 8, cr_rsa_verify = (\<lambda>k h sig. sig = h), cr_on_p256 = (\<lambda>_. True),
     cr_ecdsa_verify = (\<lambda>_ _ _. False) \<rparr>"

definition sample_tokens :: "unit TokenService" where
  "sample_tokens = NewTokenService (Some ()) ''0a-1b'' ''vault'' ''app'' Minute Hour Hour"

definition sample_draws :: draws where
  "sample_draws = \<lparr> d_jti = Some ''j'', d_token = Some ''t'', d_family = Some ''f'', d_row = Some ''r'' \<rparr>"

definition sample_now :: time where "sample_now = unix_time 100"

definition sample_claims :: VaultClaims where
  "sample_claims = accessClaims sample_tokens \<lparr> ctx_thumbprint = ''k'' \<rparr> sample_now ''j'' ''alice'' [''user''] [''read''] [] [] no_auth"

definition sample_token :: string where
  "sample_token = the (SignToken sample_crypto (\<lambda>k h. Some h) sample_claims (Some ()) ''0a-1b'')"

definition bearer :: "string \<Rightarrow> http_request" where
  "bearer tok = \<lparr> hr_remoteAddr = ''192.0.2.7:1'', hr_path = ''/'', hr_header = [(''Authorization'', ''Bearer '' @ tok)] \<rparr>"

lemma sample_signed: "SignToken sample_crypto (\<lambda>k h. Some h) sample_claims (Some ()) ''0a-1b'' = Some sample_token"
  by (simp add: sample_token_def SignToken_def SignRS256_def SignRS256Bytes_def Let_def)

lemma sample_ok: "claims_ok sample_claims"
  by code_simp

lemma sample_kid: "isValidKID ''0a-1b''"
  by code_simp


lemma sample_pl: "int (length (print_json (JObj (marshal_claims sample_claims)))) \<le> 1000"
  by code_simp

lemma sample_hl: "int (length (print_json (JObj (token_header ''0a-1b'')))) \<le> 1000"
  by code_simp

lemma sample_size: "int (length sample_token) \<le> MaxJWTSize"
proof -
  define h where "h = encodeSegment (print_json (JObj (token_header ''0a-1b'')))"
  define p where "p = encodeSegment (print_json (JObj (marshal_claims sample_claims)))"
  define s where "s = encodeSegment (take 8 (h @ ''.'' @ p))"
  have tok: "sample_token = h @ ''.'' @ p @ ''.'' @ s"
    by (simp add: sample_token_def SignToken_def SignRS256_def SignRS256Bytes_def sample_crypto_def token_header_def
        h_def p_def s_def Let_def del: print_json.simps take_append)
  have "length h \<le> 1400" "length p \<le> 1400" using sample_pl sample_hl by (simp_all add: h_def p_def)
  moreover have short: "length (encodeSegment x) \<le> 11" if "length x \<le> 8" for x using that by simp
  have "length s \<le> 11" unfolding s_def by (rule short) simp
  ultimately show ?thesis unfolding tok by (simp add: MaxJWTSize_def)
qed

lemmas sample_checks = sample_ok sample_kid sample_size

lemma bearer_header: "header_Get (bearer tok) ''Authorization'' = ''Bearer '' @ tok"
proof -
  have "CanonicalHeaderKey ''Authorization'' = ''Authorization''" by code_simp
  then show ?thesis by (simp add: header_Get_def header_Values_def bearer_def)
qed

lemma sample_admitted:
  "authWithTypes sample_crypto id sample_now [(''0a-1b'', Some ())] ''vault'' ''app'' False [''Bearer''] (bearer sample_token) =
     Next sample_claims"
proof (rule bearer_admitted [OF bearer_header])
  show "ParseAndValidate sample_crypto id sample_now sample_token (key_lookup [(''0a-1b'', Some ())]) ''vault'' ''app'' = Inr sample_claims"
    using sample_signed
  proof (rule signed_token_parses [where pub = "()"])
    show "validateClaims vault_claims sample_now (access_config ''vault'' ''app'') sample_claims = []" by code_simp
  qed (use sample_checks in \<open>simp_all add: key_lookup_def header_fields sample_crypto_def\<close>)
qed (simp_all add: sample_claims_def accessClaims_def)


lemma sample_issued:
  "\<exists>pair. IssueTokenPairWithAuth (SignToken sample_crypto (\<lambda>k h. Some h)) sample_tokens sample_draws sample_now
     \<lparr> ctx_thumbprint = ''k'' \<rparr> ''alice'' [''user''] [''read''] [] [] [] False no_auth = Inr pair \<and> p_accessToken pair = sample_token"
proof -
  have "ts_privateKey sample_tokens = Some ()" "ts_kid sample_tokens = ''0a-1b''" "d_jti sample_draws = Some ''j''"
    "d_token sample_draws = Some ''t''" "d_family sample_draws = Some ''f''"
    by code_simp+
  then show ?thesis
    using sample_signed [unfolded sample_claims_def] by (simp add: IssueTokenPairWithAuth_def Let_def)
qed

theorem admitted_only_on_signed_live_token_witness:
  "\<exists>scheme tok h p s key sig. header_Get (bearer sample_token) ''Authorization'' = scheme @ '' '' @ tok \<and>
     tok = h @ ''.'' @ p @ ''.'' @ s \<and> decodeSegment s = Some sig \<and>
     cr_rsa_verify sample_crypto key (cr_sha256 sample_crypto (h @ ''.'' @ p)) sig \<and>
     decode_claims id vault_claims p = Some sample_claims \<and> (\<exists>e. c_exp sample_claims = Some e \<and> sample_now < e)"
  using admitted_only_on_signed_live_token [OF sample_admitted] by blast

theorem issued_token_is_accepted_witness:
  "Auth sample_crypto id sample_now [(''0a-1b'', Some ())] ''vault'' ''app'' False (bearer sample_token) = Next sample_claims"
proof -
  obtain pair where issue: "IssueTokenPairWithAuth (SignToken sample_crypto (\<lambda>k h. Some h)) sample_tokens sample_draws sample_now
     \<lparr> ctx_thumbprint = ''k'' \<rparr> ''alice'' [''user''] [''read''] [] [] [] False no_auth = Inr pair"
    and tok: "p_accessToken pair = sample_token"
    using sample_issued by blast
  have s: "ts_kid sample_tokens = ''0a-1b''" "ts_issuer sample_tokens = ''vault''" "ts_audience sample_tokens = ''app''"
    "sample_now < NewNumericDate (sample_now + ts_accessTokenTTL sample_tokens)" "d_jti sample_draws = Some ''j''"
    by code_simp+
  have "\<exists>jti. d_jti sample_draws = Some jti \<and>
    Auth sample_crypto id sample_now [(''0a-1b'', Some ())] (ts_issuer sample_tokens) (ts_audience sample_tokens) False (bearer sample_token) =
      Next (accessClaims sample_tokens \<lparr> ctx_thumbprint = ''k'' \<rparr> sample_now jti ''alice'' [''user''] [''read''] [] [] no_auth)"
    using sample_checks s
    by (intro issued_token_is_accepted [OF issue, where pub = "()"])
       (simp_all add: tok bearer_header sample_crypto_def sample_claims_def [symmetric])
  then show ?thesis by (simp add: s sample_claims_def)
qed


section \<open>One member per claim\<close>

definition json_lower :: "(int \<Rightarrow> int) \<Rightarrow> int \<Rightarrow> int" where
  "json_lower lower r = (if r < 0x80 then (if 0x41 \<le> r \<and> r \<le> 0x5A then r + 0x20 else r) else lower r)"

lemma lower_name_map: "lower_name lower s = map (json_lower lower) (rune_values s)"
  by (simp add: lower_name_def json_lower_def)

lemma fold_then_lower:
  assumes "fold_rune r = fold_rune a" "a < 0x80" "r \<noteq> 0x17F" "lower 0x212A = 0x6B"
  shows "json_lower lower r = json_lower lower a"
  using assms by (auto simp: fold_rune_def json_lower_def split: if_splits)

lemma folded_name_lower:
  assumes "foldName k = foldName n" "list_all (\<lambda>a. a < 0x80) (rune_values n)" "0x17F \<notin> set (rune_values k)"
    "lower 0x212A = 0x6B"
  shows "lower_name lower k = lower_name lower n"
proof (rule nth_equalityI)
  from assms(1) have len: "length (rune_values k) = length (rune_values n)"
    unfolding foldName_def by (metis length_map)
  then show "length (lower_name lower k) = length (lower_name lower n)" by (simp add: lower_name_map)
  fix i assume i: "i < length (lower_name lower k)"
  then have k: "i < length (rune_values k)" and n: "i < length (rune_values n)" using len by (simp_all add: lower_name_map)
  have "fold_rune (rune_values k ! i) = fold_rune (rune_values n ! i)"
    using assms(1) k n unfolding foldName_def by (metis nth_map)
  then have "json_lower lower (rune_values k ! i) = json_lower lower (rune_values n ! i)"
    using assms(2-4) k n by (intro fold_then_lower) (auto simp: list_all_length in_set_conv_nth)
  then show "lower_name lower k ! i = lower_name lower n ! i" using k n by (simp add: lower_name_map)
qed

lemma distinct_image_filter:
  "distinct (map f xs) \<Longrightarrow> \<forall>x \<in> set xs. P x \<longrightarrow> f x = y \<Longrightarrow> length (filter P xs) \<le> 1"
proof (induction xs)
  case (Cons x xs)
  show ?case
  proof (cases "P x")
    case True
    with Cons.prems have "y \<notin> f ` set xs" by auto
    with Cons.prems(2) have "\<forall>z \<in> set xs. \<not> P z" by (metis image_eqI list.set_intros(2))
    then have "filter P xs = []" by (simp add: filter_empty_conv)
    then show ?thesis by simp
  qed (use Cons in auto)
qed simp

lemma vault_names_ascii: "list_all (\<lambda>n. list_all (\<lambda>a. a < 0x80) (rune_values n)) vault_names"
  by code_simp

text \<open>
  C18: In a claims object that passes the check for ambiguous names, and in which no name contains the
  long s U+017F, at most one member can reach any field of the claims: no second spelling of a name,
  however cased, can override what the first one said. The table of lower case letters has to map the
  Kelvin sign to k, as Unicode's does.
\<close>

theorem accepted_names_reach_one_field:
  assumes "\<not> refuseAmbiguousClaimNames lower (JObj ms)" "n \<in> set vault_names" "lower 0x212A = 0x6B"
    "\<forall>(k, v) \<in> set ms. 0x17F \<notin> set (rune_values k)"
  shows "length (filter (\<lambda>(k, v). foldName k = foldName n) ms) \<le> 1"
proof (rule distinct_image_filter [where f = "lower_name lower \<circ> fst" and y = "lower_name lower n"])
  show "distinct (map (lower_name lower \<circ> fst) ms)" using assms(1) by (simp add: refuseAmbiguousClaimNames_def)
  show "\<forall>x \<in> set ms. (case x of (k, v) \<Rightarrow> foldName k = foldName n) \<longrightarrow> (lower_name lower \<circ> fst) x = lower_name lower n"
    using folded_name_lower [where n = n and lower = lower, OF _ _ _ assms(3)] vault_names_ascii assms(2,4)
    by (fastforce simp: list_all_iff)
qed

theorem accepted_names_reach_one_field_witness:
  "length (filter (\<lambda>(k, v). foldName k = foldName ''sub'') [(''SUB'', JStr ''alice''), (''jti'', JStr ''1'')]) \<le> 1"
  by (rule accepted_names_reach_one_field [where lower = "\<lambda>r. if r = 0x212A then 0x6B else r"])
     (code_simp, code_simp, simp, code_simp)

definition long_s_payload :: string where
  "long_s_payload = print_json (JObj [(''sub'', JStr ''alice''), ([CHR 0xC5, CHR 0xBF] @ ''ub'', JStr ''mallory'')])"

text \<open>
  C19: The long s is the exception: \<^verbatim>\<open>strings.ToLower\<close> keeps it, while
  \<^verbatim>\<open>encoding/json\<close> folds it into S. A payload that names the subject twice, once with the
  long s, passes the check for ambiguous names, and the second spelling wins.
\<close>

theorem long_s_name_overrides_subject:
  assumes "lower 0x17F = 0x17F"
  shows "\<exists>c. decode_claims lower vault_claims (encodeSegment long_s_payload) = Some c \<and> c_sub c = ''mallory''"
proof -
  let ?v = "JObj [(''sub'', JStr ''alice''), ([CHR 0xC5, CHR 0xBF] @ ''ub'', JStr ''mallory'')]"
  have parse: "json_parse long_s_payload = Some ?v" by code_simp
  have runes: "rune_values ''sub'' = [0x73, 0x75, 0x62]" "rune_values ([CHR 0xC5, CHR 0xBF] @ ''ub'') = [0x17F, 0x75, 0x62]"
    by code_simp+
  have "\<not> refuseAmbiguousClaimNames lower ?v"
    using assms runes by (simp add: refuseAmbiguousClaimNames_def lower_name_map json_lower_def)
  moreover have "map_option c_sub (decode_struct vault_fields ?v (ct_zero vault_claims)) = Some ''mallory''"
    by code_simp
  ultimately show ?thesis
    using parse by (auto simp: decode_claims_def decode_encode vault_claims_def)
qed

theorem long_s_name_overrides_subject_witness:
  "\<exists>c. decode_claims id vault_claims (encodeSegment long_s_payload) = Some c \<and> c_sub c = ''mallory''"
  by (rule long_s_name_overrides_subject) simp


section \<open>The decoder always ends\<close>



end
