(* ===== verification/Once_Keys.thy ===== *)
theory Once_Keys
  imports Memory_Cache "HOL-Library.Sublist"
begin

text \<open>
  Single-use keys on the memory cache. A replay guard claims a key with \<open>SetIfNotExists\<close>; this theory
  shows that the claim stands until it expires, whatever other requests, other users of the cache and
  the sweeper do, as long as nobody overwrites or deletes keys with the guard's prefix. The guards for
  DPoP proofs, TOTP codes and login challenges rest on it.
\<close>

text \<open>What other users may do to the keys with prefix \<open>p\<close>: only claim one of their own.\<close>

fun spares_keys :: "string \<Rightarrow> mem_op \<Rightarrow> bool" where
  "spares_keys p (MSet k v ttl) \<longleftrightarrow> \<not> prefix p k"
| "spares_keys p (MDelete k) \<longleftrightarrow> \<not> prefix p k"
| "spares_keys p (MGetAndDelete k) \<longleftrightarrow> \<not> prefix p k"
| "spares_keys p (MIncrement k ttl) \<longleftrightarrow> \<not> prefix p k"
| "spares_keys p (MSetIfNotExists k v ttl) \<longleftrightarrow> True"
| "spares_keys p MCleanup \<longleftrightarrow> True"
| "spares_keys p MClose \<longleftrightarrow> True"

lemma put_other: "k \<noteq> k' \<Longrightarrow> map_of (mc_data (mem_put m k' v x)) k = map_of (mc_data m) k"
  by (simp add: mem_put_def gomap_simps)

lemma exec_other_key:
  assumes "k \<noteq> k'" "op \<in> {MSet k' v ttl, MDelete k', MGetAndDelete k', MIncrement k' ttl, MSetIfNotExists k' v ttl}"
  shows "map_of (mc_data (mem_exec m (t, op))) k = map_of (mc_data m) k"
  using assms
  by (auto simp: mem_Set_def mem_Delete_def mem_GetAndDelete_def mem_Increment_def mem_SetIfNotExists_def mem_admit_def put_other
      gomap_simps Let_def split: prod.splits option.splits if_splits)

lemma exec_keeps_marker:
  assumes "mem_inv m" "mem_view m k = Some (v, x)" "t < x" "x \<noteq> 0" "prefix p k" "spares_keys p op"
  shows "mem_view (mem_exec m (t, op)) k = Some (v, x)"
proof -
  have k: "map_of (mc_data m) k = Some \<lparr> me_value = v, me_expiresAt = x \<rparr>" using assms(2) by (simp add: mem_view_Some)
  have "map_of (mc_data (mem_exec m (t, op))) k = map_of (mc_data m) k"
  proof (cases op)
    case (MSetIfNotExists k' w ttl)
    show ?thesis
    proof (cases "k' = k")
      case True
      with k MSetIfNotExists assms(3) show ?thesis by (simp add: mem_SetIfNotExists_def mem_holds_def)
    qed (use MSetIfNotExists exec_other_key [of k k' op w ttl] in auto)
  next
    case MCleanup
    then show ?thesis using k assms(1,3,4)
      by (auto simp: mem_cleanup_def mem_inv_def gomap_simps mem_expired_def)
  next
    case MClose
    then show ?thesis by (simp add: mem_Close_def)
  next
    case (MSet k' w ttl)
    with assms(5,6) show ?thesis by (intro exec_other_key [of k k' _ w ttl]) auto
  next
    case (MIncrement k' ttl)
    with assms(5,6) show ?thesis by (intro exec_other_key [of k k' _ _ ttl]) auto
  next
    case (MDelete k')
    with assms(5,6) show ?thesis by (intro exec_other_key [of k k']) auto
  next
    case (MGetAndDelete k')
    with assms(5,6) show ?thesis by (intro exec_other_key [of k k']) auto
  qed
  then show ?thesis using k by (simp add: mem_view_Some)
qed

lemma run_keeps_marker:
  assumes "mem_inv m" "mem_view m k = Some (v, x)" "t0 < x" "x \<noteq> 0" "prefix p k"
    "list_all (\<lambda>(t, op). spares_keys p op \<and> t \<le> t0) ops"
  shows "mem_view (foldl mem_exec m ops) k = Some (v, x)"
  using assms
proof (induction ops arbitrary: m)
  case (Cons a ops)
  obtain t op where a: "a = (t, op)" by fastforce
  from Cons.prems a have "mem_view (mem_exec m a) k = Some (v, x)"
    by (auto intro!: exec_keeps_marker)
  with Cons a show ?case using mem_exec_inv by auto
qed simp


lemma claimed_key_stays:
  assumes "mem_inv m" "0 < t1" "0 < ttl" "SetIfNotExists memory_cache m t1 k v ttl = (m1, Inr True)"
    "prefix p k" "list_all (\<lambda>(t, op). spares_keys p op \<and> t \<le> t2) ops" "t2 < t1 + ttl"
  shows "SetIfNotExists memory_cache (foldl mem_exec m1 ops) t2 k w ttl2 = (foldl mem_exec m1 ops, Inr False)"
proof -
  from mc.setnx_true [OF assms(1,2,4)] assms(3) have m1: "mem_inv m1" "mem_view m1 k = Some (v, t1 + ttl)"
    by (auto simp: expiry_of_def)
  have "mem_view (foldl mem_exec m1 ops) k = Some (v, t1 + ttl)"
    using run_keeps_marker [OF m1 assms(7) _ assms(5,6)] assms(2,3) by simp
  with assms(7) show ?thesis by (simp add: mem_SetIfNotExists_def mem_holds_def mem_view_Some)
qed

end
