(* ===== verification/Bytes.thy ===== *)
theory Bytes
  imports Base64url
begin

text \<open>
  Bytes as numbers and as text, where the cryptographic code of \<open>internal/crypto\<close> uses the standard
  library for it: big-endian integers (\<open>math/big\<close>, \<open>encoding/binary\<close>), \<open>encoding/hex\<close>,
  \<open>encoding/base32\<close> and the lax decoders of \<open>encoding/base64\<close>.
\<close>

section \<open>Definitions\<close>

definition be_value :: "string \<Rightarrow> int" where
  "be_value bs = foldl (\<lambda>n c. n * 256 + byte c) 0 bs"

function int_Bytes :: "int \<Rightarrow> string" where
  "int_Bytes n = (if n \<le> 0 then [] else int_Bytes (n div 256) @ [char_of (n mod 256)])"
  by pat_completeness auto
termination
  by (relation "measure nat") auto

declare int_Bytes.simps [simp del]

definition FillBytes :: "nat \<Rightarrow> int \<Rightarrow> string" where
  "FillBytes w n = (let b = int_Bytes n in replicate (w - length b) (CHR 0x00) @ b)"

text \<open>\<open>base64.RawURLEncoding\<close> without \<open>Strict\<close>: line breaks are skipped wherever they stand and the unused
  low bits of the last character are ignored.\<close>

fun octets_lax :: "int list \<Rightarrow> int list option" where
  "octets_lax (w # x # y # z # r) =
     map_option (\<lambda>bs. (w * 4 + x div 16) # ((x mod 16) * 16 + y div 4) # ((y mod 4) * 64 + z) # bs) (octets_lax r)"
| "octets_lax [w, x, y] = Some [w * 4 + x div 16, (x mod 16) * 16 + y div 4]"
| "octets_lax [w, x] = Some [w * 4 + x div 16]"
| "octets_lax [w] = None"
| "octets_lax [] = Some []"

definition RawURL_DecodeString :: "string \<Rightarrow> string option" where
  "RawURL_DecodeString s =
     (let cs = filter (\<lambda>c. c \<noteq> CHR 0x0D \<and> c \<noteq> CHR 0x0A) s
      in if list_all (\<lambda>c. b64_index c \<noteq> None) cs
         then map_option (map char_of) (octets_lax (map (\<lambda>c. the (b64_index c)) cs))
         else None)"

definition hextable :: "int \<Rightarrow> char" where
  "hextable d = (if d < 10 then char_of (d + 48) else char_of (d + 87))"

definition hex_EncodeToString :: "string \<Rightarrow> string" where
  "hex_EncodeToString bs = concat (map (\<lambda>c. [hextable (byte c div 16), hextable (byte c mod 16)]) bs)"

definition SHA256Hex :: "(string \<Rightarrow> string) \<Rightarrow> string \<Rightarrow> string" where
  "SHA256Hex sha256 s = hex_EncodeToString (sha256 s)"

definition SHA256Base64URL :: "(string \<Rightarrow> string) \<Rightarrow> string \<Rightarrow> string" where
  "SHA256Base64URL sha256 s = encodeSegment (sha256 s)"

text \<open>\<open>hex.DecodeString\<close>: two digits a byte, of either case.\<close>

fun hex_DecodeString :: "string \<Rightarrow> string option" where
  "hex_DecodeString (a # b # r) =
     (case (hex_digit a, hex_digit b) of
        (Some x, Some y) \<Rightarrow> map_option (\<lambda>bs. char_of (x * 16 + y) # bs) (hex_DecodeString r)
      | _ \<Rightarrow> None)"
| "hex_DecodeString [a] = None"
| "hex_DecodeString [] = Some []"

text \<open>\<open>base64.RawStdEncoding\<close> differs from the URL alphabet in its last two characters.\<close>

definition std_char :: "char \<Rightarrow> char" where
  "std_char c = (if c = CHR ''-'' then CHR ''+'' else if c = CHR ''_'' then CHR ''/'' else c)"

definition url_char :: "char \<Rightarrow> char" where
  "url_char c = (if c = CHR ''+'' then CHR ''-'' else if c = CHR ''/'' then CHR ''_'' else c)"

definition RawStd_EncodeToString :: "string \<Rightarrow> string" where
  "RawStd_EncodeToString d = map std_char (encodeSegment d)"

definition RawStd_DecodeString :: "string \<Rightarrow> string option" where
  "RawStd_DecodeString s =
     (if CHR ''-'' \<in> set s \<or> CHR ''_'' \<in> set s then None else RawURL_DecodeString (map url_char s))"

text \<open>\<open>base32.StdEncoding\<close> without padding. The decoder skips line breaks, ignores unused low bits and
  drops a rest of 1, 3 or 6 characters that makes no whole byte.\<close>

definition b32_char :: "int \<Rightarrow> char" where
  "b32_char i = (if i < 26 then char_of (i + 65) else char_of (i + 24))"

definition b32_index :: "char \<Rightarrow> int option" where
  "b32_index c =
     (let b = byte c in
      if 65 \<le> b \<and> b \<le> 90 then Some (b - 65) else if 50 \<le> b \<and> b \<le> 55 then Some (b - 24) else None)"

fun quintets :: "int list \<Rightarrow> int list" where
  "quintets (a # b # c # d # e # r) =
     a div 8 # (a mod 8 * 4 + b div 64) # b div 2 mod 32 # (b mod 2 * 16 + c div 16) # (c mod 16 * 2 + d div 128) #
     d div 4 mod 32 # (d mod 4 * 8 + e div 32) # e mod 32 # quintets r"
| "quintets [a, b, c, d] =
     [a div 8, a mod 8 * 4 + b div 64, b div 2 mod 32, b mod 2 * 16 + c div 16, c mod 16 * 2 + d div 128,
      d div 4 mod 32, d mod 4 * 8]"
| "quintets [a, b, c] = [a div 8, a mod 8 * 4 + b div 64, b div 2 mod 32, b mod 2 * 16 + c div 16, c mod 16 * 2]"
| "quintets [a, b] = [a div 8, a mod 8 * 4 + b div 64, b div 2 mod 32, b mod 2 * 16]"
| "quintets [a] = [a div 8, a mod 8 * 4]"
| "quintets [] = []"

fun octets32 :: "int list \<Rightarrow> int list" where
  "octets32 (p # q # r # s # t # u # v # w # z) =
     (p * 8 + q div 4) # (q mod 4 * 64 + r * 2 + s div 16) # (s mod 16 * 16 + t div 2) #
     (t mod 2 * 128 + u * 4 + v div 8) # (v mod 8 * 32 + w) # octets32 z"
| "octets32 [p, q, r, s, t, u, v] =
     [p * 8 + q div 4, q mod 4 * 64 + r * 2 + s div 16, s mod 16 * 16 + t div 2, t mod 2 * 128 + u * 4 + v div 8]"
| "octets32 [p, q, r, s, t, u] = []"
| "octets32 [p, q, r, s, t] = [p * 8 + q div 4, q mod 4 * 64 + r * 2 + s div 16, s mod 16 * 16 + t div 2]"
| "octets32 [p, q, r, s] = [p * 8 + q div 4, q mod 4 * 64 + r * 2 + s div 16]"
| "octets32 [p, q, r] = []"
| "octets32 [p, q] = [p * 8 + q div 4]"
| "octets32 [p] = []"
| "octets32 [] = []"

definition base32_EncodeToString :: "string \<Rightarrow> string" where
  "base32_EncodeToString d = map b32_char (quintets (map byte d))"

definition base32_DecodeString :: "string \<Rightarrow> string option" where
  "base32_DecodeString s =
     (let cs = filter (\<lambda>c. c \<noteq> CHR 0x0D \<and> c \<noteq> CHR 0x0A) s
      in if list_all (\<lambda>c. b32_index c \<noteq> None) cs then Some (map char_of (octets32 (map (\<lambda>c. the (b32_index c)) cs)))
         else None)"

section \<open>Big-endian integers\<close>

lemma be_value_snoc [simp]: "be_value [] = 0" "be_value (bs @ [c]) = be_value bs * 256 + byte c"
  by (simp_all add: be_value_def)

lemma be_value_int_Bytes [simp]: "0 \<le> n \<Longrightarrow> be_value (int_Bytes n) = n"
proof (induction n rule: int_Bytes.induct)
  case (1 n)
  show ?case
  proof (cases "n \<le> 0")
    case True
    with 1(2) show ?thesis by (simp add: int_Bytes.simps)
  next
    case False
    then have "be_value (int_Bytes (n div 256)) = n div 256" by (intro 1(1)) (simp_all add: pos_imp_zdiv_nonneg_iff)
    moreover have "byte (char_of (n mod 256)) = n mod 256" by (intro byte_char_of) simp_all
    ultimately show ?thesis using False by (subst int_Bytes.simps) simp
  qed
qed

lemma be_value_zeros: "be_value (replicate k (CHR 0x00) @ b) = be_value b"
proof -
  have "foldl (\<lambda>n c. n * 256 + byte c) 0 (replicate k (CHR 0x00)) = 0" by (induction k) simp_all
  then show ?thesis by (simp add: be_value_def)
qed

lemma be_value_FillBytes [simp]: "0 \<le> n \<Longrightarrow> be_value (FillBytes w n) = n"
  by (simp add: FillBytes_def Let_def be_value_zeros)

lemma be_value_bytes:
  "be_value [char_of (a :: int)] = a mod 256"
  "be_value [char_of b, char_of a] = b mod 256 * 256 + a mod 256"
  "be_value [char_of c, char_of b, char_of a] = (c mod 256 * 256 + b mod 256) * 256 + a mod 256"
  "be_value [char_of d, char_of c, char_of b, char_of a] = ((d mod 256 * 256 + c mod 256) * 256 + b mod 256) * 256 + a mod 256"
  by (simp_all only: be_value_def foldl_Cons foldl_Nil of_char_of mult_zero_left add_0)

lemma int_Bytes_inject: "0 \<le> n \<Longrightarrow> 0 \<le> n' \<Longrightarrow> int_Bytes n = int_Bytes n' \<Longrightarrow> n = n'"
  by (metis be_value_int_Bytes)

lemma FillBytes_inject: "0 \<le> n \<Longrightarrow> 0 \<le> n' \<Longrightarrow> FillBytes w n = FillBytes w n' \<Longrightarrow> n = n'"
  by (metis be_value_FillBytes)

lemma be_value_nonneg: "0 \<le> be_value bs"
  by (induction bs rule: rev_induct) simp_all

section \<open>Decoders invert their encoders\<close>

lemma octets_lax_strict: "octets xs = Some bs \<Longrightarrow> octets_lax xs = Some bs"
  by (induction xs arbitrary: bs rule: octets.induct) (auto split: if_splits)

lemma lax_decode_encode [simp]: "RawURL_DecodeString (encodeSegment d) = Some d"
proof -
  have "decodeSegment (encodeSegment d) = Some d" by (rule decode_encode)
  then have i: "list_all (\<lambda>c. b64_index c \<noteq> None) (encodeSegment d)"
    and o: "map_option (map char_of) (octets (map (\<lambda>c. the (b64_index c)) (encodeSegment d))) = Some d"
    by (auto simp: decodeSegment_def split: if_splits)
  have "b64_index (CHR 0x0D) = None" "b64_index (CHR 0x0A) = None" by code_simp+
  with i have "filter (\<lambda>c. c \<noteq> CHR 0x0D \<and> c \<noteq> CHR 0x0A) (encodeSegment d) = encodeSegment d"
    by (auto simp: filter_id_conv list_all_iff)
  with i o show ?thesis by (auto simp: RawURL_DecodeString_def dest: octets_lax_strict)
qed


lemma url_std_char: "b64_index c \<noteq> None \<Longrightarrow> url_char (std_char c) = c" "b64_index c \<noteq> None \<Longrightarrow> std_char c \<noteq> CHR ''-'' \<and> std_char c \<noteq> CHR ''_''"
  by (auto simp: url_char_def std_char_def b64_index_def Let_def split: if_splits)

lemma RawStd_roundtrip [simp]: "RawStd_DecodeString (RawStd_EncodeToString d) = Some d"
proof -
  have idx: "b64_index c \<noteq> None" if "c \<in> set (encodeSegment d)" for c using that by (rule encodeSegment_alphabet)
  then have "CHR ''-'' \<notin> set (RawStd_EncodeToString d)" "CHR ''_'' \<notin> set (RawStd_EncodeToString d)"
    using url_std_char(2) by (auto simp: RawStd_EncodeToString_def) (metis)+
  moreover have "map url_char (RawStd_EncodeToString d) = encodeSegment d"
    using idx url_std_char(1) by (simp add: RawStd_EncodeToString_def map_idI)
  ultimately show ?thesis by (simp add: RawStd_DecodeString_def)
qed

lemma b32_index_char_range: "list_all (\<lambda>i. b32_index (b32_char i) = Some i) [0..31]"
  by code_simp

lemma b32_index_char: "0 \<le> i \<Longrightarrow> i < 32 \<Longrightarrow> b32_index (b32_char i) = Some i"
  using b32_index_char_range by (simp add: list_all_iff)

lemma quintets_range: "bytes_ok bs \<Longrightarrow> list_all (\<lambda>q. 0 \<le> q \<and> q < 32) (quintets bs)"
  by (induction bs rule: quintets.induct) auto

lemma byte_digits_range:
  "list_all (\<lambda>b. b div 64 div 4 = 0 \<and> b div 16 div 16 = 0 \<and> b div 128 div 2 = 0 \<and> b div 32 div 8 = 0 \<and>
     b div 64 mod 4 * 64 + b div 2 mod 32 * 2 + b mod 2 = b \<and> b div 16 mod 16 * 16 + b mod 16 = b \<and>
     b div 128 mod 2 * 128 + b div 4 mod 32 * 4 + b mod 4 = b \<and> b div 32 mod 8 * 32 + b mod 32 = b) [0..255]"
  by code_simp

lemma byte_digits:
  assumes "0 \<le> b" "b < 256"
  shows "b div 64 div 4 = 0" "b div 16 div 16 = 0" "b div 128 div 2 = 0" "b div 32 div 8 = 0"
    "b div 64 mod 4 * 64 + b div 2 mod 32 * 2 + b mod 2 = b" "b div 16 mod 16 * 16 + b mod 16 = b"
    "b div 128 mod 2 * 128 + b div 4 mod 32 * 4 + b mod 4 = b" "b div 32 mod 8 * 32 + b mod 32 = (b :: int)"
proof -
  have "b \<in> set [0..255]" using assms by simp
  with byte_digits_range show "b div 64 div 4 = 0" "b div 16 div 16 = 0" "b div 128 div 2 = 0" "b div 32 div 8 = 0"
    "b div 64 mod 4 * 64 + b div 2 mod 32 * 2 + b mod 2 = b" "b div 16 mod 16 * 16 + b mod 16 = b"
    "b div 128 mod 2 * 128 + b div 4 mod 32 * 4 + b mod 4 = b" "b div 32 mod 8 * 32 + b mod 32 = b"
    unfolding list_all_iff by blast+
qed

lemma carry: "0 \<le> y \<Longrightarrow> y < k \<Longrightarrow> (x * k + y) div k = (x :: int)" "(x * k + y) mod k = y mod (k :: int)"
  by (cases "k = 0") (simp_all add: div_pos_pos_trivial)

lemma octets32_five:
  assumes "0 \<le> b" "b < 256" "0 \<le> c" "c < 256" "0 \<le> d" "d < 256" "0 \<le> e" "e < 256"
  shows "a div 8 * 8 + (a mod 8 * 4 + b div 64) div 4 = a"
    "(a mod 8 * 4 + b div 64) mod 4 * 64 + b div 2 mod 32 * 2 + (b mod 2 * 16 + c div 16) div 16 = b"
    "(b mod 2 * 16 + c div 16) mod 16 * 16 + (c mod 16 * 2 + d div 128) div 2 = c"
    "(c mod 16 * 2 + d div 128) mod 2 * 128 + d div 4 mod 32 * 4 + (d mod 4 * 8 + e div 32) div 8 = d"
    "(d mod 4 * 8 + e div 32) mod 8 * 32 + e mod 32 = (e :: int)"
proof -
  have r: "0 \<le> b div 64" "b div 64 < 4" "0 \<le> c div 16" "c div 16 < 16" "0 \<le> d div 128" "d div 128 < 2" "0 \<le> e div 32" "e div 32 < 8"
    using assms by (simp_all add: pos_imp_zdiv_nonneg_iff)
  note cs = carry(1) [OF r(1,2)] carry(1) [OF r(3,4)] carry(1) [OF r(5,6)] carry(1) [OF r(7,8)] carry(2)
  show "a div 8 * 8 + (a mod 8 * 4 + b div 64) div 4 = a" unfolding cs by simp
  show "(a mod 8 * 4 + b div 64) mod 4 * 64 + b div 2 mod 32 * 2 + (b mod 2 * 16 + c div 16) div 16 = b"
    unfolding cs by (rule byte_digits(5) [OF assms(1,2)])
  show "(b mod 2 * 16 + c div 16) mod 16 * 16 + (c mod 16 * 2 + d div 128) div 2 = c"
    unfolding cs by (rule byte_digits(6) [OF assms(3,4)])
  show "(c mod 16 * 2 + d div 128) mod 2 * 128 + d div 4 mod 32 * 4 + (d mod 4 * 8 + e div 32) div 8 = d"
    unfolding cs by (rule byte_digits(7) [OF assms(5,6)])
  show "(d mod 4 * 8 + e div 32) mod 8 * 32 + e mod 32 = e"
    unfolding cs by (rule byte_digits(8) [OF assms(7,8)])
qed

lemma byte_tops_range:
  "list_all (\<lambda>b. b div 64 * 64 + b div 2 mod 32 * 2 + b mod 2 = b \<and> b div 128 * 128 + b div 4 mod 32 * 4 + b mod 4 = b) [0..255]"
  by code_simp

lemma byte_tops:
  assumes "0 \<le> b" "b < 256"
  shows "b div 64 * 64 + b div 2 mod 32 * 2 + b mod 2 = b" "b div 128 * 128 + b div 4 mod 32 * 4 + b mod 4 = (b :: int)"
proof -
  have "b \<in> set [0..255]" using assms by simp
  with byte_tops_range show "b div 64 * 64 + b div 2 mod 32 * 2 + b mod 2 = b" "b div 128 * 128 + b div 4 mod 32 * 4 + b mod 4 = b"
    unfolding list_all_iff by blast+
qed

lemma octets32_quintets: "bytes_ok bs \<Longrightarrow> octets32 (quintets bs) = bs"
proof (induction bs rule: quintets.induct)
  case (1 a b c d e r)
  then have "0 \<le> b" "b < 256" "0 \<le> c" "c < 256" "0 \<le> d" "d < 256" "0 \<le> e" "e < 256" "octets32 (quintets r) = r"
    by simp_all
  then show ?case using octets32_five(1) [of b c d e a] octets32_five(2) [of b c d e a] octets32_five(3) [of b c d e] octets32_five(4) [of b c d e] octets32_five(5) [of b c d e] by (simp only: quintets.simps octets32.simps)
qed (auto simp: byte_tops)

lemma base32_roundtrip [simp]: "base32_DecodeString (base32_EncodeToString d) = Some d"
proof -
  let ?q = "quintets (map byte d)"
  have r: "\<And>i. i \<in> set ?q \<Longrightarrow> b32_index (b32_char i) = Some i"
    using quintets_range [of "map byte d"] by (simp add: list_all_iff b32_index_char)
  have "b32_index (CHR 0x0D) = None" "b32_index (CHR 0x0A) = None" by code_simp+
  with r have "filter (\<lambda>c. c \<noteq> CHR 0x0D \<and> c \<noteq> CHR 0x0A) (base32_EncodeToString d) = base32_EncodeToString d"
    by (fastforce simp: filter_id_conv base32_EncodeToString_def)
  moreover have "list_all (\<lambda>c. b32_index c \<noteq> None) (base32_EncodeToString d)"
    using r by (auto simp: list_all_iff base32_EncodeToString_def)
  moreover have "map (\<lambda>c. the (b32_index c)) (base32_EncodeToString d) = ?q"
    using r by (simp add: base32_EncodeToString_def map_idI comp_def)
  ultimately show ?thesis by (simp add: base32_DecodeString_def octets32_quintets)
qed

lemma hextable_digit_range: "list_all (\<lambda>i. hex_digit (hextable i) = Some i) [0..15]"
  by code_simp

lemma hex_roundtrip [simp]: "hex_DecodeString (hex_EncodeToString d) = Some d"
proof (induction d)
  case (Cons c d)
  have "x div 16 < 16" if "x < 256" for x :: int using that by simp
  then have "0 \<le> byte c div 16" "byte c div 16 < 16" "0 \<le> byte c mod 16" "byte c mod 16 < 16"
    by (simp_all add: pos_imp_zdiv_nonneg_iff)
  then have "byte c div 16 \<in> set [0..15]" "byte c mod 16 \<in> set [0..15]" by simp_all
  then have "hex_digit (hextable (byte c div 16)) = Some (byte c div 16)" "hex_digit (hextable (byte c mod 16)) = Some (byte c mod 16)"
    using hextable_digit_range unfolding list_all_iff by blast+
  with Cons show ?case by (simp add: hex_EncodeToString_def)
qed (simp add: hex_EncodeToString_def)

end
