(* ===== verification/Dpop.thy ===== *)
theory Dpop
  imports Jwt_Auth Once_Keys Fingerprint Bytes
begin

text \<open>
  Proof of possession: \<open>internal/crypto/dpop.go\<close> and \<open>dpop_jose.go\<close> validate a proof a client signs with
  a key it brings along, and \<open>internal/middleware/dpop.go\<close> admits each proof once and ties a bound token
  to the key that proves it. A key is its numbers: modulus and exponent, or the two coordinates of a
  point of P-256.
\<close>

section \<open>The curve\<close>

text \<open>P-256: the field prime, the coefficient b, and the points of the curve in affine coordinates.\<close>

definition p256_p :: int where
  "p256_p = 0xFFFFFFFF00000001000000000000000000000000FFFFFFFFFFFFFFFFFFFFFFFF"

definition p256_b :: int where
  "p256_b = 0x5AC635D8AA3A93E7B3EBBD55769886BC651D06B0CC53B0F63BCE3C3E27D2604B"

definition p256_point :: "int \<times> int \<Rightarrow> bool" where
  "p256_point P = (let (x, y) = P in
     0 \<le> x \<and> x < p256_p \<and> 0 \<le> y \<and> y < p256_p \<and> (y * y - (x * x * x - 3 * x + p256_b)) mod p256_p = 0)"

section \<open>The proof's header and key\<close>

type_synonym rsa_key = "int \<times> int"
type_synonym ec_key = "int \<times> int"
type_synonym proof_key = "(rsa_key, ec_key) any_key"

definition DPoPMaxAge :: duration where "DPoPMaxAge = 5 * Minute"
definition DPoPMaxSize :: int where "DPoPMaxSize = 4 * 1024"
definition MinRSAModulusBits :: nat where "MinRSAModulusBits = 2048"
definition MaxRSAModulusBits :: nat where "MaxRSAModulusBits = 4096"

definition dpopPrivateJWKMembers :: "string list" where
  "dpopPrivateJWKMembers = [''d'', ''p'', ''q'', ''dp'', ''dq'', ''qi'', ''oth'', ''k'']"

datatype dpop_error =
    ProofTooLarge
  | ProofUnparsed
  | WrongTyp
  | KidNotAllowed
  | CritRejected
  | JwkMissing
  | JwkInvalid
  | VerifyFailed "jwt_error list"
  | HtmMismatch
  | HtuMismatch
  | IatMissing
  | ProofOutsideWindow
  | JtiMissing
  | AthMismatch
  | ThumbprintFailed

definition rejectDPoPJOSEHeaders :: "(string \<times> json) list \<Rightarrow> dpop_error option" where
  "rejectDPoPJOSEHeaders header =
     (if header_get header ''kid'' \<noteq> None then Some KidNotAllowed
      else if header_get header ''crit'' \<noteq> None then Some CritRejected
      else None)"

definition jwkPrivateMember :: "(string \<times> json) list \<Rightarrow> string option" where
  "jwkPrivateMember jwk = find (\<lambda>m. m \<in> fst ` set jwk) dpopPrivateJWKMembers"

record jwk_fields =
  jk_kty :: string
  jk_n :: string
  jk_e :: string
  jk_crv :: string
  jk_x :: string
  jk_y :: string

definition jwk_struct :: "jwk_fields fields" where
  "jwk_struct =
     [(''kty'', string_field jk_kty_update), (''n'', string_field jk_n_update), (''e'', string_field jk_e_update),
      (''crv'', string_field jk_crv_update), (''x'', string_field jk_x_update), (''y'', string_field jk_y_update)]"

definition no_jwk :: jwk_fields where
  "no_jwk = \<lparr> jk_kty = [], jk_n = [], jk_e = [], jk_crv = [], jk_x = [], jk_y = [] \<rparr>"

text \<open>The header's object is a Go map: the last value of a name counts. Encoding it again sorts the
  names, and decoding that text into the struct lets the last matching name decide a field.\<close>

definition go_map_members :: "(string \<times> json) list \<Rightarrow> (string \<times> json) list" where
  "go_map_members ms = map (\<lambda>k. (k, the (map_of (rev ms) k))) (sort (remdups (map fst ms)))"

definition parse_rsa_jwk :: "jwk_fields \<Rightarrow> proof_key option" where
  "parse_rsa_jwk jwk =
     (case (RawURL_DecodeString (jk_n jwk), RawURL_DecodeString (jk_e jwk)) of
        (Some nBytes, Some eBytes) \<Rightarrow>
          let n = be_value nBytes; e = be_value eBytes
          in if bit_length n < MinRSAModulusBits \<or> MaxRSAModulusBits < bit_length n then None
             else if e < 3 \<or> 2 ^ 31 - 1 < e then None
             else Some (RSAPublicKey (Some (n, e)))
      | _ \<Rightarrow> None)"

definition parse_ec_jwk :: "jwk_fields \<Rightarrow> proof_key option" where
  "parse_ec_jwk jwk =
     (if jk_crv jwk \<noteq> ''P-256'' then None
      else case (RawURL_DecodeString (jk_x jwk), RawURL_DecodeString (jk_y jwk)) of
        (Some xBytes, Some yBytes) \<Rightarrow>
          let x = be_value xBytes; y = be_value yBytes
          in if 256 < bit_length x \<or> 256 < bit_length y then None
             else if p256_point (x, y) then Some (ECDSAPublicKey (Some (x, y))) else None
      | _ \<Rightarrow> None)"

definition parseJWKHeader :: "json \<Rightarrow> proof_key option" where
  "parseJWKHeader jwkRaw =
     (case jwkRaw of
        JObj ms \<Rightarrow>
          if jwkPrivateMember ms \<noteq> None then None
          else (case decode_members jwk_struct (go_map_members ms) no_jwk of
                  None \<Rightarrow> None
                | Some jwk \<Rightarrow>
                    if jk_kty jwk = ''RSA'' then parse_rsa_jwk jwk
                    else if jk_kty jwk = ''EC'' then parse_ec_jwk jwk
                    else None)
      | _ \<Rightarrow> None)"

definition quoted :: "string \<Rightarrow> string" where
  "quoted s = CHR 0x22 # s @ [CHR 0x22]"

text \<open>The thumbprint's input, members in the order of RFC 7638. A curve point that is not on the curve has
  no \<open>ECDH\<close> form; a nil pointer, on which the Go function would panic, comes out of no caller.\<close>

definition thumbprint_input :: "proof_key \<Rightarrow> string option" where
  "thumbprint_input key =
     (case key of
        RSAPublicKey (Some (n, e)) \<Rightarrow>
          Some (''{'' @ quoted ''e'' @ '':'' @ quoted (encodeSegment (encodeRSAExponent e)) @ '','' @
                quoted ''kty'' @ '':'' @ quoted ''RSA'' @ '','' @ quoted ''n'' @ '':'' @ quoted (encodeSegment (int_Bytes n)) @ ''}'')
      | ECDSAPublicKey (Some (x, y)) \<Rightarrow>
          if p256_point (x, y)
          then Some (''{'' @ quoted ''crv'' @ '':'' @ quoted ''P-256'' @ '','' @ quoted ''kty'' @ '':'' @ quoted ''EC'' @ '','' @
                     quoted ''x'' @ '':'' @ quoted (encodeSegment (FillBytes 32 x)) @ '','' @
                     quoted ''y'' @ '':'' @ quoted (encodeSegment (FillBytes 32 y)) @ ''}'')
          else None
      | _ \<Rightarrow> None)"

definition ComputeJWKThumbprint :: "(string \<Rightarrow> string) \<Rightarrow> proof_key \<Rightarrow> string option" where
  "ComputeJWKThumbprint sha256 key = map_option (encodeSegment \<circ> sha256) (thumbprint_input key)"

section \<open>Validating a proof\<close>

record DPoPClaims = RegisteredClaims +
  p_htm :: string
  p_htu :: string
  p_ath :: string

definition dpop_fields :: "DPoPClaims fields" where
  "dpop_fields =
     registered_fields g_iss_update g_sub_update g_aud_update g_exp_update g_nbf_update g_iat_update g_jti_update @
     [(''htm'', string_field p_htm_update), (''htu'', string_field p_htu_update), (''ath'', string_field p_ath_update)]"

definition no_dpop_claims :: DPoPClaims where
  "no_dpop_claims = \<lparr> g_iss = [], g_sub = [], g_aud = [], g_exp = None, g_nbf = None, g_iat = None, g_jti = [],
     p_htm = [], p_htu = [], p_ath = [] \<rparr>"

definition dpop_claims :: "DPoPClaims claims_type" where
  "dpop_claims =
     \<lparr> ct_fields = dpop_fields, ct_zero = no_dpop_claims, GetExpirationTime = g_exp, GetIssuedAt = g_iat,
       GetNotBefore = g_nbf, GetIssuer = g_iss, GetAudience = g_aud \<rparr>"

text \<open>The instants one request reads: claim validation, the proof's age, and the cache.\<close>

record dpop_clock =
  k_validate :: time
  k_age :: time
  k_cache :: time

definition dpop_claim_checks :: "dpop_clock \<Rightarrow> DPoPClaims \<Rightarrow> string \<Rightarrow> string \<Rightarrow> string \<Rightarrow> dpop_error option" where
  "dpop_claim_checks clk claims httpMethod httpURI accessTokenHash =
     (if p_htm claims \<noteq> httpMethod then Some HtmMismatch
      else if p_htu claims \<noteq> httpURI then Some HtuMismatch
      else case g_iat claims of
        None \<Rightarrow> Some IatMissing
      | Some iat \<Rightarrow>
          let age = k_age clk - iat in
          if DPoPMaxAge < age \<or> age < - DPoPMaxAge then Some ProofOutsideWindow
          else if g_jti claims = [] then Some JtiMissing
          else if accessTokenHash \<noteq> [] \<and> \<not> SecureCompare (p_ath claims) accessTokenHash then Some AthMismatch
          else None)"

definition ValidateDPoPProof ::
  "(rsa_key, ec_key) crypto \<Rightarrow> (int \<Rightarrow> int) \<Rightarrow> dpop_clock \<Rightarrow> string \<Rightarrow> string \<Rightarrow> string \<Rightarrow> string \<Rightarrow>
     dpop_error + string \<times> string" where
  "ValidateDPoPProof cr lower clk proofString httpMethod httpURI accessTokenHash =
     (if DPoPMaxSize < int (length proofString) then Inl ProofTooLarge
      else case ParseUnverified lower dpop_claims proofString of
        (None, _) \<Rightarrow> Inl ProofUnparsed
      | (Some unverified, _) \<Rightarrow>
          if header_string (tk_header unverified) ''typ'' \<noteq> ''dpop+jwt'' then Inl WrongTyp
          else case rejectDPoPJOSEHeaders (tk_header unverified) of
            Some e \<Rightarrow> Inl e
          | None \<Rightarrow>
              (case header_get (tk_header unverified) ''jwk'' of
                 None \<Rightarrow> Inl JwkMissing
               | Some jwkRaw \<Rightarrow>
                   (case parseJWKHeader jwkRaw of
                      None \<Rightarrow> Inl JwkInvalid
                    | Some pubKey \<Rightarrow>
                        (case ParseWithClaims cr lower dpop_claims (k_validate clk) proofString
                                (Some (\<lambda>t. Inr pubKey)) [WithValidMethods [''RS256'', ''ES256'']] of
                           (Some t, []) \<Rightarrow>
                             (case dpop_claim_checks clk (tk_claims t) httpMethod httpURI accessTokenHash of
                                Some e \<Rightarrow> Inl e
                              | None \<Rightarrow>
                                  (case ComputeJWKThumbprint (cr_sha256 cr) pubKey of
                                     None \<Rightarrow> Inl ThumbprintFailed
                                   | Some thumbprint \<Rightarrow> Inr (thumbprint, g_jti (tk_claims t))))
                         | (_, errs) \<Rightarrow> Inl (VerifyFailed errs)))))"

section \<open>The middleware\<close>

definition dpopReplayTTL :: duration where "dpopReplayTTL = 2 * DPoPMaxAge + 30 * Second"

definition dpopReplayKey :: "(string \<Rightarrow> string) \<Rightarrow> string \<Rightarrow> string" where
  "dpopReplayKey sha256 jti = ''dpop_jti:'' @ SHA256Hex sha256 jti"

text \<open>The token behind the request carries a nonempty \<open>cnf.jkt\<close>.\<close>

definition tokenRequiresDPoP :: "VaultClaims option \<Rightarrow> bool" where
  "tokenRequiresDPoP claims \<longleftrightarrow> (case claims of Some c \<Rightarrow> c_cnf c \<noteq> None \<and> c_cnf c \<noteq> Some [] | None \<Rightarrow> False)"

text \<open>The replay record: where it protects something, the proof's jti is claimed in the cache.\<close>

definition replay_check ::
  "'s Cache option \<Rightarrow> 's \<Rightarrow> time \<Rightarrow> (string \<Rightarrow> string) \<Rightarrow> VaultClaims option \<Rightarrow> string \<Rightarrow> 's \<times> (int \<times> string) option" where
  "replay_check C s now sha256 claims jti =
     (if jti \<noteq> [] \<and> (claims = None \<or> tokenRequiresDPoP claims) then
        (case C of
           None \<Rightarrow> (s, if tokenRequiresDPoP claims then Some (503, ''dpop_replay_check_unavailable'') else None)
         | Some c \<Rightarrow>
             (case SetIfNotExists c s now (dpopReplayKey sha256 jti) ''1'' dpopReplayTTL of
                (s', Inl e) \<Rightarrow> (s', if tokenRequiresDPoP claims then Some (503, ''dpop_replay_check_unavailable'') else None)
              | (s', Inr isNew) \<Rightarrow> (s', if isNew then None else Some (401, ''dpop_proof_reused''))))
      else (s, None))"

text \<open>The answer is the thumbprint handed on to issuance, \<open>None\<close> where the request carries no proof.\<close>

definition DPoP ::
  "(rsa_key, ec_key) crypto \<Rightarrow> (int \<Rightarrow> int) \<Rightarrow> 's Cache option \<Rightarrow> string \<Rightarrow> dpop_clock \<Rightarrow> 's \<Rightarrow> string \<Rightarrow> http_request \<Rightarrow>
     VaultClaims option \<Rightarrow> 's \<times> string option answer" where
  "DPoP cr lower C origin clk s httpMethod r claims =
     (let dpopProof = header_Get r ''DPoP'' in
      if dpopProof = [] then
        (s, if tokenRequiresDPoP claims then Refuse 401 ''dpop_proof_required'' else Next None)
      else
        let (scheme, ath) =
              (case scheme_and_token (header_Get r ''Authorization'') of
                 Some (sch, tok) \<Rightarrow> (sch, SHA256Base64URL (cr_sha256 cr) tok)
               | None \<Rightarrow> ([], []))
        in case ValidateDPoPProof cr lower clk dpopProof httpMethod (origin @ hr_path r) ath of
             Inl e \<Rightarrow> (s, Refuse 401 ''invalid_dpop_proof'')
           | Inr (thumbprint, jti) \<Rightarrow>
               (case replay_check C s (k_cache clk) (cr_sha256 cr) claims jti of
                  (s', Some (status, code)) \<Rightarrow> (s', Refuse status code)
                | (s', None) \<Rightarrow>
                    (s', if tokenRequiresDPoP claims then
                           if scheme \<noteq> ''DPoP'' then Refuse 401 ''dpop_scheme_required''
                           else if \<not> SecureCompare (the (c_cnf (the claims))) thumbprint then Refuse 401 ''dpop_thumbprint_mismatch''
                           else Next (Some thumbprint)
                         else Next (Some thumbprint))))"


section \<open>What an accepted proof shows\<close>

lemma claim_checks_ok:
  assumes "dpop_claim_checks clk c m uri ath = None"
  shows "p_htm c = m \<and> p_htu c = uri \<and> g_jti c \<noteq> [] \<and> (ath \<noteq> [] \<longrightarrow> p_ath c = ath) \<and>
    (\<exists>iat. g_iat c = Some iat \<and> k_age clk \<le> iat + DPoPMaxAge \<and> iat \<le> k_age clk + DPoPMaxAge)"
  using assms by (auto simp: dpop_claim_checks_def Let_def split: if_splits option.splits)

text \<open>The claims a proof states are a function of its text.\<close>

definition proof_claims :: "(int \<Rightarrow> int) \<Rightarrow> string \<Rightarrow> DPoPClaims option" where
  "proof_claims lower tok = (case splitToken tok of None \<Rightarrow> None | Some (h, p, s) \<Rightarrow> decode_claims lower dpop_claims p)"

lemma ValidateDPoPProof_ok:
  assumes "ValidateDPoPProof cr lower clk tok m uri ath = Inr (th, jti)"
  obtains h p s hdr jwk key sig c where "tok = h @ ''.'' @ p @ ''.'' @ s" "int (length tok) \<le> DPoPMaxSize"
    "Option.bind (decodeSegment h) decode_header = Some hdr" "header_string hdr ''typ'' = ''dpop+jwt''"
    "header_get hdr ''kid'' = None" "header_get hdr ''crit'' = None"
    "header_get hdr ''jwk'' = Some jwk" "parseJWKHeader jwk = Some key"
    "decodeSegment s = Some sig" "header_string hdr ''alg'' \<in> {''RS256'', ''ES256''}"
    "verify_signature cr (header_string hdr ''alg'') (h @ ''.'' @ p) sig key = []"
    "decode_claims lower dpop_claims p = Some c" "proof_claims lower tok = Some c"
    "dpop_claim_checks clk c m uri ath = None" "jti = g_jti c"
    "ComputeJWKThumbprint (cr_sha256 cr) key = Some th"
proof -
  from assms obtain u us jwk key t where size: "int (length tok) \<le> DPoPMaxSize"
    and u: "ParseUnverified lower dpop_claims tok = (Some u, us)"
    and ty: "header_string (tk_header u) ''typ'' = ''dpop+jwt''"
    and rej: "rejectDPoPJOSEHeaders (tk_header u) = None"
    and jwk: "header_get (tk_header u) ''jwk'' = Some jwk" and key: "parseJWKHeader jwk = Some key"
    and t: "ParseWithClaims cr lower dpop_claims (k_validate clk) tok (Some (\<lambda>t. Inr key)) [WithValidMethods [''RS256'', ''ES256'']] = (Some t, [])"
    and chk: "dpop_claim_checks clk (tk_claims t) m uri ath = None"
    and th: "ComputeJWKThumbprint (cr_sha256 cr) key = Some th" and jti: "jti = g_jti (tk_claims t)"
    unfolding ValidateDPoPProof_def by (auto split: if_splits prod.splits option.splits list.splits)
  from t show ?thesis
  proof (rule ParseWithClaims_ok, goal_cases)
    case (1 h p s k)
    have hdr: "tk_header u = tk_header t" using u 1(1,2) by (auto simp: ParseUnverified_def split: option.splits)
    from 1(7) have k: "k = key" by simp
    from rej have "header_get (tk_header t) ''kid'' = None" "header_get (tk_header t) ''crit'' = None"
      unfolding hdr by (auto simp: rejectDPoPJOSEHeaders_def split: if_splits)
    moreover have "header_string (tk_header t) ''alg'' \<in> {''RS256'', ''ES256''}"
      using 1(4) by (simp add: WithValidMethods_def)
    moreover have "proof_claims lower tok = Some (tk_claims t)" using 1(1,5) by (simp add: proof_claims_def)
    ultimately show ?thesis
      using 1 size ty jwk key chk th jti unfolding hdr k
      by (intro that [of h p s "tk_header t" jwk key "tk_signature t" "tk_claims t"]) (simp_all add: splitToken_Some)
  qed
qed

lemma DPoP_next:
  assumes "DPoP cr lower C origin clk s m r claims = (s', Next th)" "header_Get r ''DPoP'' \<noteq> []"
  obtains tp jti sch ath where
    "(sch, ath) = (case scheme_and_token (header_Get r ''Authorization'') of
       Some (sch, tok) \<Rightarrow> (sch, SHA256Base64URL (cr_sha256 cr) tok) | None \<Rightarrow> ([], []))"
    "ValidateDPoPProof cr lower clk (header_Get r ''DPoP'') m (origin @ hr_path r) ath = Inr (tp, jti)"
    "replay_check C s (k_cache clk) (cr_sha256 cr) claims jti = (s', None)" "th = Some tp"
    "tokenRequiresDPoP claims \<Longrightarrow> sch = ''DPoP'' \<and> the (c_cnf (the claims)) = tp"
  using assms unfolding DPoP_def
  by (auto simp: Let_def split: prod.splits sum.splits option.splits if_splits)

section \<open>Bound tokens\<close>

text \<open>
  C12: A request with a sender-constrained token passes only when it carries a proof that verifies under
  a key whose thumbprint is the token's own, under the DPoP scheme, made for this method, this URL and
  this very token, and dated within five minutes of the check.
\<close>

theorem bound_token_needs_its_key:
  assumes "DPoP cr lower C origin clk s m r (Some c) = (s', Next th)" "c_cnf c = Some jkt" "jkt \<noteq> []"
    "\<forall>x. length (cr_sha256 cr x) = 32"
  shows "\<exists>tok h p sg hdr jwk key sig d iat.
     header_Get r ''Authorization'' = ''DPoP '' @ tok \<and> header_Get r ''DPoP'' = h @ ''.'' @ p @ ''.'' @ sg \<and>
     Option.bind (decodeSegment h) decode_header = Some hdr \<and> header_get hdr ''jwk'' = Some jwk \<and>
     parseJWKHeader jwk = Some key \<and> ComputeJWKThumbprint (cr_sha256 cr) key = Some jkt \<and> th = Some jkt \<and>
     decodeSegment sg = Some sig \<and> verify_signature cr (header_string hdr ''alg'') (h @ ''.'' @ p) sig key = [] \<and>
     decode_claims lower dpop_claims p = Some d \<and> p_htm d = m \<and> p_htu d = origin @ hr_path r \<and>
     p_ath d = SHA256Base64URL (cr_sha256 cr) tok \<and> g_iat d = Some iat \<and>
     k_age clk \<le> iat + DPoPMaxAge \<and> iat \<le> k_age clk + DPoPMaxAge"
proof -
  have req: "tokenRequiresDPoP (Some c)" using assms(2,3) by (simp add: tokenRequiresDPoP_def)
  with assms(1) have "header_Get r ''DPoP'' \<noteq> []" by (auto simp: DPoP_def)
  with assms(1) show ?thesis
  proof (rule DPoP_next, goal_cases)
    case (1 tp jti sch ath)
    from 1(5) req assms(2) have sch: "sch = ''DPoP''" and tp: "tp = jkt" by auto
    from 1(1) sch obtain tok where st: "scheme_and_token (header_Get r ''Authorization'') = Some (''DPoP'', tok)"
      and ath: "ath = SHA256Base64URL (cr_sha256 cr) tok"
      by (auto split: option.splits)
    from st have auth: "header_Get r ''Authorization'' = ''DPoP '' @ tok" by (simp add: scheme_and_token_def cut_at_Some)
    have "length ath = 43" using assms(4) by (simp add: ath SHA256Base64URL_def)
    then have ne: "ath \<noteq> []" by auto
    from 1(2) show ?thesis
    proof (rule ValidateDPoPProof_ok, goal_cases)
      case (1 h p sg hdr jwk key sig d)
      from claim_checks_ok [OF 1(14)] ne obtain iat where "p_htm d = m" "p_htu d = origin @ hr_path r" "p_ath d = ath"
        "g_iat d = Some iat" "k_age clk \<le> iat + DPoPMaxAge" "iat \<le> k_age clk + DPoPMaxAge" by blast
      with 1 auth tp ath \<open>th = Some tp\<close> show ?thesis by blast
    qed
  qed
qed

section \<open>Replay\<close>

text \<open>What other users of the cache may do to the replay records: no key of theirs has the prefix, except
  that another request may claim a proof of its own.\<close>

definition replay_prefix :: string where "replay_prefix = ''dpop_jti:''"

lemma replay_check_claims:
  assumes "replay_check (Some C) s t sha claims jti = (s', None)" "jti \<noteq> []" "tokenRequiresDPoP claims"
  shows "SetIfNotExists C s t (dpopReplayKey sha jti) ''1'' dpopReplayTTL = (s', Inr True)"
  using assms by (auto simp: replay_check_def split: prod.splits sum.splits if_splits)

lemma replay_check_live:
  assumes "mem_view m (dpopReplayKey sha jti) = Some (v, x)" "t < x" "jti \<noteq> []" "claims = None \<or> tokenRequiresDPoP claims"
  shows "replay_check (Some memory_cache) m t sha claims jti = (m, Some (401, ''dpop_proof_reused''))"
  using assms by (auto simp: replay_check_def mem_SetIfNotExists_def mem_holds_def mem_view_Some)

text \<open>
  C11: A proof that admitted a bound token is refused ever after, at any endpoint where the replay record
  protects something: on the memory cache, whatever other requests, other users of the cache and the
  sweeper do in between. The record outlives the proof, so by the time it is gone the proof is too old;
  this needs that a request reaches the cache within thirty seconds of checking the proof's age.
\<close>

theorem replayed_proof_is_refused:
  assumes inv: "mem_inv m"
    and first: "DPoP cr lower (Some memory_cache) origin clk1 m meth1 r1 claims1 = (m1, Next th)"
    and bound: "tokenRequiresDPoP claims1"
    and same: "header_Get r2 ''DPoP'' = header_Get r1 ''DPoP''"
    and guarded: "claims2 = None \<or> tokenRequiresDPoP claims2"
    and ops: "list_all (\<lambda>(t, op). spares_keys replay_prefix op \<and> t \<le> k_cache clk2) ops"
    and clocks: "0 < k_cache clk1" "k_age clk1 \<le> k_cache clk1" "k_cache clk2 < k_age clk2 + 30 * Second"
  shows "\<exists>m2 status code. DPoP cr lower (Some memory_cache) origin2 clk2 (foldl mem_exec m1 ops) meth2 r2 claims2 =
           (m2, Refuse status code)"
proof (rule ccontr)
  obtain m2 ans where ans: "DPoP cr lower (Some memory_cache) origin2 clk2 (foldl mem_exec m1 ops) meth2 r2 claims2 = (m2, ans)"
    by fastforce
  assume "\<not> ?thesis"
  with ans obtain th2 where second: "DPoP cr lower (Some memory_cache) origin2 clk2 (foldl mem_exec m1 ops) meth2 r2 claims2 = (m2, Next th2)"
    by (cases ans) auto
  from first bound have ne: "header_Get r1 ''DPoP'' \<noteq> []" by (auto simp: DPoP_def)
  from first ne obtain tp jti ath where v1: "ValidateDPoPProof cr lower clk1 (header_Get r1 ''DPoP'') meth1 (origin @ hr_path r1) ath = Inr (tp, jti)"
    and c1: "replay_check (Some memory_cache) m (k_cache clk1) (cr_sha256 cr) claims1 jti = (m1, None)"
    by (rule DPoP_next) blast
  from second ne same obtain tp2 jti2 ath2 where v2: "ValidateDPoPProof cr lower clk2 (header_Get r1 ''DPoP'') meth2 (origin2 @ hr_path r2) ath2 = Inr (tp2, jti2)"
    and c2: "replay_check (Some memory_cache) (foldl mem_exec m1 ops) (k_cache clk2) (cr_sha256 cr) claims2 jti2 = (m2, None)"
    by (metis DPoP_next)
  from v1 obtain d where d: "proof_claims lower (header_Get r1 ''DPoP'') = Some d" "jti = g_jti d"
    and k1: "dpop_claim_checks clk1 d meth1 (origin @ hr_path r1) ath = None" by (rule ValidateDPoPProof_ok) blast
  from v2 d(1) have d2: "jti2 = g_jti d" and k2: "dpop_claim_checks clk2 d meth2 (origin2 @ hr_path r2) ath2 = None"
    by (auto elim!: ValidateDPoPProof_ok)
  from claim_checks_ok [OF k1] obtain iat where jti: "jti \<noteq> []" and iat: "g_iat d = Some iat" "iat \<le> k_age clk1 + DPoPMaxAge"
    using d(2) by blast
  from claim_checks_ok [OF k2] iat(1) have "k_age clk2 \<le> iat + DPoPMaxAge" by auto
  with iat(2) clocks have late: "k_cache clk2 < k_cache clk1 + dpopReplayTTL" by (simp add: dpopReplayTTL_def)
  let ?k = "dpopReplayKey (cr_sha256 cr) jti"
  have ttl: "0 < dpopReplayTTL" by (simp add: dpopReplayTTL_def DPoPMaxAge_def)
  from mc.setnx_true [OF inv clocks(1) replay_check_claims [OF c1 jti bound]] ttl
  have m1: "mem_inv m1" "mem_view m1 ?k = Some (''1'', k_cache clk1 + dpopReplayTTL)" by (auto simp: expiry_of_def)
  have "mem_view (foldl mem_exec m1 ops) ?k = Some (''1'', k_cache clk1 + dpopReplayTTL)"
    using run_keeps_marker [OF m1 late _ _ ops] ttl clocks(1) by (simp add: dpopReplayKey_def replay_prefix_def)
  from replay_check_live [OF this late jti guarded] c2 d(2) d2 show False by simp
qed

section \<open>Keys survive their encoding\<close>

lemma be_value_exponent [simp]:
  assumes "0 \<le> e" "e < 2 ^ 32"
  shows "be_value (encodeRSAExponent e) = e"
proof -
  define q1 q2 q3 where q: "q1 = e div 256" "q2 = q1 div 256" "q3 = q2 div 256"
  have d: "e div 256 = q1" "e div 65536 = q2" "e div 16777216 = q3" by (simp_all add: q)
  have h: "q1 * 256 + e mod 256 = e" "q2 * 256 + q1 mod 256 = q1" "q3 * 256 + q2 mod 256 = q2" by (simp_all add: q)
  have r: "0 \<le> q1" "0 \<le> q2" "0 \<le> q3" "q3 < 256" using assms by (simp_all add: d [symmetric] pos_imp_zdiv_nonneg_iff)
  have small: "x mod 256 = x" if "0 \<le> x" "x < 256" for x :: int using that by simp
  consider "e < 256" | "256 \<le> e" "e < 65536" | "65536 \<le> e" "e < 16777216" | "16777216 \<le> e" by linarith
  then show ?thesis
  proof cases
    case 1
    then show ?thesis using assms by (simp add: encodeRSAExponent_def be_value_def byte_char_of)
  next
    case 2
    then have "q1 < 256" by (simp add: d [symmetric])
    then show ?thesis using 2 h(1) small [OF r(1)] unfolding encodeRSAExponent_def d by (simp add: be_value_bytes)
  next
    case 3
    then have "q2 < 256" by (simp add: d [symmetric])
    then show ?thesis using 3 h(1,2) small [OF r(2)] unfolding encodeRSAExponent_def d by (simp add: be_value_bytes)
  next
    case 4
    then show ?thesis using h small [OF r(3,4)] unfolding encodeRSAExponent_def d by (simp add: be_value_bytes)
  qed
qed

lemma bit_length_le: "n < 2 ^ w \<Longrightarrow> bit_length n \<le> w"
proof (induction w arbitrary: n)
  case (Suc w)
  then have "bit_length (n div 2) \<le> w" by simp
  then show ?case by (subst bit_length.simps) simp
qed (simp add: bit_length.simps)

text \<open>The header member a client sends for a key, and the keys a proof may use.\<close>

definition key_jwk :: "proof_key \<Rightarrow> (string \<times> json) list" where
  "key_jwk key =
     (case key of
        RSAPublicKey (Some (n, e)) \<Rightarrow>
          [(''e'', JStr (encodeSegment (encodeRSAExponent e))), (''kty'', JStr ''RSA''), (''n'', JStr (encodeSegment (int_Bytes n)))]
      | ECDSAPublicKey (Some (x, y)) \<Rightarrow>
          [(''crv'', JStr ''P-256''), (''kty'', JStr ''EC''), (''x'', JStr (encodeSegment (FillBytes 32 x))),
           (''y'', JStr (encodeSegment (FillBytes 32 y)))]
      | _ \<Rightarrow> [])"

fun usable_key :: "proof_key \<Rightarrow> bool" where
  "usable_key (RSAPublicKey (Some (n, e))) \<longleftrightarrow>
     0 \<le> n \<and> MinRSAModulusBits \<le> bit_length n \<and> bit_length n \<le> MaxRSAModulusBits \<and> 3 \<le> e \<and> e \<le> 2 ^ 31 - 1"
| "usable_key (ECDSAPublicKey (Some P)) \<longleftrightarrow> p256_point P"
| "usable_key _ \<longleftrightarrow> False"

lemma jwk_fields_match [simp]:
  "match_field jwk_struct ''kty'' = Some (string_field jk_kty_update)"
  "match_field jwk_struct ''n'' = Some (string_field jk_n_update)"
  "match_field jwk_struct ''e'' = Some (string_field jk_e_update)"
  "match_field jwk_struct ''crv'' = Some (string_field jk_crv_update)"
  "match_field jwk_struct ''x'' = Some (string_field jk_x_update)"
  "match_field jwk_struct ''y'' = Some (string_field jk_y_update)"
  by (simp_all add: match_field_def jwk_struct_def)

lemma jwk_names_sorted:
  "sort (remdups [''e'', ''kty'', ''n'']) = [''e'', ''kty'', ''n'']"
  "sort (remdups [''crv'', ''kty'', ''x'', ''y'']) = [''crv'', ''kty'', ''x'', ''y'']"
  by code_simp+

lemma p256_small:
  assumes "p256_point (x, y)"
  shows "0 \<le> x" "0 \<le> y" "bit_length x \<le> 256" "bit_length y \<le> 256"
proof -
  have "p256_p \<le> 2 ^ 256" by (simp add: p256_p_def)
  with assms have "x < 2 ^ 256" "y < 2 ^ 256" by (auto simp: p256_point_def)
  then show "bit_length x \<le> 256" "bit_length y \<le> 256" by (simp_all only: bit_length_le)
  show "0 \<le> x" "0 \<le> y" using assms by (auto simp: p256_point_def)
qed

lemma parse_key_jwk:
  assumes "usable_key key"
  shows "parseJWKHeader (JObj (key_jwk key)) = Some key"
  using assms
proof (induction key rule: usable_key.induct)
  case (1 n e)
  then show ?case
    by (simp add: parseJWKHeader_def key_jwk_def jwkPrivateMember_def dpopPrivateJWKMembers_def go_map_members_def
        jwk_names_sorted string_field_def no_jwk_def parse_rsa_jwk_def Let_def)
next
  case (2 P)
  obtain x y where P: "P = (x, y)" by fastforce
  with 2 p256_small [of x y] show ?case
    by (simp add: parseJWKHeader_def key_jwk_def jwkPrivateMember_def dpopPrivateJWKMembers_def go_map_members_def
        jwk_names_sorted string_field_def no_jwk_def parse_ec_jwk_def Let_def)
qed simp_all

section \<open>Thumbprints\<close>

lemma before_quote: "q \<notin> set a \<Longrightarrow> takeWhile (\<lambda>c. c \<noteq> q) (a @ q # x) = a"
  by (induction a) auto

lemma quoted_inject:
  assumes "CHR 0x22 \<notin> set a" "CHR 0x22 \<notin> set b"
  shows "quoted a @ x = quoted b @ y \<longleftrightarrow> a = b \<and> x = y"
proof
  assume "quoted a @ x = quoted b @ y"
  then have "a @ CHR 0x22 # x = b @ CHR 0x22 # y" by (simp add: quoted_def)
  moreover from this have "a = b" using before_quote [OF assms(1), of x] before_quote [OF assms(2), of y] by simp
  ultimately show "a = b \<and> x = y" by simp
qed simp

lemma segment_no_quote [simp]: "CHR 0x22 \<notin> set (encodeSegment d)"
  using encodeSegment_alphabet [of "CHR 0x22"] by (auto simp: b64_index_def)

lemma quoted_eq: "quoted a = quoted b \<longleftrightarrow> a = b"
  by (simp add: quoted_def)

lemma exponent_inject:
  assumes "3 \<le> e" "e \<le> 2 ^ 31 - 1" "3 \<le> e'" "e' \<le> 2 ^ 31 - 1" "encodeRSAExponent e = encodeRSAExponent e'"
  shows "e = e'"
proof -
  have "be_value (encodeRSAExponent e) = e" "be_value (encodeRSAExponent e') = e'"
    using assms(1-4) by (auto intro!: be_value_exponent)
  then show ?thesis using assms(5) by metis
qed

lemma thumbprint_rsa_inject:
  "thumbprint_input (RSAPublicKey (Some (n, e))) = thumbprint_input (RSAPublicKey (Some (n', e'))) \<longleftrightarrow>
     encodeRSAExponent e = encodeRSAExponent e' \<and> int_Bytes n = int_Bytes n'"
  by (simp add: thumbprint_input_def quoted_inject quoted_eq encodeSegment_inject)

lemma thumbprint_ec_inject:
  "p256_point (x, y) \<Longrightarrow> p256_point (x', y') \<Longrightarrow>
   thumbprint_input (ECDSAPublicKey (Some (x, y))) = thumbprint_input (ECDSAPublicKey (Some (x', y'))) \<longleftrightarrow>
     FillBytes 32 x = FillBytes 32 x' \<and> FillBytes 32 y = FillBytes 32 y'"
  by (simp add: thumbprint_input_def quoted_inject quoted_eq encodeSegment_inject)

lemma thumbprint_kinds_differ:
  "thumbprint_input (RSAPublicKey (Some k)) \<noteq> thumbprint_input (ECDSAPublicKey (Some P))"
  by (cases k; cases P) (simp add: thumbprint_input_def quoted_inject)

lemma thumbprint_input_inject:
  assumes "usable_key k1" "usable_key k2" "thumbprint_input k1 = thumbprint_input k2"
  shows "k1 = k2"
  using assms
proof (cases k1 rule: usable_key.cases; cases k2 rule: usable_key.cases)
  fix n e n' e' assume k: "k1 = RSAPublicKey (Some (n, e))" "k2 = RSAPublicKey (Some (n', e'))"
  with assms show ?thesis
    using exponent_inject [of e e'] int_Bytes_inject [of n n'] by (simp add: thumbprint_rsa_inject)
next
  fix P Q assume k: "k1 = ECDSAPublicKey (Some P)" "k2 = ECDSAPublicKey (Some Q)"
  obtain x y x' y' where PQ: "P = (x, y)" "Q = (x', y')" by fastforce
  with assms k show ?thesis
    using p256_small [of x y] p256_small [of x' y'] FillBytes_inject [of x x' 32] FillBytes_inject [of y y' 32]
    by (simp add: thumbprint_ec_inject)
qed (use thumbprint_kinds_differ thumbprint_kinds_differ [symmetric] in auto)

lemma parsed_key_usable: "parseJWKHeader jwk = Some key \<Longrightarrow> usable_key key"
  using be_value_nonneg
  by (auto simp: parseJWKHeader_def parse_rsa_jwk_def parse_ec_jwk_def Let_def split: json.splits option.splits if_splits)

text \<open>
  The thumbprint names the key: two different keys that proofs may carry get the same thumbprint only
  if SHA-256 collides on the two texts that are hashed.
\<close>

theorem thumbprint_identifies_key:
  assumes "parseJWKHeader jwk1 = Some k1" "parseJWKHeader jwk2 = Some k2" "k1 \<noteq> k2"
    "ComputeJWKThumbprint sha256 k1 = Some t" "ComputeJWKThumbprint sha256 k2 = Some t"
  shows "\<exists>a b. thumbprint_input k1 = Some a \<and> thumbprint_input k2 = Some b \<and> a \<noteq> b \<and> sha256 a = sha256 b"
proof -
  from assms(4,5) obtain a b where ab: "thumbprint_input k1 = Some a" "thumbprint_input k2 = Some b"
    "encodeSegment (sha256 a) = t" "encodeSegment (sha256 b) = t"
    by (auto simp: ComputeJWKThumbprint_def)
  moreover have "a \<noteq> b"
    using thumbprint_input_inject [OF parsed_key_usable [OF assms(1)] parsed_key_usable [OF assms(2)]] ab assms(3) by auto
  ultimately show ?thesis by (metis encodeSegment_inject)
qed

section \<open>An honest client is admitted\<close>

text \<open>The proof a client makes with a signing function, over the claims RFC 9449 asks for.\<close>

definition proof_header :: "string \<Rightarrow> proof_key \<Rightarrow> (string \<times> json) list" where
  "proof_header alg key = [(''alg'', JStr alg), (''jwk'', JObj (key_jwk key)), (''typ'', JStr ''dpop+jwt'')]"

definition proof_members :: "string \<Rightarrow> string \<Rightarrow> string \<Rightarrow> int \<Rightarrow> string \<Rightarrow> (string \<times> json) list" where
  "proof_members m uri ath iat jti =
     [(''ath'', JStr ath), (''htm'', JStr m), (''htu'', JStr uri), (''iat'', JNum (FormatInt iat)), (''jti'', JStr jti)]"

definition make_proof ::
  "(string \<Rightarrow> string) \<Rightarrow> string \<Rightarrow> proof_key \<Rightarrow> string \<Rightarrow> string \<Rightarrow> string \<Rightarrow> int \<Rightarrow> string \<Rightarrow> string" where
  "make_proof sign alg key m uri ath iat jti =
     (let signing = encodeSegment (print_json (JObj (proof_header alg key))) @ ''.'' @
            encodeSegment (print_json (JObj (proof_members m uri ath iat jti)))
      in signing @ ''.'' @ encodeSegment (sign signing))"

definition alg_of :: "proof_key \<Rightarrow> string" where
  "alg_of key = (case key of RSAPublicKey k \<Rightarrow> ''RS256'' | _ \<Rightarrow> ''ES256'')"

lemma proof_words_utf8:
  "list_all valid_utf8 [''alg'', ''jwk'', ''typ'', ''dpop+jwt'', ''RS256'', ''ES256'', ''ath'', ''htm'', ''htu'', ''iat'', ''jti'',
     ''e'', ''kty'', ''n'', ''RSA'', ''EC'', ''P-256'', ''crv'', ''x'', ''y'']"
  by code_simp

lemma segment_utf8 [simp]: "valid_utf8 (encodeSegment d)"
proof (rule valid_utf8_ascii, rule ballI)
  fix c assume "c \<in> set (encodeSegment d)"
  then have "b64_index c \<noteq> None" by (rule encodeSegment_alphabet)
  then show "byte c < 0x80" by (auto simp: b64_index_def Let_def split: if_splits)
qed

lemma key_jwk_ok:
  "members_ok (key_jwk key)" "members_depth (key_jwk key) = 0" "floats_ok_members (key_jwk key)"
  using proof_words_utf8
  by (auto simp: key_jwk_def split: any_key.splits option.splits prod.splits)

lemma proof_header_parses:
  "decode_header (print_json (JObj (proof_header (alg_of key) key))) = Some (proof_header (alg_of key) key)"
proof -
  have "json_parse (print_json (JObj (proof_header (alg_of key) key))) = Some (JObj (proof_header (alg_of key) key))"
    using proof_words_utf8
    by (intro json_parse_print) (auto simp: proof_header_def key_jwk_ok maxNestingDepth_def alg_of_def split: any_key.splits)
  then show ?thesis by (simp add: decode_header_def proof_header_def key_jwk_ok)
qed

lemma proof_header_fields:
  "header_get (proof_header alg key) ''kid'' = None" "header_get (proof_header alg key) ''crit'' = None"
  "header_get (proof_header alg key) ''jwk'' = Some (JObj (key_jwk key))"
  "header_string (proof_header alg key) ''typ'' = ''dpop+jwt''" "header_string (proof_header alg key) ''alg'' = alg"
  by (simp_all add: proof_header_def header_get_def header_string_def)

definition proof_record :: "string \<Rightarrow> string \<Rightarrow> string \<Rightarrow> int \<Rightarrow> string \<Rightarrow> DPoPClaims" where
  "proof_record m uri ath iat jti =
     no_dpop_claims\<lparr> g_iat := Some (unix_time iat), g_jti := jti, p_htm := m, p_htu := uri, p_ath := ath \<rparr>"

lemma dpop_fields_match [simp]:
  "match_field dpop_fields ''iat'' = Some (date_field g_iat_update)" "match_field dpop_fields ''jti'' = Some (string_field g_jti_update)"
  "match_field dpop_fields ''htm'' = Some (string_field p_htm_update)" "match_field dpop_fields ''htu'' = Some (string_field p_htu_update)"
  "match_field dpop_fields ''ath'' = Some (string_field p_ath_update)"
  by (simp_all add: match_field_def dpop_fields_def registered_fields_def)

lemma proof_names_unambiguous: "\<not> refuseAmbiguousClaimNames lower (JObj (proof_members m uri ath iat jti))"
proof -
  have "map (\<lambda>k. rune_values k) [''ath'', ''htm'', ''htu'', ''iat'', ''jti''] =
    [[0x61, 0x74, 0x68], [0x68, 0x74, 0x6D], [0x68, 0x74, 0x75], [0x69, 0x61, 0x74], [0x6A, 0x74, 0x69]]"
    by code_simp
  then show ?thesis by (simp add: refuseAmbiguousClaimNames_def proof_members_def lower_name_def)
qed

lemma proof_members_parse:
  assumes "list_all valid_utf8 [m, uri, ath, jti]" "minNumericDate \<le> iat" "iat \<le> maxNumericDate"
  shows "decode_claims lower dpop_claims (encodeSegment (print_json (JObj (proof_members m uri ath iat jti)))) =
     Some (proof_record m uri ath iat jti)"
proof -
  have "json_parse (print_json (JObj (proof_members m uri ath iat jti))) = Some (JObj (proof_members m uri ath iat jti))"
    using proof_words_utf8 assms(1) by (intro json_parse_print) (auto simp: proof_members_def maxNestingDepth_def)
  moreover have "NumericDate_UnmarshalJSON (JNum (FormatInt iat)) = Some (unix_time iat)"
    using date_of_FormatInt [OF assms(2,3)] by (simp add: NumericDate_UnmarshalJSON_def)
  then have "decode_members dpop_fields (proof_members m uri ath iat jti) no_dpop_claims = Some (proof_record m uri ath iat jti)"
    by (simp add: proof_members_def proof_record_def string_field_def date_field_def no_dpop_claims_def)
  ultimately show ?thesis
    using proof_names_unambiguous [of lower m uri ath iat jti]
    by (simp add: decode_claims_def decode_struct_def dpop_claims_def del: print_json.simps)
qed

lemma usable_thumbprint: "usable_key key \<Longrightarrow> \<exists>t. ComputeJWKThumbprint sha256 key = Some t"
  by (induction key rule: usable_key.induct) (auto simp: ComputeJWKThumbprint_def thumbprint_input_def)

lemma honest_proof_validates:
  assumes key: "usable_key key" and sig: "\<And>x. verify_signature cr (alg_of key) x (sign x) key = []"
    and words: "list_all valid_utf8 [m, uri, ath, jti]" "jti \<noteq> []" and iat: "minNumericDate \<le> iat" "iat \<le> maxNumericDate"
    and clk: "k_age clk \<le> unix_time iat + DPoPMaxAge" "unix_time iat \<le> k_age clk + DPoPMaxAge"
    and size: "int (length (make_proof sign (alg_of key) key m uri ath iat jti)) \<le> DPoPMaxSize"
    and t: "ComputeJWKThumbprint (cr_sha256 cr) key = Some t"
  shows "ValidateDPoPProof cr lower clk (make_proof sign (alg_of key) key m uri ath iat jti) m uri ath = Inr (t, jti)"
proof -
  define hs where "hs = encodeSegment (print_json (JObj (proof_header (alg_of key) key)))"
  define ps where "ps = encodeSegment (print_json (JObj (proof_members m uri ath iat jti)))"
  define tok where "tok = make_proof sign (alg_of key) key m uri ath iat jti"
  define sg where "sg = sign (hs @ ''.'' @ ps)"
  have split: "splitToken tok = Some (hs, ps, encodeSegment sg)"
    unfolding tok_def make_proof_def Let_def sg_def hs_def [symmetric] ps_def [symmetric] append_assoc
    unfolding hs_def ps_def by (rule splitToken_encoded)
  have dh: "Option.bind (decodeSegment hs) decode_header = Some (proof_header (alg_of key) key)"
    by (simp add: hs_def proof_header_parses del: print_json.simps)
  have dc: "decode_claims lower dpop_claims ps = Some (proof_record m uri ath iat jti)"
    unfolding ps_def by (rule proof_members_parse [OF words(1) iat])
  have v: "verify_signature cr (alg_of key) (hs @ ''.'' @ ps) sg key = []" unfolding sg_def by (rule sig)
  have alg: "alg_of key \<noteq> []" "alg_of key = ''RS256'' \<or> alg_of key = ''ES256''" by (auto simp: alg_of_def split: any_key.splits)
  have val: "validateClaims dpop_claims t (WithValidMethods [''RS256'', ''ES256''] no_config) (proof_record m uri ath iat jti) = []" for t
    by (simp add: validateClaims_def dpop_claims_def proof_record_def no_dpop_claims_def WithValidMethods_def no_config_def)
  have u: "ParseUnverified lower dpop_claims tok =
    (Some \<lparr> tk_header = proof_header (alg_of key) key, tk_claims = proof_record m uri ath iat jti, tk_signature = sg, tk_raw = tok, tk_valid = False \<rparr>, [])"
    by (simp add: ParseUnverified_def split dh dc)
  have p: "\<exists>tk. ParseWithClaims cr lower dpop_claims t0 tok (Some (\<lambda>t. Inr key)) [WithValidMethods [''RS256'', ''ES256'']] = (Some tk, []) \<and>
     tk_claims tk = proof_record m uri ath iat jti" for t0
    using alg v [simplified] val
    by (auto simp: ParseWithClaims_def split dh dc proof_header_fields Let_def WithValidMethods_def no_config_def)
  have chk: "dpop_claim_checks clk (proof_record m uri ath iat jti) m uri ath = None"
    using clk words(2) by (simp add: dpop_claim_checks_def proof_record_def Let_def)
  obtain tk where tk: "ParseWithClaims cr lower dpop_claims (k_validate clk) tok (Some (\<lambda>t. Inr key)) [WithValidMethods [''RS256'', ''ES256'']] = (Some tk, [])"
    "tk_claims tk = proof_record m uri ath iat jti" using p by blast
  have "g_jti (proof_record m uri ath iat jti) = jti" by (simp add: proof_record_def)
  with size u tk chk t key show ?thesis
    unfolding tok_def [symmetric] ValidateDPoPProof_def
    by (simp add: proof_header_fields rejectDPoPJOSEHeaders_def parse_key_jwk)
qed


lemma honest_request_next:
  assumes pf: "header_Get r ''DPoP'' = p" "p \<noteq> []" and auth: "header_Get r ''Authorization'' = ''DPoP '' @ tok"
    and valid: "ValidateDPoPProof cr lower clk p m (origin @ hr_path r) (SHA256Base64URL (cr_sha256 cr) tok) = Inr (t, jti)"
    and jti: "jti \<noteq> []" and cnf: "c_cnf c = Some t" "t \<noteq> []"
    and fresh: "SetIfNotExists C s (k_cache clk) (dpopReplayKey (cr_sha256 cr) jti) ''1'' dpopReplayTTL = (s', Inr True)"
  shows "DPoP cr lower (Some C) origin clk s m r (Some c) = (s', Next (Some t))"
proof -
  have "scheme_and_token (header_Get r ''Authorization'') = Some (''DPoP'', tok)"
    unfolding auth scheme_and_token_def by (simp add: cut_at_Some)
  moreover have "tokenRequiresDPoP (Some c)" using cnf by (simp add: tokenRequiresDPoP_def)
  moreover from this have "replay_check (Some C) s (k_cache clk) (cr_sha256 cr) (Some c) jti = (s', None)"
    using fresh jti by (simp add: replay_check_def)
  ultimately show ?thesis using pf valid cnf by (simp add: DPoP_def)
qed

lemma make_proof_nonempty: "make_proof sign alg key m uri ath iat jti \<noteq> []"
  by (simp add: make_proof_def Let_def)

text \<open>
  An honest client is admitted: with a key a proof may carry, whose signatures verify, a proof made
  for this method, this URL and this token, dated within five minutes and with an unused jti, lets a
  token bound to that key through on a memory cache with room, and the jti is spent.
\<close>

theorem honest_client_is_admitted:
  assumes "usable_key key" "\<And>x. verify_signature cr (alg_of key) x (sign x) key = []"
    "list_all valid_utf8 [m, origin @ hr_path r, jti]" "jti \<noteq> []" "minNumericDate \<le> iat" "iat \<le> maxNumericDate"
    "k_age clk \<le> unix_time iat + DPoPMaxAge" "unix_time iat \<le> k_age clk + DPoPMaxAge"
    "int (length p) \<le> DPoPMaxSize"
    "p = make_proof sign (alg_of key) key m (origin @ hr_path r) (SHA256Base64URL (cr_sha256 cr) tok) iat jti"
    "header_Get r ''DPoP'' = p" "header_Get r ''Authorization'' = ''DPoP '' @ tok"
    "ComputeJWKThumbprint (cr_sha256 cr) key = Some t" "c_cnf c = Some t" "t \<noteq> []"
    "mem_view mc (dpopReplayKey (cr_sha256 cr) jti) = None" "int (length (mc_data mc)) < mc_maxEntries mc"
  shows "\<exists>mc'. DPoP cr lower (Some memory_cache) origin clk mc m r (Some c) = (mc', Next (Some t)) \<and>
     mem_view mc' (dpopReplayKey (cr_sha256 cr) jti) = Some (''1'', k_cache clk + dpopReplayTTL)"
proof -
  let ?k = "dpopReplayKey (cr_sha256 cr) jti"
  have ttl: "0 < dpopReplayTTL" by (simp add: dpopReplayTTL_def DPoPMaxAge_def)
  from assms(16,17) have "mem_SetIfNotExists mc (k_cache clk) ?k ''1'' dpopReplayTTL =
      (mem_put mc ?k ''1'' (k_cache clk + dpopReplayTTL), Inr True)"
    using ttl by (auto simp: mem_SetIfNotExists_def mem_view_def mem_admit_def)
  then have fresh: "SetIfNotExists memory_cache mc (k_cache clk) ?k ''1'' dpopReplayTTL =
      (mem_put mc ?k ''1'' (k_cache clk + dpopReplayTTL), Inr True)" by simp
  have "ValidateDPoPProof cr lower clk p m (origin @ hr_path r) (SHA256Base64URL (cr_sha256 cr) tok) = Inr (t, jti)"
    using assms(3,9) unfolding assms(10)
    by (intro honest_proof_validates assms(1,2,4-8,13)) (simp_all add: SHA256Base64URL_def)
  then have "DPoP cr lower (Some memory_cache) origin clk mc m r (Some c) =
      (mem_put mc ?k ''1'' (k_cache clk + dpopReplayTTL), Next (Some t))"
    using assms(10) by (intro honest_request_next [OF assms(11) _ assms(12) _ assms(4,14,15) fresh]) (simp_all add: make_proof_nonempty)
  moreover have "mem_view (mem_put mc ?k ''1'' (k_cache clk + dpopReplayTTL)) ?k = Some (''1'', k_cache clk + dpopReplayTTL)"
    by (simp add: mem_view_def mem_put_def gomap_simps)
  ultimately show ?thesis by blast
qed

section \<open>A sample proof\<close>

lemma p256_pointI:
  assumes "0 \<le> x" "x < p256_p" "0 \<le> y" "y < p256_p" "y * y = x * x * x - 3 * x + p256_b + p256_p * q"
  shows "p256_point (x, y)"
  using assms by (simp add: p256_point_def)

definition sample_point :: ec_key where
  "sample_point = (0, 0x66485C780E2F83D72433BD5D84A06BB6541C2AF31DAE871728BF856A174F93F4)"

lemma sample_point_on_curve: "p256_point sample_point"
  unfolding sample_point_def
proof (rule p256_pointI)
  show "0x66485C780E2F83D72433BD5D84A06BB6541C2AF31DAE871728BF856A174F93F4 * 0x66485C780E2F83D72433BD5D84A06BB6541C2AF31DAE871728BF856A174F93F4 =
    0 * 0 * 0 - 3 * 0 + p256_b + p256_p * 0x28DDBE23F91A186CDE31693E44D9577376BA56E1C52CB3F335F4C8DBA9B83FBB"
    unfolding p256_b_def p256_p_def by simp
qed (simp_all add: p256_p_def)

definition sample_proof_crypto :: "(rsa_key, ec_key) crypto" where
  "sample_proof_crypto = \<lparr> cr_sha256 = (\<lambda>x. take 32 (x @ replicate 32 (CHR 0x00))), cr_rsa_verify = (\<lambda>k h sig. False),
     cr_on_p256 = p256_point, cr_ecdsa_verify = (\<lambda>k h sig. sig = h) \<rparr>"

definition sample_key :: proof_key where "sample_key = ECDSAPublicKey (Some sample_point)"

definition sample_ath :: string where "sample_ath = SHA256Base64URL (cr_sha256 sample_proof_crypto) ''t''"

definition sample_proof :: string where
  "sample_proof = make_proof (cr_sha256 sample_proof_crypto) (alg_of sample_key) sample_key ''GET'' ''o/'' sample_ath 100 ''j''"

definition sample_thumbprint :: string where
  "sample_thumbprint = the (ComputeJWKThumbprint (cr_sha256 sample_proof_crypto) sample_key)"

definition sample_bound :: VaultClaims where
  "sample_bound = no_claims\<lparr> c_cnf := Some sample_thumbprint \<rparr>"

definition sample_clock :: dpop_clock where
  "sample_clock = \<lparr> k_validate = unix_time 101, k_age = unix_time 101, k_cache = unix_time 101 \<rparr>"

definition sample_request :: http_request where
  "sample_request = \<lparr> hr_remoteAddr = ''192.0.2.7:1'', hr_path = ''/'',
     hr_header = [(''Authorization'', ''DPoP t''), (''Dpop'', sample_proof)] \<rparr>"

lemma sample_hash_length: "length (cr_sha256 sample_proof_crypto x) = 32"
  by (simp add: sample_proof_crypto_def min_def)

lemma sample_signature: "verify_signature sample_proof_crypto (alg_of sample_key) x (cr_sha256 sample_proof_crypto x) sample_key = []"
proof -
  have "\<not> isRawRS (cr_sha256 sample_proof_crypto x)" by (simp add: isRawRS_def sample_hash_length)
  then show ?thesis
    using sample_point_on_curve
    by (simp add: verify_signature_def sample_key_def alg_of_def VerifyES256_def Let_def) (simp add: sample_proof_crypto_def)
qed

lemma sample_parts:
  "int (length (print_json (JObj (proof_header (alg_of sample_key) sample_key)))) \<le> 1000"
  "int (length (print_json (JObj (proof_members ''GET'' ''o/'' sample_ath 100 ''j'')))) \<le> 1000"
  by code_simp+

lemma sample_proof_size: "int (length sample_proof) \<le> DPoPMaxSize"
  using sample_parts
  by (simp add: sample_proof_def make_proof_def Let_def sample_hash_length DPoPMaxSize_def del: print_json.simps)

lemma sample_usable: "usable_key sample_key"
  using sample_point_on_curve by (simp add: sample_key_def)

lemma sample_headers:
  "header_Get sample_request ''DPoP'' = sample_proof" "header_Get sample_request ''Authorization'' = ''DPoP '' @ ''t''"
proof -
  have "CanonicalHeaderKey ''DPoP'' = ''Dpop''" "CanonicalHeaderKey ''Authorization'' = ''Authorization''" by code_simp+
  then show "header_Get sample_request ''DPoP'' = sample_proof" "header_Get sample_request ''Authorization'' = ''DPoP '' @ ''t''"
    by (simp_all add: header_Get_def header_Values_def sample_request_def)
qed

lemma sample_thumbprint: "ComputeJWKThumbprint (cr_sha256 sample_proof_crypto) sample_key = Some sample_thumbprint" "sample_thumbprint \<noteq> []"
proof -
  obtain t where t: "ComputeJWKThumbprint (cr_sha256 sample_proof_crypto) sample_key = Some t"
    using usable_thumbprint [OF sample_usable] by blast
  then show "ComputeJWKThumbprint (cr_sha256 sample_proof_crypto) sample_key = Some sample_thumbprint" by (simp add: sample_thumbprint_def)
  from t have "length t = 43" by (auto simp: ComputeJWKThumbprint_def sample_hash_length)
  with t show "sample_thumbprint \<noteq> []" by (auto simp: sample_thumbprint_def)
qed

lemma sample_words: "list_all valid_utf8 [''GET'', ''o/'', ''j'']"
  by code_simp

lemma sample_times:
  "minNumericDate \<le> 100" "(100 :: int) \<le> maxNumericDate" "k_age sample_clock \<le> unix_time 100 + DPoPMaxAge"
  "unix_time 100 \<le> k_age sample_clock + DPoPMaxAge"
  by code_simp+

lemma sample_valid:
  "ValidateDPoPProof sample_proof_crypto id sample_clock sample_proof ''GET'' (''o'' @ hr_path sample_request)
     (SHA256Base64URL (cr_sha256 sample_proof_crypto) ''t'') = Inr (sample_thumbprint, ''j'')"
proof -
  have "ValidateDPoPProof sample_proof_crypto id sample_clock sample_proof ''GET'' ''o/'' sample_ath = Inr (sample_thumbprint, ''j'')"
    unfolding sample_proof_def using sample_words sample_proof_size [unfolded sample_proof_def]
    by (intro honest_proof_validates sample_usable sample_signature sample_times sample_thumbprint(1)) (simp_all add: sample_ath_def SHA256Base64URL_def)
  then show ?thesis by (simp add: sample_request_def sample_ath_def)
qed

definition sample_cache :: MemoryCache where "sample_cache = newMemoryCacheWithCap 4"

definition spent_cache :: MemoryCache where
  "spent_cache = fst (mem_SetIfNotExists sample_cache (k_cache sample_clock) (dpopReplayKey (cr_sha256 sample_proof_crypto) ''j'') ''1'' dpopReplayTTL)"

lemma sample_spent:
  "mem_SetIfNotExists sample_cache (k_cache sample_clock) (dpopReplayKey (cr_sha256 sample_proof_crypto) ''j'') ''1'' dpopReplayTTL = (spent_cache, Inr True)"
  by (simp add: spent_cache_def sample_cache_def newMemoryCacheWithCap_def mem_SetIfNotExists_def mem_admit_def)

lemma sample_next:
  "DPoP sample_proof_crypto id (Some memory_cache) ''o'' sample_clock sample_cache ''GET'' sample_request (Some sample_bound) =
     (spent_cache, Next (Some sample_thumbprint))"
  using sample_thumbprint(2) sample_spent
  by (intro honest_request_next [OF sample_headers(1) _ sample_headers(2) sample_valid])
     (simp_all add: sample_bound_def sample_proof_def make_proof_nonempty)

theorem bound_token_needs_its_key_witness:
  "\<exists>tok key. header_Get sample_request ''Authorization'' = ''DPoP '' @ tok \<and>
     ComputeJWKThumbprint (cr_sha256 sample_proof_crypto) key = Some sample_thumbprint"
proof -
  have "c_cnf sample_bound = Some sample_thumbprint" by (simp add: sample_bound_def)
  moreover have "\<forall>x. length (cr_sha256 sample_proof_crypto x) = 32" by (simp add: sample_hash_length)
  ultimately show ?thesis
    using bound_token_needs_its_key [OF sample_next _ sample_thumbprint(2)] by blast
qed

theorem replayed_proof_is_refused_witness:
  "\<exists>m2 status code. DPoP sample_proof_crypto id (Some memory_cache) ''o'' sample_clock
     (foldl mem_exec spent_cache [(unix_time 101, MCleanup), (unix_time 101, MIncrement ''login:x'' Minute)])
     ''GET'' sample_request (Some sample_bound) = (m2, Refuse status code)"
proof (rule replayed_proof_is_refused [OF _ sample_next])
  show "mem_inv sample_cache" unfolding sample_cache_def by (rule mem_inv_new)
  show "tokenRequiresDPoP (Some sample_bound)" "Some sample_bound = None \<or> tokenRequiresDPoP (Some sample_bound)"
    using sample_thumbprint(2) by (simp_all add: sample_bound_def tokenRequiresDPoP_def)
  show "list_all (\<lambda>(t, op). spares_keys replay_prefix op \<and> t \<le> k_cache sample_clock) [(unix_time 101, MCleanup), (unix_time 101, MIncrement ''login:x'' Minute)]"
    by code_simp
qed (simp, code_simp+)

theorem honest_client_is_admitted_witness:
  "\<exists>mc'. DPoP sample_proof_crypto id (Some memory_cache) ''o'' sample_clock sample_cache ''GET'' sample_request (Some sample_bound) =
     (mc', Next (Some sample_thumbprint))"
proof -
  have p: "sample_proof = make_proof (cr_sha256 sample_proof_crypto) (alg_of sample_key) sample_key ''GET'' (''o'' @ hr_path sample_request)
     (SHA256Base64URL (cr_sha256 sample_proof_crypto) ''t'') 100 ''j''"
    by (simp add: sample_proof_def sample_ath_def sample_request_def)
  have c: "mem_view sample_cache (dpopReplayKey (cr_sha256 sample_proof_crypto) ''j'') = None"
    "int (length (mc_data sample_cache)) < mc_maxEntries sample_cache" "c_cnf sample_bound = Some sample_thumbprint"
    "list_all valid_utf8 [''GET'', ''o'' @ hr_path sample_request, ''j'']" "''j'' \<noteq> []"
    using sample_words
    by (simp_all add: sample_cache_def newMemoryCacheWithCap_def mem_view_def sample_bound_def sample_request_def)
  show ?thesis
    using honest_client_is_admitted [OF sample_usable sample_signature c(4,5) sample_times sample_proof_size p sample_headers sample_thumbprint(1) c(3)
        sample_thumbprint(2) c(1,2)] by blast
qed

theorem thumbprint_identifies_key_witness:
  "\<exists>a b. thumbprint_input sample_key = Some a \<and>
     thumbprint_input (ECDSAPublicKey (Some (0, p256_p - snd sample_point))) = Some b \<and> a \<noteq> b"
proof -
  have neg: "p256_point (0, p256_p - snd sample_point)"
  proof (rule p256_pointI)
    show "(p256_p - snd sample_point) * (p256_p - snd sample_point) = 0 * 0 * 0 - 3 * 0 + p256_b +
      p256_p * 0x5C4D0532DCBB10BF95C9EE833B988006CE8200FC89CFA5C4E475BE077B1917D2"
      unfolding p256_b_def p256_p_def sample_point_def by simp
  qed (simp_all add: p256_p_def sample_point_def)
  then have k: "usable_key (ECDSAPublicKey (Some (0, p256_p - snd sample_point)))" by simp
  have ne: "sample_key \<noteq> ECDSAPublicKey (Some (0, p256_p - snd sample_point))"
    by (simp add: sample_key_def sample_point_def p256_p_def)
  have "ComputeJWKThumbprint (\<lambda>_. ''h'') sample_key = Some (encodeSegment ''h'')"
    "ComputeJWKThumbprint (\<lambda>_. ''h'') (ECDSAPublicKey (Some (0, p256_p - snd sample_point))) = Some (encodeSegment ''h'')"
    using sample_point_on_curve neg
    by (simp_all add: ComputeJWKThumbprint_def thumbprint_input_def sample_key_def split: prod.splits)
  from thumbprint_identifies_key [OF parse_key_jwk [OF sample_usable] parse_key_jwk [OF k] ne this] show ?thesis by blast
qed

end
