(* ===== verification/Password.thy ===== *)
theory Password
  imports Bytes Fingerprint
begin

text \<open>
  Password hashing: \<open>internal/crypto/argon2.go\<close>. The key derivation itself, \<open>argon2.IDKey\<close> of
  \<open>golang.org/x/crypto\<close>, and HMAC-SHA256 are the record \<open>kdf\<close>; a salt is an argument. The first part
  is the stored text with its parser and what hashing and verifying do; the second is the semaphore
  that bounds how much memory verification may take, as steps of concurrent callers.
\<close>

section \<open>Parameters\<close>

definition argon2Memory :: nat where "argon2Memory = 46 * 1024"
definition argon2Iterations :: nat where "argon2Iterations = 1"
definition argon2Parallelism :: nat where "argon2Parallelism = 1"
definition argon2SaltLen :: nat where "argon2SaltLen = 16"
definition argon2KeyLen :: nat where "argon2KeyLen = 32"
definition argon2MaxConcurrent :: nat where "argon2MaxConcurrent = 4"
definition argon2MaxQueueDepth :: nat where "argon2MaxQueueDepth = 64"
definition argon2MaxVerifyMemory :: nat where "argon2MaxVerifyMemory = 64 * 1024"

record kdf =
  kd_hmac :: "string \<Rightarrow> string \<Rightarrow> string"
  kd_idkey :: "string \<Rightarrow> string \<Rightarrow> nat \<Rightarrow> nat \<Rightarrow> nat \<Rightarrow> nat \<Rightarrow> string"

record argon2Params =
  ap_memory :: nat
  ap_iterations :: nat
  ap_parallelism :: nat

datatype pw_error =
    Argon2Overloaded
  | HashFormat
  | HashVariant
  | HashParameters
  | HashBounds
  | HashSalt
  | HashBody

section \<open>The stored text\<close>

definition applyPepper :: "kdf \<Rightarrow> string \<Rightarrow> string \<Rightarrow> string" where
  "applyPepper kd password pepper = (if pepper \<noteq> [] then kd_hmac kd pepper password else password)"

text \<open>\<open>strconv.ParseUint(s, 10, 32)\<close>.\<close>

definition ParseUint32 :: "string \<Rightarrow> nat option" where
  "ParseUint32 s = (case ParseUint s of Inl _ \<Rightarrow> None | Inr n \<Rightarrow> if n \<le> 4294967295 then Some n else None)"

definition parse_param :: "argon2Params \<Rightarrow> string \<Rightarrow> argon2Params option" where
  "parse_param params p =
     (case cut_at CHR ''='' p of
        None \<Rightarrow> None
      | Some (k, v) \<Rightarrow>
          (case ParseUint32 v of
             None \<Rightarrow> None
           | Some val \<Rightarrow>
               if k = ''m'' then Some (params\<lparr> ap_memory := val \<rparr>)
               else if k = ''t'' then Some (params\<lparr> ap_iterations := val \<rparr>)
               else if k = ''p'' then if 255 < val then None else Some (params\<lparr> ap_parallelism := val \<rparr>)
               else Some params))"

fun parse_params :: "argon2Params \<Rightarrow> string list \<Rightarrow> argon2Params option" where
  "parse_params params [] = Some params"
| "parse_params params (p # ps) = (case parse_param params p of None \<Rightarrow> None | Some q \<Rightarrow> parse_params q ps)"

definition params_in_bounds :: "argon2Params \<Rightarrow> bool" where
  "params_in_bounds ps \<longleftrightarrow>
     1 \<le> ap_iterations ps \<and> ap_iterations ps \<le> 10 \<and> 1 \<le> ap_parallelism ps \<and> ap_parallelism ps \<le> 4 \<and>
     8 * ap_parallelism ps \<le> ap_memory ps \<and> ap_memory ps \<le> argon2MaxVerifyMemory"

definition parseArgon2Hash :: "string \<Rightarrow> pw_error + string \<times> string \<times> argon2Params" where
  "parseArgon2Hash encoded =
     (let parts = split_on CHR ''$'' encoded in
      if length parts \<noteq> 6 then Inl HashFormat
      else if parts ! 1 \<noteq> ''argon2id'' then Inl HashVariant
      else let paramParts = split_on CHR '','' (parts ! 3) in
        if length paramParts \<noteq> 3 then Inl HashParameters
        else case parse_params \<lparr> ap_memory = 0, ap_iterations = 0, ap_parallelism = 0 \<rparr> paramParts of
               None \<Rightarrow> Inl HashParameters
             | Some params \<Rightarrow>
                 if \<not> params_in_bounds params then Inl HashBounds
                 else (case RawStd_DecodeString (parts ! 4) of
                         None \<Rightarrow> Inl HashSalt
                       | Some salt \<Rightarrow>
                           if length salt < argon2SaltLen then Inl HashSalt
                           else (case RawStd_DecodeString (parts ! 5) of
                                   None \<Rightarrow> Inl HashBody
                                 | Some hash \<Rightarrow> if hash = [] then Inl HashBody else Inr (salt, hash, params))))"

definition phc_params :: "nat \<Rightarrow> nat \<Rightarrow> nat \<Rightarrow> string" where
  "phc_params m t p = ''m='' @ digits10 m @ '',t='' @ digits10 t @ '',p='' @ digits10 p"

definition HashPassword :: "kdf \<Rightarrow> bool \<Rightarrow> string \<Rightarrow> string \<Rightarrow> string \<Rightarrow> pw_error + string" where
  "HashPassword kd acquired salt password pepper =
     (if \<not> acquired then Inl Argon2Overloaded
      else let hash = kd_idkey kd (applyPepper kd password pepper) salt argon2Iterations argon2Memory argon2Parallelism argon2KeyLen
           in Inr (''$argon2id$v=19$'' @ phc_params argon2Memory argon2Iterations argon2Parallelism @ ''$'' @
                   RawStd_EncodeToString salt @ ''$'' @ RawStd_EncodeToString hash))"

text \<open>\<open>dummy\<close> is the sentinel \<open>DummyHash\<close> and \<open>current\<close> the rotating hash it stands for.\<close>

definition VerifyPassword :: "kdf \<Rightarrow> bool \<Rightarrow> string \<Rightarrow> string \<Rightarrow> string \<Rightarrow> string \<Rightarrow> string \<Rightarrow> pw_error + bool" where
  "VerifyPassword kd acquired dummy current password encoded0 pepper =
     (let encoded = (if encoded0 = dummy then current else encoded0) in
      if \<not> acquired then Inl Argon2Overloaded
      else case parseArgon2Hash encoded of
             Inl e \<Rightarrow> Inl e
           | Inr (salt, hash, params) \<Rightarrow>
               if length hash = 0 \<or> 64 < length hash then Inl HashBody
               else Inr (kd_idkey kd (applyPepper kd password pepper) salt (ap_iterations params) (ap_memory params)
                           (ap_parallelism params) (length hash) = hash))"


section \<open>A stored hash verifies\<close>

lemma std_no_dollar: "CHR ''$'' \<notin> set (RawStd_EncodeToString d)"
proof
  assume "CHR ''$'' \<in> set (RawStd_EncodeToString d)"
  then obtain c where c: "c \<in> set (encodeSegment d)" "std_char c = CHR ''$''" by (auto simp: RawStd_EncodeToString_def)
  then have "c = CHR ''$''" by (auto simp: std_char_def split: if_splits)
  with encodeSegment_alphabet [OF c(1)] show False by (simp add: b64_index_def)
qed

lemma digits10_plain: "c \<in> set (digits10 n) \<Longrightarrow> c \<noteq> CHR ''$'' \<and> c \<noteq> CHR '','' \<and> c \<noteq> CHR ''=''"
  by (drule digits10_digits) (auto simp: is_digit_def)

lemma phc_no_dollar: "CHR ''$'' \<notin> set (phc_params m t p)"
  using digits10_plain by (auto simp: phc_params_def)

lemma ParseUint32_digits10: "n \<le> 4294967295 \<Longrightarrow> ParseUint32 (digits10 n) = Some n"
  by (simp add: ParseUint32_def ParseUint_digits10 MaxUint64_def)

lemma cut_param: "cut_at CHR ''='' (k # CHR ''='' # v) = Some ([k], v)" if "k \<noteq> CHR ''=''"
  using that by (simp add: cut_at_def)

lemma phc_params_parse:
  assumes "m \<le> 4294967295" "t \<le> 4294967295" "p \<le> 255"
  shows "split_on CHR '','' (phc_params m t p) = [''m='' @ digits10 m, ''t='' @ digits10 t, ''p='' @ digits10 p]"
    and "parse_params z [''m='' @ digits10 m, ''t='' @ digits10 t, ''p='' @ digits10 p] =
      Some (z\<lparr> ap_memory := m, ap_iterations := t, ap_parallelism := p \<rparr>)"
proof -
  have "phc_params m t p = join_with [CHR '',''] [''m='' @ digits10 m, ''t='' @ digits10 t, ''p='' @ digits10 p]"
    by (simp add: phc_params_def)
  moreover have "split_on CHR '','' (join_with [CHR '',''] [''m='' @ digits10 m, ''t='' @ digits10 t, ''p='' @ digits10 p]) =
      [''m='' @ digits10 m, ''t='' @ digits10 t, ''p='' @ digits10 p]"
    by (rule split_on_join) (auto dest: digits10_plain)
  ultimately show "split_on CHR '','' (phc_params m t p) = [''m='' @ digits10 m, ''t='' @ digits10 t, ''p='' @ digits10 p]" by simp
  show "parse_params z [''m='' @ digits10 m, ''t='' @ digits10 t, ''p='' @ digits10 p] =
      Some (z\<lparr> ap_memory := m, ap_iterations := t, ap_parallelism := p \<rparr>)"
    using assms by (simp add: parse_param_def cut_param ParseUint32_digits10)
qed

lemma parse_phc:
  assumes "m \<le> 4294967295" "t \<le> 4294967295" "p \<le> 255" "argon2SaltLen \<le> length salt" "hash \<noteq> []"
    and "ps = \<lparr> ap_memory = m, ap_iterations = t, ap_parallelism = p \<rparr>" "params_in_bounds ps"
  shows "parseArgon2Hash (''$argon2id$v=19$'' @ phc_params m t p @ ''$'' @ RawStd_EncodeToString salt @ ''$'' @ RawStd_EncodeToString hash) =
    Inr (salt, hash, ps)"
proof -
  let ?parts = "[[], ''argon2id'', ''v=19'', phc_params m t p, RawStd_EncodeToString salt, RawStd_EncodeToString hash]"
  have "split_on CHR ''$'' (join_with [CHR ''$''] ?parts) = ?parts"
    by (rule split_on_join) (use std_no_dollar phc_no_dollar in auto)
  moreover have "join_with [CHR ''$''] ?parts =
    ''$argon2id$v=19$'' @ phc_params m t p @ ''$'' @ RawStd_EncodeToString salt @ ''$'' @ RawStd_EncodeToString hash" by simp
  ultimately have "split_on CHR ''$'' (''$argon2id$v=19$'' @ phc_params m t p @ ''$'' @ RawStd_EncodeToString salt @ ''$'' @ RawStd_EncodeToString hash) = ?parts"
    by simp
  then show ?thesis
    using assms phc_params_parse [OF assms(1-3), unfolded append.simps]
    by (simp add: parseArgon2Hash_def Let_def del: parse_params.simps)
qed

lemma parse_hashed:
  assumes "HashPassword kd acquired salt pw pepper = Inr h" "length salt = argon2SaltLen"
    "\<forall>x s. length (kd_idkey kd x s argon2Iterations argon2Memory argon2Parallelism argon2KeyLen) = argon2KeyLen"
  shows "parseArgon2Hash h =
    Inr (salt, kd_idkey kd (applyPepper kd pw pepper) salt argon2Iterations argon2Memory argon2Parallelism argon2KeyLen,
         \<lparr> ap_memory = argon2Memory, ap_iterations = argon2Iterations, ap_parallelism = argon2Parallelism \<rparr>)"
proof -
  define hash where "hash = kd_idkey kd (applyPepper kd pw pepper) salt argon2Iterations argon2Memory argon2Parallelism argon2KeyLen"
  have "length hash = argon2KeyLen" using assms(3) by (simp add: hash_def)
  then have ne: "hash \<noteq> []" by (auto simp: argon2KeyLen_def)
  have h: "h = ''$argon2id$v=19$'' @ phc_params argon2Memory argon2Iterations argon2Parallelism @ ''$'' @ RawStd_EncodeToString salt @ ''$'' @
      RawStd_EncodeToString hash"
    using assms(1) by (auto simp: HashPassword_def hash_def Let_def split: if_splits)
  show ?thesis
    unfolding h hash_def [symmetric] using ne assms(2)
    by (intro parse_phc) (simp_all add: argon2Memory_def argon2Iterations_def argon2Parallelism_def params_in_bounds_def argon2MaxVerifyMemory_def)
qed

text \<open>
  C17: A hash made from a password under a pepper verifies exactly the passwords whose derived key is
  the stored one: the password it was made from, and no other unless the key derivation collides under
  that salt. The text written is one the parser accepts, with the issuing parameters.
\<close>

theorem stored_hash_verifies_its_password:
  assumes "HashPassword kd True salt pw pepper = Inr h" "length salt = argon2SaltLen"
    "\<forall>x s. length (kd_idkey kd x s argon2Iterations argon2Memory argon2Parallelism argon2KeyLen) = argon2KeyLen" "h \<noteq> dummy"
  shows "VerifyPassword kd True dummy current pw h pepper = Inr True \<and>
    (VerifyPassword kd True dummy current pw' h pepper' = Inr True \<longleftrightarrow>
       kd_idkey kd (applyPepper kd pw' pepper') salt argon2Iterations argon2Memory argon2Parallelism argon2KeyLen =
       kd_idkey kd (applyPepper kd pw pepper) salt argon2Iterations argon2Memory argon2Parallelism argon2KeyLen)"
proof -
  define hash where "hash = kd_idkey kd (applyPepper kd pw pepper) salt argon2Iterations argon2Memory argon2Parallelism argon2KeyLen"
  have len: "length hash = argon2KeyLen" using assms(3) by (simp add: hash_def)
  then have ne: "hash \<noteq> []" by (auto simp: argon2KeyLen_def)
  from parse_hashed [OF assms(1-3)]
  have "parseArgon2Hash h = Inr (salt, hash, \<lparr> ap_memory = argon2Memory, ap_iterations = argon2Iterations, ap_parallelism = argon2Parallelism \<rparr>)"
    by (simp add: hash_def)
  then have "VerifyPassword kd True dummy current x h y =
      Inr (kd_idkey kd (applyPepper kd x y) salt argon2Iterations argon2Memory argon2Parallelism argon2KeyLen = hash)" for x y
    using len ne assms(4) by (simp add: VerifyPassword_def Let_def argon2KeyLen_def)
  then show ?thesis by (simp add: hash_def)
qed

definition sample_kdf :: kdf where
  "sample_kdf = \<lparr> kd_hmac = (\<lambda>k m. k @ m), kd_idkey = (\<lambda>pw s t m p n. take n (pw @ replicate n (CHR 0x00))) \<rparr>"

theorem stored_hash_verifies_its_password_witness:
  "\<exists>h. HashPassword sample_kdf True (replicate 16 (CHR ''s'')) ''hunter2'' [] = Inr h \<and>
     VerifyPassword sample_kdf True ''d'' ''d'' ''hunter2'' h [] = Inr True \<and>
     VerifyPassword sample_kdf True ''d'' ''d'' ''hunter3'' h [] \<noteq> Inr True"
proof -
  obtain h where h: "HashPassword sample_kdf True (replicate 16 (CHR ''s'')) ''hunter2'' [] = Inr h"
    by (simp add: HashPassword_def Let_def)
  then have ne: "h \<noteq> ''d''" by (auto simp: HashPassword_def Let_def)
  have len: "\<forall>x s. length (kd_idkey sample_kdf x s argon2Iterations argon2Memory argon2Parallelism argon2KeyLen) = argon2KeyLen"
    by (simp add: sample_kdf_def min_def argon2KeyLen_def)
  have "kd_idkey sample_kdf (applyPepper sample_kdf ''hunter3'' []) (replicate 16 (CHR ''s'')) argon2Iterations argon2Memory argon2Parallelism argon2KeyLen \<noteq>
     kd_idkey sample_kdf (applyPepper sample_kdf ''hunter2'' []) (replicate 16 (CHR ''s'')) argon2Iterations argon2Memory argon2Parallelism argon2KeyLen"
    by (simp add: sample_kdf_def applyPepper_def argon2KeyLen_def)
  with h stored_hash_verifies_its_password [OF h _ len ne] show ?thesis by (auto simp: argon2SaltLen_def)
qed

section \<open>The semaphore\<close>

text \<open>
  What a call makes \<open>argon2.IDKey\<close> allocate, in KiB. A stored text that does not parse is charged the
  issuing parameters; one whose hash is too long returns before deriving anything.
\<close>

datatype argon2_job = HashJob | VerifyJob string

fun job_memory :: "argon2_job \<Rightarrow> nat" where
  "job_memory HashJob = argon2Memory"
| "job_memory (VerifyJob encoded) =
     (case parseArgon2Hash encoded of
        Inl _ \<Rightarrow> argon2Memory
      | Inr (_, hash, params) \<Rightarrow> if length hash = 0 \<or> 64 < length hash then 0 else ap_memory params)"

text \<open>
  The four package variables, and where a caller is between two atomic operations on them:
  \<open>Arriving\<close> before the queue check, \<open>Admitted\<close> past it, \<open>Queued\<close> once counted as waiting, \<open>Granted\<close> with
  a slot, \<open>Counted\<close> once counted as active, \<open>Running\<close> inside \<open>IDKey\<close>, \<open>Computed\<close> on its way out,
  \<open>Releasing\<close> no longer counted as active but still holding its slot; \<open>Expiring\<close> has timed out and is
  still counted as waiting.
\<close>

record argon2_gauges =
  ag_sem :: nat
  ag_waiting :: int
  ag_active :: int
  ag_rejected :: nat

datatype argon2_caller =
    Arriving argon2_job
  | Admitted argon2_job
  | Queued argon2_job
  | Granted argon2_job
  | Counted argon2_job
  | Running argon2_job
  | Computed
  | Releasing
  | Expiring
  | Finished
  | Refused

text \<open>\<open>acquireArgon2\<close>: the queue check, the count of waiters, and the \<open>select\<close> between a slot and the
  deadline (\<open>expired\<close> is which case it takes; a full channel leaves it blocked).\<close>

definition acquireArgon2 :: "bool \<Rightarrow> argon2_gauges \<Rightarrow> argon2_caller \<Rightarrow> (argon2_gauges \<times> argon2_caller) option" where
  "acquireArgon2 expired g c =
     (case c of
        Arriving j \<Rightarrow>
          if int argon2MaxQueueDepth \<le> ag_waiting g then Some (g\<lparr> ag_rejected := ag_rejected g + 1 \<rparr>, Refused)
          else Some (g, Admitted j)
      | Admitted j \<Rightarrow> Some (g\<lparr> ag_waiting := ag_waiting g + 1 \<rparr>, Queued j)
      | Queued j \<Rightarrow>
          if expired then Some (g\<lparr> ag_rejected := ag_rejected g + 1 \<rparr>, Expiring)
          else if ag_sem g < argon2MaxConcurrent then Some (g\<lparr> ag_sem := ag_sem g + 1 \<rparr>, Granted j)
          else None
      | Granted j \<Rightarrow> Some (g\<lparr> ag_active := ag_active g + 1 \<rparr>, Counted j)
      | Counted j \<Rightarrow> Some (g\<lparr> ag_waiting := ag_waiting g - 1 \<rparr>, Running j)
      | Expiring \<Rightarrow> Some (g\<lparr> ag_waiting := ag_waiting g - 1 \<rparr>, Refused)
      | _ \<Rightarrow> None)"

definition releaseArgon2 :: "argon2_gauges \<Rightarrow> argon2_caller \<Rightarrow> (argon2_gauges \<times> argon2_caller) option" where
  "releaseArgon2 g c =
     (case c of
        Computed \<Rightarrow> Some (g\<lparr> ag_active := ag_active g - 1 \<rparr>, Releasing)
      | Releasing \<Rightarrow> Some (g\<lparr> ag_sem := ag_sem g - 1 \<rparr>, Finished)
      | _ \<Rightarrow> None)"

definition caller_step :: "bool \<Rightarrow> argon2_gauges \<Rightarrow> argon2_caller \<Rightarrow> (argon2_gauges \<times> argon2_caller) option" where
  "caller_step expired g c =
     (case c of
        Running j \<Rightarrow> Some (g, Computed)
      | Computed \<Rightarrow> releaseArgon2 g c
      | Releasing \<Rightarrow> releaseArgon2 g c
      | _ \<Rightarrow> acquireArgon2 expired g c)"

type_synonym argon2_state = "argon2_gauges \<times> argon2_caller list"

inductive argon2_step :: "argon2_state \<Rightarrow> argon2_state \<Rightarrow> bool" where
  caller_moves: "i < length cs \<Longrightarrow> caller_step expired g (cs ! i) = Some (g', c') \<Longrightarrow> argon2_step (g, cs) (g', cs[i := c'])"
| caller_arrives: "argon2_step (g, cs) (g, cs @ [Arriving j])"

definition argon2_idle :: argon2_state where
  "argon2_idle = (\<lparr> ag_sem = 0, ag_waiting = 0, ag_active = 0, ag_rejected = 0 \<rparr>, [])"

abbreviation argon2_reachable :: "argon2_state \<Rightarrow> bool" where
  "argon2_reachable s \<equiv> argon2_step\<^sup>*\<^sup>* argon2_idle s"

fun holds_slot :: "argon2_caller \<Rightarrow> bool" where
  "holds_slot (Granted _) = True" | "holds_slot (Counted _) = True" | "holds_slot (Running _) = True"
| "holds_slot Computed = True" | "holds_slot Releasing = True" | "holds_slot _ = False"

fun is_active :: "argon2_caller \<Rightarrow> bool" where
  "is_active (Counted _) = True" | "is_active (Running _) = True" | "is_active Computed = True" | "is_active _ = False"

fun is_waiting :: "argon2_caller \<Rightarrow> bool" where
  "is_waiting (Queued _) = True" | "is_waiting (Granted _) = True" | "is_waiting (Counted _) = True"
| "is_waiting Expiring = True" | "is_waiting _ = False"

fun caller_memory :: "argon2_caller \<Rightarrow> nat" where
  "caller_memory (Running j) = job_memory j"
| "caller_memory _ = 0"

fun settled :: "argon2_caller \<Rightarrow> bool" where
  "settled Finished = True" | "settled Refused = True" | "settled _ = False"

definition gauges_agree :: "argon2_state \<Rightarrow> bool" where
  "gauges_agree s =
     (let (g, cs) = s in
      ag_sem g = length (filter holds_slot cs) \<and> ag_active g = int (length (filter is_active cs)) \<and>
      ag_waiting g = int (length (filter is_waiting cs)) \<and> ag_sem g \<le> argon2MaxConcurrent)"

lemma job_memory_bounded: "job_memory j \<le> argon2MaxVerifyMemory"
proof (cases j)
  case HashJob
  then show ?thesis by (simp add: argon2Memory_def argon2MaxVerifyMemory_def)
next
  case (VerifyJob e)
  have "ap_memory p \<le> argon2MaxVerifyMemory" if "parseArgon2Hash e = Inr (s, h, p)" for s h p
    using that by (auto simp: parseArgon2Hash_def params_in_bounds_def Let_def split: if_splits option.splits)
  with VerifyJob show ?thesis
    by (auto simp: argon2Memory_def argon2MaxVerifyMemory_def split: sum.splits)
qed

lemma filter_update_count:
  "i < length cs \<Longrightarrow> length (filter P (cs[i := c])) + of_bool (P (cs ! i)) = length (filter P cs) + of_bool (P c)"
proof (induction cs arbitrary: i)
  case (Cons x cs)
  then show ?case by (cases i) auto
qed simp

lemma holders_positive: "i < length cs \<Longrightarrow> P (cs ! i) \<Longrightarrow> 0 < length (filter P cs)"
  by (auto simp: filter_empty_conv)

lemmas caller_step_defs = caller_step_def acquireArgon2_def releaseArgon2_def

lemma caller_step_gauges:
  assumes "caller_step expired g c = Some (g', c')" "holds_slot c \<Longrightarrow> 0 < ag_sem g"
  shows "ag_sem g' + of_bool (holds_slot c) = ag_sem g + of_bool (holds_slot c')"
    and "ag_active g' + of_bool (is_active c) = ag_active g + of_bool (is_active c')"
    and "ag_waiting g' + of_bool (is_waiting c) = ag_waiting g + of_bool (is_waiting c')"
    and "ag_sem g \<le> argon2MaxConcurrent \<Longrightarrow> ag_sem g' \<le> argon2MaxConcurrent"
  using assms by (cases c; auto simp: caller_step_defs split: if_splits)+

lemma gauges_step: "argon2_step s s' \<Longrightarrow> gauges_agree s \<Longrightarrow> gauges_agree s'"
proof (induction rule: argon2_step.induct)
  case (caller_moves i cs expired g g' c')
  have old: "ag_sem g = length (filter holds_slot cs)" "ag_active g = int (length (filter is_active cs))"
    "ag_waiting g = int (length (filter is_waiting cs))" "ag_sem g \<le> argon2MaxConcurrent"
    using caller_moves(3) by (simp_all add: gauges_agree_def)
  note u = filter_update_count [OF caller_moves(1), where c = c']
  have "holds_slot (cs ! i) \<Longrightarrow> 0 < ag_sem g" using holders_positive [OF caller_moves(1)] old(1) by simp
  note d = caller_step_gauges [OF caller_moves(2) this]
  have ib: "int (of_bool b) = of_bool b" for b by simp
  have "ag_sem g' = length (filter holds_slot (cs[i := c']))" using u [of holds_slot] d(1) old(1) by linarith
  moreover have "ag_active g' = int (length (filter is_active (cs[i := c'])))"
    using arg_cong [OF u [of is_active], of int] d(2) old(2) unfolding of_nat_add ib by linarith
  moreover have "ag_waiting g' = int (length (filter is_waiting (cs[i := c'])))"
    using arg_cong [OF u [of is_waiting], of int] d(3) old(3) unfolding of_nat_add ib by linarith
  ultimately show ?case using d(4) old(4) by (simp add: gauges_agree_def)
next
  case (caller_arrives g cs j)
  then show ?case by (simp add: gauges_agree_def)
qed

lemma gauges_reachable: "argon2_reachable s \<Longrightarrow> gauges_agree s"
proof (induction rule: rtranclp_induct)
  case base
  show ?case by (simp add: argon2_idle_def gauges_agree_def)
qed (rule gauges_step)

lemma memory_by_slots: "sum_list (map caller_memory cs) \<le> length (filter holds_slot cs) * argon2MaxVerifyMemory"
proof (induction cs)
  case (Cons c cs)
  then show ?case using job_memory_bounded by (cases c) (auto intro: add_mono)
qed simp

text \<open>
  C15: However many callers hash and verify at once, in whatever order their steps fall, and whatever
  parameters the stored hashes ask for, at most four of them hold a slot and what they allocate
  together stays within 4 x 64 MiB. The gauges say what is so: the active count never passes four or
  drops below zero, and the waiting count is the number of callers between arriving and running.
\<close>

theorem hashing_memory_bounded:
  assumes "argon2_reachable (g, cs)"
  shows "length (filter holds_slot cs) \<le> 4 \<and> sum_list (map caller_memory cs) \<le> 4 * (64 * 1024) \<and>
    0 \<le> ag_active g \<and> ag_active g \<le> 4 \<and> ag_waiting g = int (length (filter is_waiting cs))"
proof -
  have inv: "ag_sem g = length (filter holds_slot cs)" "ag_active g = int (length (filter is_active cs))"
    "ag_waiting g = int (length (filter is_waiting cs))" "ag_sem g \<le> 4"
    using gauges_reachable [OF assms] by (simp_all add: gauges_agree_def argon2MaxConcurrent_def)
  have "length (filter is_active cs) \<le> length (filter holds_slot cs)"
  proof (induction cs)
    case (Cons c cs)
    then show ?case by (cases c) auto
  qed simp
  moreover have "length (filter holds_slot cs) * argon2MaxVerifyMemory \<le> 4 * (64 * 1024)"
    using inv(1,4) by (simp add: argon2MaxVerifyMemory_def)
  ultimately show ?thesis using inv memory_by_slots [of cs] by simp
qed

theorem hashing_memory_bounded_witness:
  "\<exists>g cs. argon2_reachable (g, cs) \<and> sum_list (map caller_memory cs) = 46 * 1024 \<and> sum_list (map caller_memory cs) \<le> 4 * (64 * 1024)"
proof -
  let ?g = "\<lambda>s w a. \<lparr> ag_sem = s, ag_waiting = w, ag_active = a, ag_rejected = 0 \<rparr>"
  have "argon2_step argon2_idle (?g 0 0 0, [Arriving HashJob])"
    using caller_arrives [of "?g 0 0 0" "[]" HashJob] by (simp add: argon2_idle_def)
  moreover have mv: "argon2_step (g, [c]) (g', [c'])" if "caller_step False g c = Some (g', c')" for g c g' c'
    using caller_moves [of 0 "[c]" False g g' c'] that by simp
  have "argon2_step (?g 0 0 0, [Arriving HashJob]) (?g 0 0 0, [Admitted HashJob])"
    "argon2_step (?g 0 0 0, [Admitted HashJob]) (?g 0 1 0, [Queued HashJob])"
    "argon2_step (?g 0 1 0, [Queued HashJob]) (?g 1 1 0, [Granted HashJob])"
    "argon2_step (?g 1 1 0, [Granted HashJob]) (?g 1 1 1, [Counted HashJob])"
    "argon2_step (?g 1 1 1, [Counted HashJob]) (?g 1 0 1, [Running HashJob])"
    by (rule mv; simp add: caller_step_defs argon2MaxQueueDepth_def argon2MaxConcurrent_def)+
  ultimately have r: "argon2_reachable (?g 1 0 1, [Running HashJob])"
    by (meson rtranclp.rtrancl_into_rtrancl rtranclp.rtrancl_refl)
  have "sum_list (map caller_memory [Running HashJob]) = 46 * 1024" by (simp add: argon2Memory_def)
  with hashing_memory_bounded [OF r] r show ?thesis by blast
qed

fun steps_left :: "argon2_caller \<Rightarrow> nat" where
  "steps_left (Arriving _) = 8" | "steps_left (Admitted _) = 7" | "steps_left (Queued _) = 6"
| "steps_left (Granted _) = 5" | "steps_left (Counted _) = 4" | "steps_left (Running _) = 3"
| "steps_left Computed = 2" | "steps_left Releasing = 1" | "steps_left Expiring = 1"
| "steps_left Finished = 0" | "steps_left Refused = 0"

lemma caller_step_progress: "caller_step expired g c = Some (g', c') \<Longrightarrow> steps_left c' < steps_left c"
  by (cases c) (auto simp: caller_step_defs split: if_splits)

lemma holder_can_move: "holds_slot c \<Longrightarrow> caller_step False g c \<noteq> None"
  by (cases c) (auto simp: caller_step_defs)

lemma unsettled_moves_with_slot: "\<not> settled c \<Longrightarrow> ag_sem g < argon2MaxConcurrent \<Longrightarrow> caller_step False g c \<noteq> None"
  by (cases c) (auto simp: caller_step_defs)

lemma settled_holds_nothing: "settled c \<Longrightarrow> \<not> holds_slot c \<and> \<not> is_active c \<and> \<not> is_waiting c"
  by (cases c) auto

text \<open>
  C26: The semaphore neither deadlocks nor leaks. In every reachable state either some caller can take
  its next step without anyone timing out, and each step a caller takes brings it strictly nearer its
  end; or every caller has finished or been refused, and then no slot is held and both gauges are zero.
\<close>

theorem hashing_never_deadlocks:
  assumes "argon2_reachable (g, cs)"
  shows "(\<exists>i < length cs. \<exists>g' c'. caller_step False g (cs ! i) = Some (g', c') \<and> steps_left c' < steps_left (cs ! i)) \<or>
    (list_all settled cs \<and> ag_sem g = 0 \<and> ag_active g = 0 \<and> ag_waiting g = 0)"
proof (cases "list_all settled cs")
  case True
  then have "filter holds_slot cs = [] \<and> filter is_active cs = [] \<and> filter is_waiting cs = []"
    using settled_holds_nothing by (auto simp: filter_empty_conv list_all_iff)
  with True gauges_reachable [OF assms] show ?thesis by (simp add: gauges_agree_def)
next
  case False
  have "\<exists>c \<in> set cs. caller_step False g c \<noteq> None"
  proof (cases "ag_sem g < argon2MaxConcurrent")
    case True
    with False unsettled_moves_with_slot [of _ g] show ?thesis unfolding list_all_iff by blast
  next
    case full: False
    then have "filter holds_slot cs \<noteq> []"
      using gauges_reachable [OF assms] by (auto simp: gauges_agree_def argon2MaxConcurrent_def)
    with holder_can_move [of _ g] show ?thesis unfolding filter_empty_conv by blast
  qed
  then obtain i g' c' where "i < length cs" "caller_step False g (cs ! i) = Some (g', c')"
    by (auto simp: in_set_conv_nth)
  with caller_step_progress show ?thesis by blast
qed

theorem hashing_never_deadlocks_witness:
  "argon2_reachable (fst argon2_idle, [Arriving HashJob]) \<and>
   (\<exists>i < length [Arriving HashJob]. \<exists>g' c'. caller_step False (fst argon2_idle) ([Arriving HashJob] ! i) = Some (g', c'))"
proof -
  have r: "argon2_reachable (fst argon2_idle, [Arriving HashJob])"
    using caller_arrives [of "fst argon2_idle" "[]" HashJob] by (simp add: argon2_idle_def r_into_rtranclp)
  with hashing_never_deadlocks [OF r] show ?thesis by auto
qed

section \<open>The rotating dummy hash\<close>

definition dummyHashPassword :: string where "dummyHashPassword = ''vault-anti-enumeration-dummy''"

definition dummy_fallback :: string where
  "dummy_fallback = ''$argon2id$v=19$m=47104,t=1,p=1$c2FsdHNhbHRzYWx0c2FsdA$AAAAAAAAAAAAAAAAAAAAAAAAAAAAAAAAAAAAAAAAAAA''"

definition init_dummy :: "kdf \<Rightarrow> bool \<Rightarrow> string \<Rightarrow> string" where
  "init_dummy kd acquired salt = (case HashPassword kd acquired salt dummyHashPassword [] of Inl _ \<Rightarrow> dummy_fallback | Inr h \<Rightarrow> h)"

definition regenerateDummyHash :: "kdf \<Rightarrow> bool \<Rightarrow> string \<Rightarrow> string \<Rightarrow> string \<times> pw_error option" where
  "regenerateDummyHash kd acquired salt current =
     (case HashPassword kd acquired salt dummyHashPassword [] of Inl e \<Rightarrow> (current, Some e) | Inr h \<Rightarrow> (h, None))"

definition rotateDummyHashLoop :: "kdf \<Rightarrow> string \<Rightarrow> (bool \<times> string) list \<Rightarrow> string" where
  "rotateDummyHashLoop kd current ticks = foldl (\<lambda>c (acquired, salt). fst (regenerateDummyHash kd acquired salt c)) current ticks"

definition burns_like_a_login :: "string \<Rightarrow> bool" where
  "burns_like_a_login h \<longleftrightarrow>
     (\<exists>salt hash. parseArgon2Hash h =
        Inr (salt, hash, \<lparr> ap_memory = argon2Memory, ap_iterations = argon2Iterations, ap_parallelism = argon2Parallelism \<rparr>) \<and>
        length hash = argon2KeyLen)"

lemma hash_burns:
  assumes "HashPassword kd acquired salt pw pepper = Inr h" "length salt = argon2SaltLen"
    "\<forall>x s. length (kd_idkey kd x s argon2Iterations argon2Memory argon2Parallelism argon2KeyLen) = argon2KeyLen"
  shows "burns_like_a_login h"
  using parse_hashed [OF assms] assms(3) unfolding burns_like_a_login_def by blast

lemma dummy_hash_burns_like_a_login:
  assumes "burns_like_a_login current" "list_all (\<lambda>(_, salt). length salt = argon2SaltLen) ticks"
    "\<forall>x s. length (kd_idkey kd x s argon2Iterations argon2Memory argon2Parallelism argon2KeyLen) = argon2KeyLen"
  shows "burns_like_a_login (rotateDummyHashLoop kd current ticks)"
  using assms
proof (induction ticks arbitrary: current)
  case (Cons t ticks)
  obtain a salt where t: "t = (a, salt)" by force
  then have "burns_like_a_login (fst (regenerateDummyHash kd a salt current))"
    using Cons.prems by (auto simp: regenerateDummyHash_def split: sum.splits intro: hash_burns)
  with Cons t show ?case by (simp add: rotateDummyHashLoop_def)
qed (simp add: rotateDummyHashLoop_def)

end
