(* ===== verification/Factors.thy ===== *)
theory Factors
  imports Password Once_Keys Lockout Audit_Events
begin

text \<open>
  Second factors: TOTP codes (\<open>internal/crypto/totp.go\<close>), keyed hashes of codes
  (\<open>internal/crypto/hmac.go\<close>), authenticated encryption of the seed (\<open>internal/crypto/aes.go\<close>), the
  tables of TOTP secrets and backup codes (\<open>internal/repository/postgres\<close>), the policy service of
  \<open>internal/service/mfa.go\<close>, and the emailed code of \<open>internal/service/auth.go\<close>. HMAC-SHA1,
  HMAC-SHA256, AES-GCM and the Unicode tables of \<open>strings.ToUpper\<close> are parameters; random bytes are
  arguments, \<open>None\<close> when the reader fails.
\<close>

section \<open>Codes\<close>

definition totpPeriod :: int where "totpPeriod = 30"
definition totpDigits :: nat where "totpDigits = 6"
definition totpSkew :: int where "totpSkew = 1"

datatype crypto_error = ErrRand | ErrDecodeSecret | ErrNegativeTime | ErrKeySize | ErrShortCiphertext | ErrOpen

definition GenerateTOTPSecret :: "string option \<Rightarrow> crypto_error + string" where
  "GenerateTOTPSecret rnd = (case rnd of None \<Rightarrow> Inl ErrRand | Some b \<Rightarrow> Inr (base32_EncodeToString b))"

text \<open>\<open>fmt.Sprintf("%0*d", w, n)\<close> for a number that is not negative.\<close>

definition zero_padded :: "nat \<Rightarrow> nat \<Rightarrow> string" where
  "zero_padded w n = (let d = digits10 n in replicate (w - length d) (CHR ''0'') @ d)"

text \<open>The MAC is twenty bytes, so the four bytes read at an offset of at most fifteen are there.\<close>

definition generateHOTP :: "(string \<Rightarrow> string \<Rightarrow> string) \<Rightarrow> string \<Rightarrow> int \<Rightarrow> nat \<Rightarrow> string" where
  "generateHOTP hmac1 key counter digits =
     (let sum = hmac1 key (FillBytes 8 counter);
          offset = nat (byte (last sum) mod 16);
          code = be_value (take 4 (drop offset sum)) mod 2147483648
      in zero_padded digits (nat (code mod 10 ^ digits)))"

definition ascii_upper :: "char \<Rightarrow> char" where
  "ascii_upper c = (let b = byte c in if 97 \<le> b \<and> b \<le> 122 then char_of (b - 32) else c)"

definition ToUpper :: "(string \<Rightarrow> string) \<Rightarrow> string \<Rightarrow> string" where
  "ToUpper uni s = (if is_ascii s then map ascii_upper s else uni s)"

definition GenerateTOTPCode ::
  "(string \<Rightarrow> string \<Rightarrow> string) \<Rightarrow> (string \<Rightarrow> string) \<Rightarrow> string \<Rightarrow> time \<Rightarrow> crypto_error + string" where
  "GenerateTOTPCode hmac1 uni secret t =
     (case base32_DecodeString (ToUpper uni secret) of
        None \<Rightarrow> Inl ErrDecodeSecret
      | Some key \<Rightarrow>
          if Unix t < 0 then Inl ErrNegativeTime
          else Inr (generateHOTP hmac1 key (Unix t div totpPeriod) totpDigits))"

text \<open>Go's integer division rounds towards zero.\<close>

definition go_div :: "int \<Rightarrow> int \<Rightarrow> int" where
  "go_div a b = (if 0 \<le> a then a div b else - ((- a) div b))"

fun totp_scan :: "(string \<Rightarrow> string \<Rightarrow> string) \<Rightarrow> string \<Rightarrow> string \<Rightarrow> int \<Rightarrow> int list \<Rightarrow> int" where
  "totp_scan hmac1 key code counter [] = -1"
| "totp_scan hmac1 key code counter (offset # offsets) =
     (let step = counter + offset in
      if step < 0 then totp_scan hmac1 key code counter offsets
      else if SecureCompare (generateHOTP hmac1 key step totpDigits) code then step
      else totp_scan hmac1 key code counter offsets)"

definition ValidateTOTPCode ::
  "(string \<Rightarrow> string \<Rightarrow> string) \<Rightarrow> (string \<Rightarrow> string) \<Rightarrow> string \<Rightarrow> string \<Rightarrow> time \<Rightarrow> crypto_error + int" where
  "ValidateTOTPCode hmac1 uni secret code t =
     (case base32_DecodeString (ToUpper uni secret) of
        None \<Rightarrow> Inl ErrDecodeSecret
      | Some key \<Rightarrow> Inr (totp_scan hmac1 key code (go_div (Unix t) totpPeriod) [- totpSkew .. totpSkew]))"

definition isValidTOTPCode :: "string \<Rightarrow> bool" where
  "isValidTOTPCode code \<longleftrightarrow> length code = 6 \<and> list_all is_digit code"

definition HMACSign :: "(string \<Rightarrow> string \<Rightarrow> string) \<Rightarrow> string \<Rightarrow> string \<Rightarrow> string" where
  "HMACSign hmac256 message key = hex_EncodeToString (hmac256 key message)"

definition HMACVerify :: "(string \<Rightarrow> string \<Rightarrow> string) \<Rightarrow> string \<Rightarrow> string \<Rightarrow> string \<Rightarrow> bool" where
  "HMACVerify hmac256 message key signature = SecureCompare (HMACSign hmac256 message key) signature"

section \<open>Encryption of the seed\<close>

text \<open>AES-256-GCM: \<open>seal key nonce plaintext aad\<close>, and \<open>unseal\<close>, which answers \<open>None\<close> when the tag is wrong.\<close>

record gcm =
  gcm_seal :: "string \<Rightarrow> string \<Rightarrow> string \<Rightarrow> string \<Rightarrow> string"
  gcm_open :: "string \<Rightarrow> string \<Rightarrow> string \<Rightarrow> string \<Rightarrow> string option"

definition NonceSize :: nat where "NonceSize = 12"

definition Encrypt :: "gcm \<Rightarrow> string option \<Rightarrow> string \<Rightarrow> string \<Rightarrow> string \<Rightarrow> crypto_error + string" where
  "Encrypt g rnd plaintext key aad =
     (if length key \<noteq> 32 then Inl ErrKeySize
      else case rnd of None \<Rightarrow> Inl ErrRand | Some nonce \<Rightarrow> Inr (nonce @ gcm_seal g key nonce plaintext aad))"

definition Decrypt :: "gcm \<Rightarrow> string \<Rightarrow> string \<Rightarrow> string \<Rightarrow> crypto_error + string" where
  "Decrypt g ciphertext key aad =
     (if length key \<noteq> 32 then Inl ErrKeySize
      else if length ciphertext \<le> NonceSize then Inl ErrShortCiphertext
      else case gcm_open g key (take NonceSize ciphertext) (drop NonceSize ciphertext) aad of
             None \<Rightarrow> Inl ErrOpen
           | Some plaintext \<Rightarrow> Inr plaintext)"

section \<open>Tables\<close>

record TOTPSecret =
  tp_id :: string
  tp_user :: string
  tp_secretEnc :: string
  tp_verified :: bool
  tp_createdAt :: time

record BackupCode =
  bc_id :: string
  bc_user :: string
  bc_hash :: string
  bc_used :: bool
  bc_usedAt :: "time option"
  bc_createdAt :: time

record WebAuthnCredential =
  wc_id :: string
  wc_user :: string

record factor_tables =
  ft_totp :: "TOTPSecret list"
  ft_webauthn :: "WebAuthnCredential list"
  ft_backup :: "BackupCode list"

text \<open>\<open>auth.totp_secrets\<close>: the id is the primary key and \<open>user_id\<close> is unique.\<close>

definition tp_Create :: "bool \<Rightarrow> TOTPSecret list \<Rightarrow> TOTPSecret \<Rightarrow> TOTPSecret list \<times> (repo_error + unit)" where
  "tp_Create up rows s =
     (if \<not> up \<or> (\<exists>r \<in> set rows. tp_id r = tp_id s \<or> tp_user r = tp_user s) then (rows, Inl ErrDB)
      else (rows @ [s], Inr ()))"

definition tp_GetByUserID :: "bool \<Rightarrow> TOTPSecret list \<Rightarrow> string \<Rightarrow> repo_error + TOTPSecret option" where
  "tp_GetByUserID up rows u = (if \<not> up then Inl ErrDB else Inr (find (\<lambda>r. tp_user r = u) rows))"

definition tp_MarkVerified :: "bool \<Rightarrow> TOTPSecret list \<Rightarrow> string \<Rightarrow> TOTPSecret list \<times> (repo_error + unit)" where
  "tp_MarkVerified up rows i =
     (if \<not> up then (rows, Inl ErrDB)
      else (map (\<lambda>r. if tp_id r = i then r\<lparr> tp_verified := True \<rparr> else r) rows, Inr ()))"

definition tp_DeleteByUserID :: "bool \<Rightarrow> TOTPSecret list \<Rightarrow> string \<Rightarrow> TOTPSecret list \<times> (repo_error + unit)" where
  "tp_DeleteByUserID up rows u = (if \<not> up then (rows, Inl ErrDB) else (filter (\<lambda>r. tp_user r \<noteq> u) rows, Inr ()))"

text \<open>\<open>CreateBatch\<close> is one transaction: a repeated id rolls all of it back.\<close>

definition bc_CreateBatch :: "bool \<Rightarrow> BackupCode list \<Rightarrow> BackupCode list \<Rightarrow> BackupCode list \<times> (repo_error + unit)" where
  "bc_CreateBatch up rows codes =
     (if \<not> up \<or> \<not> distinct (map bc_id codes) \<or> (\<exists>c \<in> set codes. bc_id c \<in> bc_id ` set rows) then (rows, Inl ErrDB)
      else (rows @ map (\<lambda>c. c\<lparr> bc_used := False, bc_usedAt := None \<rparr>) codes, Inr ()))"

definition bc_ListUnusedByUser :: "bool \<Rightarrow> BackupCode list \<Rightarrow> string \<Rightarrow> repo_error + BackupCode list" where
  "bc_ListUnusedByUser up rows u =
     (if \<not> up then Inl ErrDB else Inr (sort_key bc_createdAt (filter (\<lambda>r. bc_user r = u \<and> \<not> bc_used r) rows)))"

definition bc_spend :: "time \<Rightarrow> BackupCode \<Rightarrow> BackupCode" where
  "bc_spend now r = r\<lparr> bc_used := True, bc_usedAt := Some now \<rparr>"

definition bc_MarkUsed :: "bool \<Rightarrow> BackupCode list \<Rightarrow> time \<Rightarrow> string \<Rightarrow> BackupCode list \<times> (repo_error + bool)" where
  "bc_MarkUsed up rows now i =
     (if \<not> up then (rows, Inl ErrDB)
      else (map (\<lambda>r. if bc_id r = i \<and> \<not> bc_used r then bc_spend now r else r) rows,
            Inr (length (filter (\<lambda>r. bc_id r = i \<and> \<not> bc_used r) rows) = 1)))"

definition bc_DeleteAllForUser :: "bool \<Rightarrow> BackupCode list \<Rightarrow> time \<Rightarrow> string \<Rightarrow> BackupCode list \<times> (repo_error + unit)" where
  "bc_DeleteAllForUser up rows now u =
     (if \<not> up then (rows, Inl ErrDB)
      else (map (\<lambda>r. if bc_user r = u \<and> \<not> bc_used r then bc_spend now r else r) rows, Inr ()))"

definition bc_PurgeAllForUser :: "bool \<Rightarrow> BackupCode list \<Rightarrow> string \<Rightarrow> BackupCode list \<times> (repo_error + unit)" where
  "bc_PurgeAllForUser up rows u = (if \<not> up then (rows, Inl ErrDB) else (filter (\<lambda>r. bc_user r \<noteq> u) rows, Inr ()))"

definition wa_ListByUser :: "bool \<Rightarrow> WebAuthnCredential list \<Rightarrow> string \<Rightarrow> repo_error + WebAuthnCredential list" where
  "wa_ListByUser up rows u = (if \<not> up then Inl ErrDB else Inr (filter (\<lambda>r. wc_user r = u) rows))"

section \<open>Policy\<close>

record MFAStatus =
  ms_totpEnabled :: bool
  ms_webAuthnEnabled :: bool
  ms_backupCodes :: nat
  ms_methods :: "string list"
  ms_required :: bool

record factor_reads =
  fr_totp :: bool
  fr_webauthn :: bool
  fr_backup :: bool

text \<open>\<open>required\<close> is the service's \<open>mfaRequired\<close>. A failed read leaves Go's zero value beside the error.\<close>

definition mfa_GetStatus :: "bool \<Rightarrow> factor_reads \<Rightarrow> factor_tables \<Rightarrow> string \<Rightarrow> repo_error + MFAStatus" where
  "mfa_GetStatus required up ft u =
     (case (tp_GetByUserID (fr_totp up) (ft_totp ft) u, wa_ListByUser (fr_webauthn up) (ft_webauthn ft) u,
            bc_ListUnusedByUser (fr_backup up) (ft_backup ft) u) of
        (Inr totp, Inr creds, Inr codes) \<Rightarrow>
          let t = (case totp of None \<Rightarrow> False | Some r \<Rightarrow> tp_verified r);
              c = (0 < length creds);
              b = (0 < length codes)
          in Inr \<lparr> ms_totpEnabled = t, ms_webAuthnEnabled = c, ms_backupCodes = length codes,
                   ms_methods = (if t then [''totp''] else []) @ (if c then [''webauthn''] else []) @ (if b then [''backup_code''] else []),
                   ms_required = required \<rparr>
      | _ \<Rightarrow> Inl ErrDB)"

definition RequiresMFA :: "bool \<Rightarrow> factor_reads \<Rightarrow> factor_tables \<Rightarrow> string \<Rightarrow> bool \<Rightarrow> repo_error + bool" where
  "RequiresMFA required up ft u trustedDevice =
     (case mfa_GetStatus required up ft u of
        Inl e \<Rightarrow> Inl e
      | Inr status \<Rightarrow> Inr (if length (ms_methods status) = 0 then required else \<not> trustedDevice))"

section \<open>The emailed code\<close>

text \<open>\<open>mfa\<close> is the policy service, \<open>None\<close> when it is not wired, with its \<open>mfaRequired\<close>.\<close>

definition emailOTPAllowed :: "bool option \<Rightarrow> factor_reads \<Rightarrow> factor_tables \<Rightarrow> string \<Rightarrow> bool" where
  "emailOTPAllowed mfa up ft u =
     (case mfa of
        None \<Rightarrow> False
      | Some required \<Rightarrow>
          (case mfa_GetStatus required up ft u of
             Inl _ \<Rightarrow> False
           | Inr status \<Rightarrow> \<not> 0 < length (ms_methods status) \<and> required))"

datatype otp_error = OtpNotAllowed | OtpNotWired | OtpRandom | OtpCache cache_error | OtpSend

text \<open>\<open>sends\<close> is \<open>None\<close> without an email sender, and otherwise whether the send succeeds; the third
  component is the mail that left.\<close>

definition doSendEmailOTP ::
  "(string \<Rightarrow> string \<Rightarrow> string) \<Rightarrow> string \<Rightarrow> bool option \<Rightarrow> 'c Cache option \<Rightarrow> bool option \<Rightarrow> string option \<Rightarrow> factor_reads \<Rightarrow>
     factor_tables \<Rightarrow> time \<Rightarrow> 'c \<Rightarrow> string \<Rightarrow> string \<Rightarrow> 'c \<times> (otp_error + unit) \<times> (string \<times> string) list" where
  "doSendEmailOTP hmac256 hmacSecret mfa cache sends rnd up ft now c userID emailAddr =
     (if \<not> emailOTPAllowed mfa up ft userID then (c, Inl OtpNotAllowed, [])
      else case (cache, sends) of
             (Some C, Some sent) \<Rightarrow>
               (case rnd of
                  None \<Rightarrow> (c, Inl OtpRandom, [])
                | Some b \<Rightarrow>
                    let code = zero_padded 6 (nat (be_value b mod 1000000));
                        sig = HMACSign hmac256 code hmacSecret
                    in case Set C c now (''email_otp:'' @ userID) sig (5 * Minute) of
                         (c1, Inl e) \<Rightarrow> (c1, Inl (OtpCache e), [])
                       | (c1, Inr _) \<Rightarrow> if sent then (c1, Inr (), [(emailAddr, code)]) else (c1, Inl OtpSend, []))
           | _ \<Rightarrow> (c, Inl OtpNotWired, []))"

definition VerifyEmailOTP ::
  "(string \<Rightarrow> string \<Rightarrow> string) \<Rightarrow> string \<Rightarrow> bool option \<Rightarrow> 'c Cache option \<Rightarrow> factor_reads \<Rightarrow> factor_tables \<Rightarrow> time \<Rightarrow> 'c \<Rightarrow>
     string \<Rightarrow> string \<Rightarrow> 'c \<times> bool" where
  "VerifyEmailOTP hmac256 hmacSecret mfa cache up ft now c userID code =
     (if \<not> emailOTPAllowed mfa up ft userID then (c, False)
      else case cache of
             None \<Rightarrow> (c, False)
           | Some C \<Rightarrow>
               (case GetAndDelete C c now (''email_otp:'' @ userID) of
                  (c1, Inl e) \<Rightarrow> (c1, False)
                | (c1, Inr sig) \<Rightarrow> (c1, sig \<noteq> [] \<and> HMACVerify hmac256 code hmacSecret sig)))"


section \<open>Which codes are accepted\<close>

lemma totp_scan_found:
  "totp_scan hmac1 key code counter os = st \<Longrightarrow> 0 \<le> st \<Longrightarrow>
     \<exists>x \<in> set os. st = counter + x \<and> code = generateHOTP hmac1 key st totpDigits"
  by (induction os) (auto simp: Let_def split: if_splits)

lemma totp_scan_finds:
  "x \<in> set os \<Longrightarrow> 0 \<le> counter + x \<Longrightarrow> 0 \<le> totp_scan hmac1 key (generateHOTP hmac1 key (counter + x) totpDigits) counter os"
  by (induction os) (auto simp: Let_def)

lemma skew_offsets: "set [- totpSkew .. totpSkew] = {-1, 0, 1}"
  by (auto simp: totpSkew_def)

lemma totp_scan_window:
  "0 \<le> totp_scan hmac1 key code counter [- totpSkew .. totpSkew] \<longleftrightarrow>
     (\<exists>s \<ge> 0. \<bar>s - counter\<bar> \<le> 1 \<and> code = generateHOTP hmac1 key s totpDigits)" (is "?l \<longleftrightarrow> ?r")
proof
  assume ?l
  from totp_scan_found [OF refl this] this show ?r unfolding skew_offsets by fastforce
next
  assume ?r
  then obtain s where s: "0 \<le> s" "\<bar>s - counter\<bar> \<le> 1" "code = generateHOTP hmac1 key s totpDigits" by blast
  from s(2) have "s - counter \<in> {-1, 0, 1}" by auto
  then have "s - counter \<in> set [- totpSkew .. totpSkew]" unfolding skew_offsets .
  from totp_scan_finds [OF this, of counter] s show ?l by simp
qed

definition base32_text :: "string \<Rightarrow> bool" where
  "base32_text s \<longleftrightarrow> list_all (\<lambda>c. b32_index c \<noteq> None) s"

lemma upper_index: "b32_index c \<noteq> None \<Longrightarrow> ascii_upper c = c \<and> of_char c < (128::nat)"
proof -
  assume "b32_index c \<noteq> None"
  then have r: "byte c \<le> 90" by (auto simp: b32_index_def Let_def split: if_splits)
  moreover have "byte c = int (of_char c)" by (simp add: of_nat_of_char)
  ultimately show ?thesis by (simp add: ascii_upper_def Let_def)
qed

lemma ToUpper_base32: "base32_text s \<Longrightarrow> ToUpper uni s = s"
  using upper_index by (auto simp: base32_text_def ToUpper_def is_ascii_def list_all_iff intro: map_idI)

lemma digits10_length: "n < 10 ^ k \<Longrightarrow> 0 < k \<Longrightarrow> length (digits10 n) \<le> k"
proof (induction k arbitrary: n)
  case (Suc k)
  show ?case
  proof (cases "n < 10")
    case True
    then show ?thesis using digits10.simps [of n] by simp
  next
    case False
    moreover from this Suc.prems have "n div 10 < 10 ^ k" "0 < k" by (auto intro: ccontr)
    ultimately show ?thesis using Suc.IH [of "n div 10"] digits10.simps [of n] by simp
  qed
qed simp

lemma zero_padded_length: "n < 10 ^ k \<Longrightarrow> 0 < k \<Longrightarrow> length (zero_padded k n) = k"
  using digits10_length [of n k] by (simp add: zero_padded_def Let_def)

lemma zero_padded_digits: "c \<in> set (zero_padded k n) \<Longrightarrow> is_digit c"
  using digits10_digits by (auto simp: zero_padded_def Let_def is_digit_def)

lemma HOTP_valid: "isValidTOTPCode (generateHOTP hmac1 key n totpDigits)"
proof -
  have v: "isValidTOTPCode (zero_padded totpDigits m)" if "m < 10 ^ totpDigits" for m
    using zero_padded_length [OF that] zero_padded_digits
    by (auto simp add: isValidTOTPCode_def list_all_iff totpDigits_def)
  have "nat (x mod 10 ^ totpDigits) < 10 ^ totpDigits" for x :: int
    by (simp add: nat_less_iff)
  from v [OF this] show ?thesis unfolding generateHOTP_def Let_def .
qed

lemma base32_text_encoded: "base32_text (base32_EncodeToString d)"
proof -
  have "b32_index (b32_char i) \<noteq> None" if "i \<in> set (quintets (map byte d))" for i
    using that quintets_range [of "map byte d"] by (simp add: list_all_iff b32_index_char)
  then show ?thesis by (auto simp: base32_text_def base32_EncodeToString_def list_all_iff)
qed


definition sample_hmac :: "string \<Rightarrow> string \<Rightarrow> string" where
  "sample_hmac key m = take 20 (m @ key @ replicate 20 (CHR ''x''))"

definition at_second :: "int \<Rightarrow> time" where
  "at_second s = (s + unix_epoch_seconds) * Second"

lemma Unix_at_second [simp]: "Unix (at_second s) = s"
  by (simp add: Unix_def at_second_def)


section \<open>Encryption round trip\<close>

lemma Decrypt_Encrypt:
  assumes "Encrypt g (Some nonce) plaintext key aad = Inr ct" "length nonce = NonceSize"
    "\<forall>k n p a. gcm_open g k n (gcm_seal g k n p a) a = Some p" "\<forall>k n p a. gcm_seal g k n p a \<noteq> []"
  shows "Decrypt g ct key aad = Inr plaintext"
  using assms by (auto simp: Encrypt_def Decrypt_def split: if_splits)

section \<open>The emailed code is a last resort and gets one guess\<close>

definition enrolled :: "factor_tables \<Rightarrow> string \<Rightarrow> bool" where
  "enrolled ft u \<longleftrightarrow>
     (\<exists>r \<in> set (ft_totp ft). tp_user r = u \<and> tp_verified r) \<or> (\<exists>r \<in> set (ft_webauthn ft). wc_user r = u) \<or>
     (\<exists>r \<in> set (ft_backup ft). bc_user r = u \<and> \<not> bc_used r)"

definition one_secret_per_user :: "factor_tables \<Rightarrow> bool" where
  "one_secret_per_user ft \<longleftrightarrow> distinct (map tp_user (ft_totp ft))"

lemma find_by_user: "distinct (map f xs) \<Longrightarrow> r \<in> set xs \<Longrightarrow> find (\<lambda>x. f x = f r) xs = Some r"
  by (induction xs) auto

lemma GetStatus_enrolled:
  assumes "mfa_GetStatus required up ft u = Inr st" "one_secret_per_user ft"
  shows "ms_methods st \<noteq> [] \<longleftrightarrow> enrolled ft u"
proof -
  have t: "(case find (\<lambda>r. tp_user r = u) (ft_totp ft) of None \<Rightarrow> False | Some r \<Rightarrow> tp_verified r) \<longleftrightarrow>
      (\<exists>r \<in> set (ft_totp ft). tp_user r = u \<and> tp_verified r)"
  proof
    assume "\<exists>r \<in> set (ft_totp ft). tp_user r = u \<and> tp_verified r"
    then show "case find (\<lambda>r. tp_user r = u) (ft_totp ft) of None \<Rightarrow> False | Some r \<Rightarrow> tp_verified r"
      using find_by_user assms(2) by (fastforce simp: one_secret_per_user_def)
  qed (auto simp: find_Some_iff split: option.splits)
  from assms(1) have up: "fr_totp up" "fr_webauthn up" "fr_backup up"
    by (auto simp: mfa_GetStatus_def tp_GetByUserID_def wa_ListByUser_def bc_ListUnusedByUser_def split: if_splits sum.splits)
  with assms(1) have "ms_methods st \<noteq> [] \<longleftrightarrow>
      (case find (\<lambda>r. tp_user r = u) (ft_totp ft) of None \<Rightarrow> False | Some r \<Rightarrow> tp_verified r) \<or>
      filter (\<lambda>r. wc_user r = u) (ft_webauthn ft) \<noteq> [] \<or>
      filter (\<lambda>r. bc_user r = u \<and> \<not> bc_used r) (ft_backup ft) \<noteq> []"
    by (auto simp: mfa_GetStatus_def tp_GetByUserID_def wa_ListByUser_def bc_ListUnusedByUser_def Let_def)
  then show ?thesis unfolding t enrolled_def by (auto simp: filter_empty_conv)
qed

lemma emailOTPAllowed_enrolled:
  assumes "emailOTPAllowed mfa up ft u" "one_secret_per_user ft"
  shows "mfa = Some True \<and> \<not> enrolled ft u"
  using assms GetStatus_enrolled [of _ up ft u] by (auto simp: emailOTPAllowed_def split: option.splits sum.splits)

lemma take_leaves_nothing:
  assumes "mem_inv c" "mem_GetAndDelete c t k = (c1, r)" "t \<le> t'"
  shows "mem_inv c1 \<and> \<not> (\<exists>c2 v. mem_GetAndDelete c1 t' k = (c2, Inr v))"
proof (cases r)
  case (Inr v)
  with mc.take_ok [of c t k c1 v] assms have c1: "mem_inv c1" "mem_view c1 k = None" by auto
  with mc.take_ok [of c1 t' k] show ?thesis by fastforce
next
  case (Inl e)
  with mc.take_err [of c t k c1 e] assms have c1: "mem_inv c1" by auto
  show ?thesis
    using assms(2,3) Inl c1
    by (auto simp: mem_GetAndDelete_def mem_holds_def mem_expired_def gomap_simps split: option.splits if_splits)
qed


definition no_factors :: factor_tables where
  "no_factors = \<lparr> ft_totp = [], ft_webauthn = [], ft_backup = [] \<rparr>"

definition all_reads :: factor_reads where
  "all_reads = \<lparr> fr_totp = True, fr_webauthn = True, fr_backup = True \<rparr>"


end
