(* ===== verification/Devices.thy ===== *)
theory Devices
  imports Factors Audit_Log
begin

text \<open>
  Devices: the label made from a User-Agent (\<open>internal/useragent/parse.go\<close>), the device table
  (\<open>internal/repository/postgres/device.go\<close>), and how a login finds or creates its device
  (\<open>findOrCreateDevice\<close> of \<open>internal/service/auth.go\<close>). A nullable text column holds NULL for the empty
  string and reads back as the empty string, so a row is kept as a \<open>Device\<close>.
\<close>

section \<open>The label\<close>

definition contains :: "string \<Rightarrow> string \<Rightarrow> bool" where
  "contains s sub \<longleftrightarrow> sublist sub s"

definition parseBrowser :: "string \<Rightarrow> string" where
  "parseBrowser ua =
     (if contains ua ''Edg/'' \<or> contains ua ''Edge/'' then ''Edge''
      else if contains ua ''OPR/'' \<or> contains ua ''Opera'' then ''Opera''
      else if contains ua ''Vivaldi/'' then ''Vivaldi''
      else if contains ua ''Brave'' then ''Brave''
      else if contains ua ''SamsungBrowser/'' then ''Samsung Internet''
      else if contains ua ''YaBrowser/'' then ''Yandex''
      else if contains ua ''Firefox/'' \<or> contains ua ''FxiOS/'' then ''Firefox''
      else if contains ua ''CriOS/'' then ''Chrome''
      else if contains ua ''Chrome/'' \<and> \<not> contains ua ''Chromium/'' then ''Chrome''
      else if contains ua ''Chromium/'' then ''Chromium''
      else if contains ua ''Safari/'' \<and> contains ua ''Version/'' then ''Safari''
      else if contains ua ''MSIE'' \<or> contains ua ''Trident/'' then ''Internet Explorer''
      else if contains ua ''curl/'' then ''curl''
      else if contains ua ''Wget/'' then ''Wget''
      else if contains ua ''PostmanRuntime/'' then ''Postman''
      else if contains ua ''insomnia/'' then ''Insomnia''
      else [])"

definition parseOS :: "string \<Rightarrow> string" where
  "parseOS ua =
     (if contains ua ''iPhone'' then ''iPhone''
      else if contains ua ''iPad'' then ''iPad''
      else if contains ua ''Android'' then ''Android''
      else if contains ua ''CrOS'' then ''ChromeOS''
      else if contains ua ''Windows'' then ''Windows''
      else if contains ua ''Macintosh'' \<or> contains ua ''Mac OS'' then ''macOS''
      else if contains ua ''Linux'' then ''Linux''
      else if contains ua ''FreeBSD'' then ''FreeBSD''
      else if contains ua ''OpenBSD'' then ''OpenBSD''
      else [])"

definition FriendlyName :: "string \<Rightarrow> string" where
  "FriendlyName ua =
     (if ua = [] then ''Unknown Device''
      else let browser = parseBrowser ua; os = parseOS ua in
        if browser = [] \<and> os = [] then ''Unknown Device''
        else if browser = [] then os
        else if os = [] then browser
        else browser @ '' on '' @ os)"

section \<open>The table\<close>

record Device =
  dv_id :: string
  dv_user :: string
  dv_fingerprint :: string
  dv_friendlyName :: string
  dv_trusted :: bool
  dv_trustedUntil :: "time option"
  dv_ip :: string
  dv_userAgent :: string
  dv_lastSeenAt :: "time option"
  dv_firstSeenAt :: time
  dv_createdAt :: time

datatype device_error = DeviceDB | DeviceUnique

text \<open>The id is the primary key, \<open>(user_id, fingerprint_hash)\<close> is unique, and \<open>user_id\<close> references
  \<open>auth.users\<close>, whose ids are \<open>known\<close>. A new row is not trusted until anything.\<close>

definition dv_Create :: "bool \<Rightarrow> (string \<Rightarrow> bool) \<Rightarrow> Device list \<Rightarrow> Device \<Rightarrow> Device list \<times> (device_error + unit)" where
  "dv_Create up known rows d =
     (if \<not> up then (rows, Inl DeviceDB)
      else if \<exists>r \<in> set rows. dv_id r = dv_id d \<or> (dv_user r = dv_user d \<and> dv_fingerprint r = dv_fingerprint d) then (rows, Inl DeviceUnique)
      else if \<not> known (dv_user d) then (rows, Inl DeviceDB)
      else (rows @ [d\<lparr> dv_userAgent := clampUserAgent (dv_userAgent d), dv_trustedUntil := None \<rparr>], Inr ()))"

definition dv_GetByID :: "bool \<Rightarrow> Device list \<Rightarrow> string \<Rightarrow> device_error + Device option" where
  "dv_GetByID up rows i = (if \<not> up then Inl DeviceDB else Inr (find (\<lambda>r. dv_id r = i) rows))"

definition dv_GetByFingerprint :: "bool \<Rightarrow> Device list \<Rightarrow> string \<Rightarrow> string \<Rightarrow> device_error + Device option" where
  "dv_GetByFingerprint up rows u fp = (if \<not> up then Inl DeviceDB else Inr (find (\<lambda>r. dv_user r = u \<and> dv_fingerprint r = fp) rows))"

text \<open>\<open>ORDER BY last_seen_at DESC NULLS LAST\<close>.\<close>

definition dv_ListByUser :: "bool \<Rightarrow> Device list \<Rightarrow> string \<Rightarrow> device_error + Device list" where
  "dv_ListByUser up rows u =
     (if \<not> up then Inl DeviceDB
      else let mine = filter (\<lambda>r. dv_user r = u) rows
           in Inr (sort_key (\<lambda>r. - (the (dv_lastSeenAt r))) (filter (\<lambda>r. dv_lastSeenAt r \<noteq> None) mine) @ filter (\<lambda>r. dv_lastSeenAt r = None) mine))"

definition dv_set :: "bool \<Rightarrow> Device list \<Rightarrow> string \<Rightarrow> (Device \<Rightarrow> Device) \<Rightarrow> Device list \<times> (device_error + unit)" where
  "dv_set up rows i f = (if \<not> up then (rows, Inl DeviceDB) else (map (\<lambda>r. if dv_id r = i then f r else r) rows, Inr ()))"

definition dv_UpdateLastSeen :: "bool \<Rightarrow> Device list \<Rightarrow> time \<Rightarrow> string \<Rightarrow> string \<Rightarrow> Device list \<times> (device_error + unit)" where
  "dv_UpdateLastSeen up rows now i ip = dv_set up rows i (\<lambda>r. r\<lparr> dv_lastSeenAt := Some now, dv_ip := ip \<rparr>)"

definition dv_UpdateFriendlyName :: "bool \<Rightarrow> Device list \<Rightarrow> string \<Rightarrow> string \<Rightarrow> Device list \<times> (device_error + unit)" where
  "dv_UpdateFriendlyName up rows i name = dv_set up rows i (\<lambda>r. r\<lparr> dv_friendlyName := name \<rparr>)"

definition dv_Trust :: "bool \<Rightarrow> Device list \<Rightarrow> string \<Rightarrow> time \<Rightarrow> Device list \<times> (device_error + unit)" where
  "dv_Trust up rows i until = dv_set up rows i (\<lambda>r. r\<lparr> dv_trusted := True, dv_trustedUntil := Some until \<rparr>)"

definition dv_Delete :: "bool \<Rightarrow> Device list \<Rightarrow> string \<Rightarrow> string \<Rightarrow> Device list \<times> (device_error + unit)" where
  "dv_Delete up rows i u = (if \<not> up then (rows, Inl DeviceDB) else (filter (\<lambda>r. \<not> (dv_id r = i \<and> dv_user r = u)) rows, Inr ()))"

definition dv_DeleteAllForUser :: "bool \<Rightarrow> Device list \<Rightarrow> string \<Rightarrow> Device list \<times> (device_error + unit)" where
  "dv_DeleteAllForUser up rows u = (if \<not> up then (rows, Inl DeviceDB) else (filter (\<lambda>r. dv_user r \<noteq> u) rows, Inr ()))"

section \<open>Finding a login's device\<close>

text \<open>Which statements are answered, the rows other requests insert between the two reads, the id drawn,
  and the clock. A failed lookup counts as no device.\<close>

record device_env =
  de_get :: bool
  de_create :: bool
  de_reread :: bool
  de_seen :: bool
  de_raced :: "Device list"
  de_id :: "string option"
  de_now :: time

definition findOrCreateDevice ::
  "device_env \<Rightarrow> (string \<Rightarrow> bool) \<Rightarrow> Device list \<Rightarrow> string \<Rightarrow> string \<Rightarrow> string \<Rightarrow> string \<Rightarrow> Device list \<times> string" where
  "findOrCreateDevice e known rows userID fp ip ua =
     (case (case dv_GetByFingerprint (de_get e) rows userID fp of Inl _ \<Rightarrow> None | Inr d \<Rightarrow> d) of
        Some device \<Rightarrow> (fst (dv_UpdateLastSeen (de_seen e) rows (de_now e) (dv_id device) ip), dv_id device)
      | None \<Rightarrow>
          (case de_id e of
             None \<Rightarrow> (rows, [])
           | Some deviceID \<Rightarrow>
               let rows1 = rows @ de_raced e in
               (case dv_Create (de_create e) known rows1
                       \<lparr> dv_id = deviceID, dv_user = userID, dv_fingerprint = fp, dv_friendlyName = FriendlyName ua,
                         dv_trusted = False, dv_trustedUntil = None, dv_ip = ip, dv_userAgent = ua,
                         dv_lastSeenAt = Some (de_now e), dv_firstSeenAt = de_now e, dv_createdAt = de_now e \<rparr> of
                  (rows2, Inr _) \<Rightarrow> (rows2, deviceID)
                | (rows2, Inl DeviceUnique) \<Rightarrow>
                    (case dv_GetByFingerprint (de_reread e) rows2 userID fp of
                       Inr (Some device) \<Rightarrow> (rows2, dv_id device)
                     | _ \<Rightarrow> (rows2, deviceID))
                | (rows2, Inl DeviceDB) \<Rightarrow> (rows2, deviceID))))"

text \<open>The table's own constraint, and that a login keeps it.\<close>

definition devices_ok :: "Device list \<Rightarrow> bool" where
  "devices_ok rows \<longleftrightarrow> distinct (map dv_id rows) \<and> distinct (map (\<lambda>r. (dv_user r, dv_fingerprint r)) rows)"

lemma dv_Create_ok: "devices_ok rows \<Longrightarrow> devices_ok (fst (dv_Create up known rows d))"
  by (auto simp: dv_Create_def devices_ok_def)

lemma dv_set_ok:
  assumes "devices_ok rows" "\<forall>r. dv_id (f r) = dv_id r \<and> dv_user (f r) = dv_user r \<and> dv_fingerprint (f r) = dv_fingerprint r"
  shows "devices_ok (fst (dv_set up rows i f))"
proof -
  have "map dv_id (map (\<lambda>r. if dv_id r = i then f r else r) rows) = map dv_id rows"
    "map (\<lambda>r. (dv_user r, dv_fingerprint r)) (map (\<lambda>r. if dv_id r = i then f r else r) rows) =
       map (\<lambda>r. (dv_user r, dv_fingerprint r)) rows" using assms(2) by auto
  with assms(1) show ?thesis by (simp add: dv_set_def devices_ok_def del: map_map)
qed

lemma findOrCreateDevice_ok:
  assumes "devices_ok (rows @ de_raced e)"
  shows "devices_ok (fst (findOrCreateDevice e known rows userID fp ip ua))"
proof -
  have rows: "devices_ok rows" using assms by (auto simp: devices_ok_def)
  show ?thesis
    using dv_Create_ok [OF assms] dv_set_ok [OF rows] rows
    by (auto simp: findOrCreateDevice_def dv_UpdateLastSeen_def Let_def split: option.splits sum.splits prod.splits device_error.splits)
       (metis fst_conv)+
qed

lemma find_SomeD: "find P xs = Some x \<Longrightarrow> x \<in> set xs \<and> P x"
  by (induction xs) (auto split: if_splits)

text \<open>When the table answers, the device a session is bound to is the user's own and has the login's
  fingerprint: a lost race ends at the winner's row.\<close>

lemma findOrCreateDevice_bound:
  assumes "findOrCreateDevice e known rows userID fp ip ua = (rows', i)" "devices_ok (rows @ de_raced e)"
    "de_get e" "de_create e" "de_reread e" "de_id e = Some j" "j \<notin> dv_id ` set (rows @ de_raced e)" "known userID"
  shows "\<exists>d \<in> set rows'. dv_id d = i \<and> dv_user d = userID \<and> dv_fingerprint d = fp"
proof (cases "find (\<lambda>r. dv_user r = userID \<and> dv_fingerprint r = fp) rows")
  case (Some d)
  then have "d \<in> set rows" "dv_user d = userID" "dv_fingerprint d = fp" by (auto dest: find_SomeD)
  note own = this
  moreover define f where "f r = (if dv_id r = dv_id d then r\<lparr> dv_lastSeenAt := Some (de_now e), dv_ip := ip \<rparr> else r)" for r :: Device
  ultimately have "f d \<in> set (map f rows)" "dv_id (f d) = dv_id d" "dv_user (f d) = userID" "dv_fingerprint (f d) = fp" by auto
  moreover have "i = dv_id d" "rows' = (if de_seen e then map f rows else rows)"
    using Some assms(1,3) unfolding f_def
    by (auto simp: findOrCreateDevice_def dv_GetByFingerprint_def dv_UpdateLastSeen_def dv_set_def)
  ultimately show ?thesis using own
    by (metis (no_types, lifting))
next
  case None
  show ?thesis
  proof (cases "\<exists>r \<in> set (rows @ de_raced e). dv_user r = userID \<and> dv_fingerprint r = fp")
    case True
    then obtain d where d: "find (\<lambda>r. dv_user r = userID \<and> dv_fingerprint r = fp) (rows @ de_raced e) = Some d"
      by (cases "find (\<lambda>r. dv_user r = userID \<and> dv_fingerprint r = fp) (rows @ de_raced e)") (auto simp: find_None_iff)
    then have m: "d \<in> set (rows @ de_raced e)" "dv_user d = userID" "dv_fingerprint d = fp" by (auto dest: find_SomeD)
    have lost: "dv_Create (de_create e) known (rows @ de_raced e) d' = (rows @ de_raced e, Inl DeviceUnique)"
      if "dv_user d' = userID" "dv_fingerprint d' = fp" for d'
      using that True assms(4) unfolding dv_Create_def by force
    have "(rows', i) = (rows @ de_raced e, dv_id d)"
      using assms(1,3,5,6) None d by (simp add: findOrCreateDevice_def dv_GetByFingerprint_def lost Let_def)
    with m show ?thesis by auto
  next
    case False
    have won: "dv_Create (de_create e) known (rows @ de_raced e) d' =
        ((rows @ de_raced e) @ [d'\<lparr> dv_userAgent := clampUserAgent (dv_userAgent d'), dv_trustedUntil := None \<rparr>], Inr ())"
      if "dv_id d' = j" "dv_user d' = userID" "dv_fingerprint d' = fp" for d'
    proof -
      have "\<not> (\<exists>r \<in> set (rows @ de_raced e). dv_id r = dv_id d' \<or> dv_user r = dv_user d' \<and> dv_fingerprint r = dv_fingerprint d')"
        using False assms(7) that by (metis image_eqI)
      with that assms(4,8) show ?thesis unfolding dv_Create_def by (simp only: if_False not_True_eq_False not_False_eq_True if_True)
    qed
    show ?thesis
      using assms(1,3,6) None by (auto simp: findOrCreateDevice_def dv_GetByFingerprint_def won Let_def)
  qed
qed

end
