(* ===== verification/Login.thy ===== *)
theory Login
  imports Devices
begin

text \<open>
  Signing in: \<open>Login\<close>, \<open>trapLogin\<close>, \<open>CompleteMFALogin\<close>, \<open>ChallengeFingerprintMatches\<close>,
  \<open>sendResetLink\<close> and \<open>notifyNewCountry\<close> of \<open>internal/service/auth.go\<close>. The state is one record over
  the components below it: the lockout state with the users, the cache and the trail; the refresh-token
  rows; the role catalog; the devices; the second-factor tables. Work handed to \<open>deferwork\<close> is a list of
  jobs that run after the call. The tokens a planted credential is answered with (\<open>internal/honeypot\<close>)
  are parameters.
\<close>

section \<open>State\<close>

datatype resetLinkKind = importClaimLink | forcedResetLink

datatype job =
    JobEmailOTP string string
  | JobResetLink resetLinkKind string string
  | JobNewCountry string string string
  | JobTrapAlert string string string

record 'c login_world =
  g_lock :: "'c lockout_world"
  g_rows :: "refresh_row list"
  g_catalog :: "RoleCatalog option"
  g_devices :: "Device list"
  g_factors :: factor_tables
  g_attempts :: nat
  g_success :: nat
  g_issued :: nat
  g_jobs :: "job list"

text \<open>The part of the state the session layer works on, and its replacement.\<close>

definition session_view :: "'c login_world \<Rightarrow> world" where
  "session_view g =
     \<lparr> w_db = \<lparr> rd_rows = g_rows g, rd_users = lw_users (g_lock g) \<rparr>, w_audit = lw_audit (g_lock g),
       w_refreshed = 0, w_replayed = 0, w_catalog = g_catalog g \<rparr>"

definition put_session :: "world \<Rightarrow> 'c login_world \<Rightarrow> 'c login_world" where
  "put_session w g =
     g\<lparr> g_rows := rd_rows (w_db w), g_catalog := w_catalog w,
        g_lock := (g_lock g)\<lparr> lw_users := rd_users (w_db w), lw_audit := w_audit w \<rparr> \<rparr>"

abbreviation on_lock :: "('c lockout_world \<Rightarrow> 'c lockout_world) \<Rightarrow> 'c login_world \<Rightarrow> 'c login_world" where
  "on_lock f g \<equiv> g\<lparr> g_lock := f (g_lock g) \<rparr>"

definition g_Log ::
  "audit_event \<Rightarrow> string \<Rightarrow> string \<Rightarrow> string \<Rightarrow> string \<Rightarrow> string \<Rightarrow> string \<Rightarrow> (string \<times> meta) list \<Rightarrow> 'c login_world \<Rightarrow> 'c login_world" where
  "g_Log ev user client ip ua fp device m g = put_session (Log (session_view g) ev user client ip ua fp device m) g"

text \<open>The service: its lockout wiring, its token side, the policy service with its \<open>mfaRequired\<close>, the key
  derivation with the dummy hash and the hash that currently stands for it, and the honeypot.\<close>

record trap_svc =
  tr_users :: "string list"
  tr_subject :: "string \<Rightarrow> string option"
  tr_jwt :: "string \<Rightarrow> string \<Rightarrow> string \<Rightarrow> string option"
  tr_refresh :: "string option"

record ('c, 'k) login_svc =
  ls_lock :: "'c lockout_svc"
  ls_auth :: "'k AuthService"
  ls_deps :: "'k deps"
  ls_mfa :: "bool option"
  ls_kdf :: kdf
  ls_dummy :: string
  ls_current :: string
  ls_trap :: "trap_svc option"

record LoginInput =
  li_email :: string
  li_password :: string
  li_rememberMe :: bool
  li_clientID :: string
  li_fingerprint :: FingerprintInput
  li_discloseStatus :: bool

record LoginResult =
  lr_accessToken :: string
  lr_tokenType :: string
  lr_expiresIn :: int
  lr_refreshToken :: string
  lr_cookieMaxAge :: int
  lr_requires2FA :: bool
  lr_challengeToken :: string
  lr_methods :: "string list"

text \<open>How a login ends when it is refused: an error of the service, of the cache or of the honeypot, or the
  semaphore's.\<close>

datatype login_error = AuthErr auth_error | CacheErr cache_error | TrapErr | Overloaded

text \<open>What one call meets: whether the semaphore was acquired, which statements are answered, what is
  drawn, and the clock at each read of it.\<close>

record login_env =
  le_acquired :: bool
  le_byEmail :: bool
  le_byID :: bool
  le_reads :: factor_reads
  le_count :: bool
  le_device :: device_env
  le_listed :: "string list option"
  le_draws :: draws
  le_tx :: "tx_stmt \<Rightarrow> bool"
  le_lastLogin :: bool
  le_ctx :: Ctx
  kl_ip :: time
  kl_locked :: time
  kl_auto :: clock
  kl_fail :: clock
  kl_notify :: clock
  kl_clear :: clock
  kl_count :: time
  kl_roles :: time
  kl_auth :: time
  kl_issue :: time
  kl_row :: time
  kl_db :: time
  kl_last :: time
  kl_cookie :: time
  kl_end :: time
  kl_once :: time

section \<open>Parts of a login\<close>

definition us_GetByEmail :: "bool \<Rightarrow> (string, User) gomap \<Rightarrow> string \<Rightarrow> repo_error + User option" where
  "us_GetByEmail up users email =
     (if \<not> up then Inl ErrDB else Inr (find (\<lambda>x. u_email x = email) (map snd users)))"

definition us_SetLastLogin :: "bool \<Rightarrow> (string, User) gomap \<Rightarrow> time \<Rightarrow> string \<Rightarrow> (string, User) gomap" where
  "us_SetLastLogin up users now i =
     (if \<not> up then users
      else case map_of users i of
             None \<Rightarrow> users
           | Some x \<Rightarrow> AList.update i (x\<lparr> u_lastLoginAt := Some now \<rparr>) users)"

text \<open>The verification every refused login pays for, against the dummy hash: whether it was shed.\<close>

definition burn :: "('c, 'k) login_svc \<Rightarrow> login_env \<Rightarrow> string \<Rightarrow> bool" where
  "burn s e password \<longleftrightarrow>
     VerifyPassword (ls_kdf s) (le_acquired e) (ls_dummy s) (ls_current s) password (ls_dummy s) (lk_pepper (ls_lock s)) =
       Inl Argon2Overloaded"

definition request_fp :: "('c, 'k) login_svc \<Rightarrow> LoginInput \<Rightarrow> string \<Rightarrow> string \<Rightarrow> string" where
  "request_fp s input ip ua =
     ComputeFingerprint (dp_sha (ls_deps s)) ((li_fingerprint input)\<lparr> fi_ip := ip, fi_userAgent := ua \<rparr>)"

definition no_result :: LoginResult where
  "no_result = \<lparr> lr_accessToken = [], lr_tokenType = [], lr_expiresIn = 0, lr_refreshToken = [], lr_cookieMaxAge = 0,
     lr_requires2FA = False, lr_challengeToken = [], lr_methods = [] \<rparr>"

definition challenge_result :: "string \<Rightarrow> string list \<Rightarrow> LoginResult" where
  "challenge_result tok methods = no_result\<lparr> lr_requires2FA := True, lr_challengeToken := tok, lr_methods := methods \<rparr>"

text \<open>\<open>sendImportClaimLink\<close> and \<open>sendForcedResetLink\<close>: the link is made and mailed by a deferred job.\<close>

definition sendResetLink :: "('c, 'k) login_svc \<Rightarrow> resetLinkKind \<Rightarrow> string \<Rightarrow> string \<Rightarrow> 'c login_world \<Rightarrow> 'c login_world" where
  "sendResetLink s kind userID emailAddr g =
     (if lk_cache (ls_lock s) = None \<or> \<not> lk_emailSender (ls_lock s) then g
      else g\<lparr> g_jobs := g_jobs g @ [JobResetLink kind userID emailAddr] \<rparr>)"

text \<open>The end that the single-step login and the completed second factor share: limit, device, account
  read (the second factor only), roles, tokens, the row, and the bookkeeping of a success.\<close>

definition g_checkSessionLimit ::
  "('c, 'k) login_svc \<Rightarrow> login_env \<Rightarrow> string \<Rightarrow> 'c login_world \<Rightarrow> 'c login_world \<times> (login_error + unit)" where
  "g_checkSessionLimit s e userID g =
     (case checkSessionLimit (ls_auth s) (le_count e) (kl_count e) (session_view g) userID of
        (w, Inl err) \<Rightarrow> (put_session w g, Inl (AuthErr err))
      | (w, Inr _) \<Rightarrow> (put_session w g, Inr ()))"

definition g_device :: "login_env \<Rightarrow> string \<Rightarrow> string \<Rightarrow> string \<Rightarrow> string \<Rightarrow> 'c login_world \<Rightarrow> 'c login_world \<times> string" where
  "g_device e userID fp ip ua g =
     (case findOrCreateDevice (le_device e) (\<lambda>u. map_of (lw_users (g_lock g)) u \<noteq> None) (g_devices g) userID fp ip ua of
        (rows, i) \<Rightarrow> (g\<lparr> g_devices := rows \<rparr>, i))"

definition issue_session ::
  "('c, 'k) login_svc \<Rightarrow> login_env \<Rightarrow> string \<Rightarrow> User \<Rightarrow> string \<Rightarrow> string \<Rightarrow> bool \<Rightarrow> string list \<Rightarrow> bool \<Rightarrow> string \<Rightarrow> string \<Rightarrow>
     string \<Rightarrow> (string \<times> meta) list \<Rightarrow> 'c login_world \<Rightarrow> 'c login_world \<times> (login_error + LoginResult)" where
  "issue_session s e userID user clientID fp rememberMe methods userVerified deviceID ip ua m g =
     (case effectiveRoles (dp_uni (ls_deps s)) (g_catalog g) (kl_roles e) (le_listed e) (u_roles user) of
        (cat', roles) \<Rightarrow>
          let g1 = g\<lparr> g_catalog := cat' \<rparr> in
          (case IssueTokenPairWithAuth (dp_sign (ls_deps s)) (as_tokenSvc (ls_auth s)) (le_draws e) (kl_issue e) (le_ctx e)
                  userID roles [''read'', ''write''] clientID fp [] rememberMe (NewAuthContext (kl_auth e) methods userVerified) of
             Inl err \<Rightarrow> (g1, Inl (AuthErr (ErrIssue err)))
           | Inr pair \<Rightarrow>
               (case storeRefreshToken (ls_deps s) (ls_auth s) (le_draws e) (le_tx e) (kl_row e) (kl_db e) (le_ctx e)
                       (session_view g1) userID clientID deviceID fp pair of
                  (w, Inl err) \<Rightarrow> (put_session w g1, Inl (AuthErr err))
                | (w, Inr _) \<Rightarrow>
                    let g2 = put_session w g1;
                        g3 = on_lock (\<lambda>l. l\<lparr> lw_users := us_SetLastLogin (le_lastLogin e) (lw_users l) (kl_last e) userID \<rparr>) g2;
                        g4 = (if lk_metrics (ls_lock s) then g3\<lparr> g_success := g_success g3 + 1, g_issued := g_issued g3 + 1 \<rparr> else g3);
                        g5 = g_Log LoginSuccess userID clientID ip ua fp deviceID m g4;
                        g6 = g5\<lparr> g_jobs := g_jobs g5 @ [JobNewCountry userID (u_email user) ip] \<rparr>
                    in (g6, Inr (no_result\<lparr> lr_accessToken := p_accessToken pair, lr_tokenType := ''Bearer'',
                                   lr_expiresIn := whole_seconds (ts_accessTokenTTL (as_tokenSvc (ls_auth s))),
                                   lr_refreshToken := p_refreshToken pair,
                                   lr_cookieMaxAge := whole_seconds (p_refreshExpAt pair - kl_cookie e) \<rparr>)))))"


section \<open>Login\<close>

text \<open>A login that proved its password and owes no second factor.\<close>

definition login_single_step ::
  "('c, 'k) login_svc \<Rightarrow> login_env \<Rightarrow> LoginInput \<Rightarrow> User \<Rightarrow> string \<Rightarrow> string \<Rightarrow> string \<Rightarrow> 'c login_world \<Rightarrow>
     'c login_world \<times> (login_error + LoginResult)" where
  "login_single_step s e input user email ip ua g =
     (let fp = request_fp s input ip ua;
          g1 = on_lock (\<lambda>l. clearLockout (ls_lock s) (kl_clear e) l (u_id user) ip) g;
          g2 = on_lock (\<lambda>l. clearIdentityFailures (ls_lock s) (kl_clear e 2) l email) g1
      in case g_checkSessionLimit s e (u_id user) g2 of
           (g3, Inl err) \<Rightarrow> (g3, Inl err)
         | (g3, Inr _) \<Rightarrow>
             (case g_device e (u_id user) fp ip ua g3 of
                (g4, deviceID) \<Rightarrow>
                  issue_session s e (u_id user) user (li_clientID input) fp (li_rememberMe input) [MethodPassword] False deviceID ip ua [] g4))"

text \<open>A challenge instead of tokens.\<close>

definition login_challenge ::
  "('c, 'k) login_svc \<Rightarrow> login_env \<Rightarrow> LoginInput \<Rightarrow> string \<Rightarrow> string \<Rightarrow> string \<Rightarrow> string list \<Rightarrow> (string \<times> meta) list \<Rightarrow> 'c login_world \<Rightarrow>
     'c login_world \<times> (login_error + LoginResult)" where
  "login_challenge s e input userID ip ua methods m g =
     (let fp = request_fp s input ip ua in
      case IssueChallengeToken (dp_sign (ls_deps s)) (as_tokenSvc (ls_auth s)) (le_draws e) (kl_issue e) (le_ctx e) userID fp [MethodPassword] of
        Inl err \<Rightarrow> (g, Inl (AuthErr (ErrIssue err)))
      | Inr tok \<Rightarrow> (g_Log LoginSuccess userID (li_clientID input) ip ua fp [] m g, Inr (challenge_result tok methods)))"

definition login_second_factor ::
  "('c, 'k) login_svc \<Rightarrow> login_env \<Rightarrow> LoginInput \<Rightarrow> User \<Rightarrow> string \<Rightarrow> string \<Rightarrow> string \<Rightarrow> 'c login_world \<Rightarrow>
     'c login_world \<times> (login_error + LoginResult)" where
  "login_second_factor s e input user email ip ua g =
     (case ls_mfa s of
        None \<Rightarrow> login_single_step s e input user email ip ua g
      | Some required \<Rightarrow>
          (case mfa_GetStatus required (le_reads e) (g_factors g) (u_id user) of
             Inl err \<Rightarrow> (g, Inl (AuthErr (ErrStore err)))
           | Inr status \<Rightarrow>
               if 0 < length (ms_methods status) then
                 login_challenge s e input (u_id user) ip ua (ms_methods status) [(''mfa_required'', MBool True)] g
               else if required then
                 login_challenge s e input (u_id user) ip ua [''email_otp'']
                   [(''mfa_required'', MBool True), (''fallback'', MStr ''email_otp'')]
                   (g\<lparr> g_jobs := g_jobs g @ [JobEmailOTP (u_id user) (u_email user)] \<rparr>)
               else login_single_step s e input user email ip ua g))"

text \<open>The bookkeeping of a refusal that goes through \<open>recordLoginFailure\<close>, and of one that does not.\<close>

definition login_failed ::
  "('c, 'k) login_svc \<Rightarrow> login_env \<Rightarrow> User \<Rightarrow> string \<Rightarrow> string \<Rightarrow> string \<Rightarrow> 'c login_world \<Rightarrow> 'c login_world" where
  "login_failed s e user ip ua reason g =
     on_lock (\<lambda>l. recordLoginFailure (ls_lock s) (kl_fail e) (kl_notify e) l user ip ua reason) g"

definition login_note ::
  "string \<Rightarrow> string \<Rightarrow> string \<Rightarrow> (string \<times> meta) list \<Rightarrow> 'c login_world \<Rightarrow> 'c login_world" where
  "login_note userID ip ua m g = on_lock (\<lambda>l. lw_Log l LoginFailure userID ip ua m) g"

definition login_failed_ip :: "('c, 'k) login_svc \<Rightarrow> login_env \<Rightarrow> string \<Rightarrow> 'c login_world \<Rightarrow> 'c login_world" where
  "login_failed_ip s e ip g = on_lock (\<lambda>l. recordFailedIP (ls_lock s) (kl_fail e 5) l ip) g"

text \<open>The password is verified, and what follows from it.\<close>

definition login_verify ::
  "('c, 'k) login_svc \<Rightarrow> login_env \<Rightarrow> LoginInput \<Rightarrow> User \<Rightarrow> string \<Rightarrow> string \<Rightarrow> string \<Rightarrow> 'c login_world \<Rightarrow>
     'c login_world \<times> (login_error + LoginResult)" where
  "login_verify s e input user email ip ua g =
     (case VerifyPassword (ls_kdf s) (le_acquired e) (ls_dummy s) (ls_current s) (li_password input) (u_passwordHash user)
             (lk_pepper (ls_lock s)) of
        Inl Argon2Overloaded \<Rightarrow> (g, Inl Overloaded)
      | Inl _ \<Rightarrow> (login_failed s e user ip ua ''wrong_password'' g, Inl (AuthErr ErrInvalidCredentials))
      | Inr False \<Rightarrow> (login_failed s e user ip ua ''wrong_password'' g, Inl (AuthErr ErrInvalidCredentials))
      | Inr True \<Rightarrow>
          if u_banned user then
            (login_note (u_id user) ip ua [(''reason'', MStr ''account_banned'')] g, Inl (AuthErr ErrAccountBanned))
          else if u_disabled user then
            (login_note (u_id user) ip ua [(''reason'', MStr ''account_disabled'')] g, Inl (AuthErr ErrAccountDisabled))
          else if \<not> u_emailVerified user then
            (login_failed s e user ip ua ''email_not_verified'' g, Inl (AuthErr ErrInvalidCredentials))
          else
            login_second_factor s e input user email ip ua
              (on_lock (\<lambda>l. l\<lparr> lw_users := ResetFailedLogin (lk_usersUp (ls_lock s)) (lw_users l) (u_id user) \<rparr>) g))"

text \<open>The states that are decided before the password, for an account that exists.\<close>

definition login_known ::
  "('c, 'k) login_svc \<Rightarrow> login_env \<Rightarrow> LoginInput \<Rightarrow> User \<Rightarrow> string \<Rightarrow> string \<Rightarrow> string \<Rightarrow> 'c login_world \<Rightarrow>
     'c login_world \<times> (login_error + LoginResult)" where
  "login_known s e input user email ip ua g =
     (let admin_locked = (case u_lockedUntil user of None \<Rightarrow> False | Some t \<Rightarrow> kl_locked e < t);
          shed = burn s e (li_password input)
      in if admin_locked then
           if shed then (g, Inl Overloaded)
           else (login_note (u_id user) ip ua [(''reason'', MStr ''account_locked''), (''source'', MStr ''admin'')] (login_failed_ip s e ip g),
                 Inl (AuthErr ErrInvalidCredentials))
         else if isAccountLocked (ls_lock s) (kl_auto e) (g_lock g) (u_id user) ip then
           if shed then (g, Inl Overloaded)
           else (login_note (u_id user) ip ua [(''reason'', MStr ''account_locked''), (''source'', MStr ''auto'')] (login_failed_ip s e ip g),
                 Inl (AuthErr ErrInvalidCredentials))
         else if u_deleted user then
           if shed then (g, Inl Overloaded)
           else (login_note (u_id user) ip ua [(''reason'', MStr ''account_deleted'')] g, Inl (AuthErr ErrInvalidCredentials))
         else if u_importPending user then
           if shed then (g, Inl Overloaded)
           else (login_failed s e user ip ua ''import_claim_required'' (sendResetLink s importClaimLink (u_id user) (u_email user) g),
                 Inl (AuthErr ErrInvalidCredentials))
         else if u_mustResetPassword user then
           if shed then (g, Inl Overloaded)
           else (login_failed s e user ip ua ''password_reset_required'' (sendResetLink s forcedResetLink (u_id user) (u_email user) g),
                 Inl (AuthErr (if li_discloseStatus input then ErrPasswordResetRequired else ErrInvalidCredentials)))
         else login_verify s e input user email ip ua g)"

definition login_unknown ::
  "('c, 'k) login_svc \<Rightarrow> login_env \<Rightarrow> LoginInput \<Rightarrow> string \<Rightarrow> string \<Rightarrow> 'c login_world \<Rightarrow> 'c login_world \<times> (login_error + LoginResult)" where
  "login_unknown s e input ip ua g =
     (if burn s e (li_password input) then (g, Inl Overloaded)
      else let g1 = login_failed_ip s e ip g;
               g2 = (if lk_metrics (ls_lock s) then on_lock (\<lambda>l. l\<lparr> lw_failed := lw_failed l + 1 \<rparr>) g1 else g1)
           in (login_note [] ip ua [(''reason'', MStr ''user_not_found'')] g2, Inl (AuthErr ErrInvalidCredentials)))"

section \<open>The planted credential\<close>

definition trapCookieMaxAge :: "'k TokenService \<Rightarrow> bool \<Rightarrow> int" where
  "trapCookieMaxAge ts rememberMe =
     (let ttl = (if rememberMe then ts_rememberMeTTL ts else ts_refreshTokenTTL ts);
          bound = ts_maxSessionLifetime ts
      in whole_seconds (if 0 < bound \<and> bound < ttl then bound else ttl))"

definition trapLogin ::
  "('c, 'k) login_svc \<Rightarrow> trap_svc \<Rightarrow> login_env \<Rightarrow> LoginInput \<Rightarrow> string \<Rightarrow> string \<Rightarrow> string \<Rightarrow> 'c login_world \<Rightarrow>
     'c login_world \<times> (login_error + LoginResult)" where
  "trapLogin s tr e input email ip ua g =
     (if burn s e (li_password input) then (g, Inl Overloaded)
      else let g1 = g\<lparr> g_jobs := g_jobs g @ [JobTrapAlert email ip ua] \<rparr> in
        case tr_subject tr email of
          None \<Rightarrow> (g1, Inl TrapErr)
        | Some sub \<Rightarrow>
            let g2 = on_lock (\<lambda>l. l\<lparr> lw_users := ResetFailedLogin (lk_usersUp (ls_lock s)) (lw_users l) sub \<rparr>) g1;
                g3 = on_lock (\<lambda>l. clearLockout (ls_lock s) (kl_clear e) l sub ip) g2;
                g4 = on_lock (\<lambda>l. clearIdentityFailures (ls_lock s) (kl_clear e 2) l email) g3;
                fp = request_fp s input ip ua;
                methods = (case ls_mfa s of
                             None \<Rightarrow> None
                           | Some required \<Rightarrow>
                               (case mfa_GetStatus required (le_reads e) (g_factors g4) sub of
                                  Inr st \<Rightarrow> if 0 < length (ms_methods st) then Some (ms_methods st)
                                            else if required then Some [''email_otp''] else None
                                | Inl _ \<Rightarrow> if required then Some [''email_otp''] else None))
            in (case methods of
                  Some ms \<Rightarrow> login_challenge s e input sub ip ua ms [(''mfa_required'', MBool True)] g4
                | None \<Rightarrow>
                    (case g_checkSessionLimit s e sub g4 of
                       (g5, Inl err) \<Rightarrow> (g5, Inl err)
                     | (g5, Inr _) \<Rightarrow>
                         (case (tr_jwt tr email (li_clientID input) fp, tr_refresh tr) of
                            (Some jwt, Some rt) \<Rightarrow>
                              let g6 = on_lock (\<lambda>l. l\<lparr> lw_users := us_SetLastLogin (le_lastLogin e) (lw_users l) (kl_last e) sub \<rparr>) g5;
                                  g7 = (if lk_metrics (ls_lock s) then g6\<lparr> g_success := g_success g6 + 1, g_issued := g_issued g6 + 1 \<rparr> else g6)
                              in (g_Log LoginSuccess sub (li_clientID input) ip ua fp [] [] g7,
                                  Inr (no_result\<lparr> lr_accessToken := jwt, lr_tokenType := ''Bearer'',
                                         lr_expiresIn := whole_seconds (ts_accessTokenTTL (as_tokenSvc (ls_auth s))),
                                         lr_refreshToken := rt,
                                         lr_cookieMaxAge := trapCookieMaxAge (as_tokenSvc (ls_auth s)) (li_rememberMe input) \<rparr>))
                          | _ \<Rightarrow> (g5, Inl TrapErr)))))"

section \<open>The whole call\<close>

definition login_email :: "('c, 'k) login_svc \<Rightarrow> LoginInput \<Rightarrow> string" where
  "login_email s input = fold_name (dp_uni (ls_deps s)) (li_email input)"

text \<open>\<open>IsTrapUser\<close>: the planted addresses are kept folded, and the address asked about is folded again.\<close>

definition is_trap :: "('c, 'k) login_svc \<Rightarrow> string \<Rightarrow> trap_svc option" where
  "is_trap s email =
     (case ls_trap s of
        None \<Rightarrow> None
      | Some tr \<Rightarrow> if fold_name (dp_uni (ls_deps s)) email \<in> set (tr_users tr) then Some tr else None)"

definition login_body ::
  "('c, 'k) login_svc \<Rightarrow> login_env \<Rightarrow> LoginInput \<Rightarrow> string \<Rightarrow> string \<Rightarrow> 'c login_world \<Rightarrow> 'c login_world \<times> (login_error + LoginResult)" where
  "login_body s e input ip ua g =
     (let email = login_email s input in
      if isIPLocked (ls_lock s) (kl_ip e) (g_lock g) ip then
        (login_note [] ip ua [(''reason'', MStr ''ip_locked'')] g, Inl (AuthErr ErrAccountLocked))
      else case us_GetByEmail (le_byEmail e) (lw_users (g_lock g)) email of
             Inl err \<Rightarrow> (g, Inl (AuthErr (ErrStore err)))
           | Inr user \<Rightarrow>
               (case is_trap s email of
                  Some tr \<Rightarrow> trapLogin s tr e input email ip ua g
                | None \<Rightarrow>
                    (case user of
                       None \<Rightarrow> login_unknown s e input ip ua g
                     | Some u \<Rightarrow> login_known s e input u email ip ua g)))"

text \<open>The delay of \<open>throttleLogin\<close> changes nothing but the clock. The deferred function counts every refusal
  but the semaphore's against the address.\<close>

definition Login ::
  "('c, 'k) login_svc \<Rightarrow> login_env \<Rightarrow> LoginInput \<Rightarrow> string \<Rightarrow> string \<Rightarrow> 'c login_world \<Rightarrow> 'c login_world \<times> (login_error + LoginResult)" where
  "Login s e input ip ua g =
     (case login_body s e input ip ua (if lk_metrics (ls_lock s) then g\<lparr> g_attempts := g_attempts g + 1 \<rparr> else g) of
        (g1, Inr r) \<Rightarrow> (g1, Inr r)
      | (g1, Inl Overloaded) \<Rightarrow> (g1, Inl Overloaded)
      | (g1, Inl err) \<Rightarrow>
          (on_lock (\<lambda>l. recordIdentityFailure (ls_lock s) (kl_end e) l (login_email s input)) g1, Inl err))"

section \<open>Completing a challenge\<close>

definition ChallengeFingerprintMatches ::
  "string \<Rightarrow> string \<Rightarrow> string \<Rightarrow> string \<Rightarrow> string \<Rightarrow> 'c login_world \<Rightarrow> 'c login_world \<times> bool" where
  "ChallengeFingerprintMatches userID challengeFP requestFP ip ua g =
     (if challengeFP = [] then (g, True)
      else if CompareFingerprints challengeFP requestFP then (g, True)
      else (g_Log FingerprintAnomaly userID [] ip ua requestFP [] [(''expected'', MStr challengeFP), (''stage'', MStr ''mfa_challenge'')] g, False))"

record MFACompletion =
  mc_method :: string
  mc_userVerified :: bool
  mc_prior :: "string list"

definition completion_methods :: "MFACompletion \<Rightarrow> string list" where
  "completion_methods c = mc_prior c @ [mc_method c]"

definition challengeKey :: "string \<Rightarrow> string" where
  "challengeKey jti = ''challenge_used:'' @ jti"

text \<open>The single-use claim on the challenge. Without a cache, or without an id, there is none.\<close>

definition claim_challenge ::
  "('c, 'k) login_svc \<Rightarrow> time \<Rightarrow> string \<Rightarrow> 'c login_world \<Rightarrow> 'c login_world \<times> (login_error + unit)" where
  "claim_challenge s now jti g =
     (case lk_cache (ls_lock s) of
        None \<Rightarrow> (g, Inr ())
      | Some C \<Rightarrow>
          if jti = [] then (g, Inr ())
          else (case SetIfNotExists C (lw_cache (g_lock g)) now (challengeKey jti) ''1'' (5 * Minute) of
                  (c', Inl err) \<Rightarrow> (on_lock (\<lambda>l. l\<lparr> lw_cache := c' \<rparr>) g, Inl (CacheErr err))
                | (c', Inr False) \<Rightarrow> (on_lock (\<lambda>l. l\<lparr> lw_cache := c' \<rparr>) g, Inl (AuthErr ErrChallengeConsumed))
                | (c', Inr True) \<Rightarrow> (on_lock (\<lambda>l. l\<lparr> lw_cache := c' \<rparr>) g, Inr ())))"

definition mfa_refusal :: "login_env \<Rightarrow> User option \<Rightarrow> auth_error option" where
  "mfa_refusal e user =
     (case user of
        None \<Rightarrow> Some ErrTokenInvalid
      | Some x \<Rightarrow>
          if u_deleted x \<or> u_mustResetPassword x \<or> u_importPending x then Some ErrTokenInvalid
          else if u_banned x then Some ErrAccountBanned
          else if u_disabled x then Some ErrAccountDisabled
          else if (case u_lockedUntil x of None \<Rightarrow> False | Some t \<Rightarrow> kl_locked e < t) then Some ErrAccountLocked
          else None)"

definition CompleteMFALogin ::
  "('c, 'k) login_svc \<Rightarrow> login_env \<Rightarrow> string \<Rightarrow> string \<Rightarrow> string \<Rightarrow> string \<Rightarrow> string \<Rightarrow> MFACompletion \<Rightarrow> 'c login_world \<Rightarrow>
     'c login_world \<times> (login_error + LoginResult)" where
  "CompleteMFALogin s e userID fp ip ua jti completion g =
     (case claim_challenge s (kl_once e) jti g of
        (g1, Inl err) \<Rightarrow> (g1, Inl err)
      | (g1, Inr _) \<Rightarrow>
          let g2 = on_lock (\<lambda>l. clearLockout (ls_lock s) (kl_clear e) l userID ip) g1 in
          (case g_checkSessionLimit s e userID g2 of
             (g3, Inl err) \<Rightarrow> (g3, Inl err)
           | (g3, Inr _) \<Rightarrow>
               (case g_device e userID fp ip ua g3 of
                  (g4, deviceID) \<Rightarrow>
                    let found = (if le_byID e then map_of (lw_users (g_lock g4)) userID else None) in
                    (case (mfa_refusal e found, found) of
                       (Some err, _) \<Rightarrow> (g4, Inl (AuthErr err))
                     | (None, Some user) \<Rightarrow>
                         issue_session s e userID user [] fp False (completion_methods completion) (mc_userVerified completion)
                           deviceID ip ua [(''mfa_completed'', MBool True)] g4
                     | (None, None) \<Rightarrow> (g4, Inl (AuthErr ErrTokenInvalid))))))"

section \<open>Deferred work\<close>

definition importClaimTTL :: duration where "importClaimTTL = Hour"

definition reserveKey :: "resetLinkKind \<Rightarrow> string" where
  "reserveKey k = (case k of importClaimLink \<Rightarrow> ''import_claim_sent:'' | forcedResetLink \<Rightarrow> ''forced_reset_sent:'')"

definition urlSuffix :: "resetLinkKind \<Rightarrow> string" where
  "urlSuffix k = (case k of importClaimLink \<Rightarrow> ''&import=1'' | forcedResetLink \<Rightarrow> [])"

text \<open>The job of \<open>sendResetLink\<close>, on a cache \<open>c\<close>: the link mailed, if one is. \<open>sha\<close> hashes to hex.\<close>

definition retire_link :: "'c Cache \<Rightarrow> clock \<Rightarrow> string \<Rightarrow> 'c \<Rightarrow> 'c" where
  "retire_link C clk userID c =
     (case GetAndDelete C c (clk 0) (''pwreset_user:'' @ userID) of
        (c1, Inr oldHash) \<Rightarrow> if oldHash \<noteq> [] then fst (Delete C c1 (clk 1) (''reset:'' @ oldHash)) else c1
      | (c1, Inl _) \<Rightarrow> c1)"

definition reset_link_job ::
  "'c Cache \<Rightarrow> (string \<Rightarrow> string) \<Rightarrow> string \<Rightarrow> clock \<Rightarrow> string option \<Rightarrow> resetLinkKind \<Rightarrow> string \<Rightarrow> string \<Rightarrow> 'c \<Rightarrow> 'c \<times> (string \<times> string) option" where
  "reset_link_job C sha origin clk rnd kind userID emailAddr c =
     (case SetIfNotExists C c (clk 0) (reserveKey kind @ userID) ''1'' importClaimTTL of
        (c1, Inr True) \<Rightarrow>
          let c2 = retire_link C (\<lambda>i. clk (1 + i)) userID c1 in
          (case rnd of
             None \<Rightarrow> (c2, None)
           | Some tok \<Rightarrow>
               (case Set C c2 (clk 3) (''reset:'' @ sha tok) userID importClaimTTL of
                  (c3, Inl _) \<Rightarrow> (c3, None)
                | (c3, Inr _) \<Rightarrow>
                    (fst (Set C c3 (clk 4) (''pwreset_user:'' @ userID) (sha tok) importClaimTTL),
                     Some (emailAddr, origin @ ''/reset-password?token='' @ tok @ urlSuffix kind))))
      | (c1, _) \<Rightarrow> (c1, None))"

text \<open>\<open>notifyNewCountry\<close>: \<open>country\<close> is the geolocation lookup, \<open>rows\<close> the countries on record.\<close>

definition newLocationNotifyWindow :: duration where "newLocationNotifyWindow = 24 * Hour"

definition UpsertAndWasNew :: "(string \<times> string) list \<Rightarrow> string \<Rightarrow> string \<Rightarrow> (string \<times> string) list \<times> bool \<times> bool" where
  "UpsertAndWasNew rows userID cc =
     (let hadAny = (0 < length (filter (\<lambda>r. fst r = userID) rows)) in
      if (userID, cc) \<in> set rows then (rows, False, hadAny) else (rows @ [(userID, cc)], True, hadAny))"

definition notifyNewCountry ::
  "'c lockout_svc \<Rightarrow> (string \<Rightarrow> string) option \<Rightarrow> bool option \<Rightarrow> time \<Rightarrow> string \<Rightarrow> string \<Rightarrow> string \<Rightarrow>
     (string \<times> string) list \<Rightarrow> 'c lockout_world \<Rightarrow> (string \<times> string) list \<times> 'c lockout_world \<times> (string \<times> string) option" where
  "notifyNewCountry k country store_up now userID emailAddr ip rows l =
     (case (country, store_up) of
        (Some lookup, Some up) \<Rightarrow>
          let cc = lookup ip in
          if cc = [] \<or> \<not> up then (rows, l, None)
          else (case UpsertAndWasNew rows userID cc of
                  (rows', wasNew, hadAny) \<Rightarrow>
                    if \<not> wasNew \<or> \<not> hadAny then (rows', l, None)
                    else let l1 = (if lk_auditLog k then lw_Log l LoginNewCountry userID [] [] [(''country'', MStr cc)] else l) in
                      (case lk_cache k of
                         None \<Rightarrow> (rows', l1, None)
                       | Some C \<Rightarrow>
                           if \<not> lk_emailSender k then (rows', l1, None)
                           else (case SetIfNotExists C (lw_cache l1) now (''newloc_notified:'' @ userID @ '':'' @ cc) ''1'' newLocationNotifyWindow of
                                   (c', Inr True) \<Rightarrow> (rows', l1\<lparr> lw_cache := c' \<rparr>, Some (emailAddr, cc))
                                 | (c', _) \<Rightarrow> (rows', l1\<lparr> lw_cache := c' \<rparr>, None))))
      | _ \<Rightarrow> (rows, l, None))"


section \<open>What a successful login means\<close>

lemma session_view_put [simp]: "session_view (put_session w g) = w\<lparr> w_refreshed := 0, w_replayed := 0 \<rparr>"
  by (simp add: session_view_def put_session_def)

lemma put_session_simps [simp]:
  "g_rows (put_session w g) = rd_rows (w_db w)" "lw_users (g_lock (put_session w g)) = rd_users (w_db w)"
  "lw_cache (g_lock (put_session w g)) = lw_cache (g_lock g)" "g_factors (put_session w g) = g_factors g"
  "g_devices (put_session w g) = g_devices g" "g_catalog (put_session w g) = w_catalog w" "lw_rates (g_lock (put_session w g)) = lw_rates (g_lock g)"
  "lw_audit (g_lock (put_session w g)) = w_audit w"
  by (simp_all add: put_session_def)

lemma session_view_simps [simp]:
  "w_db (session_view g) = \<lparr> rd_rows = g_rows g, rd_users = lw_users (g_lock g) \<rparr>" "w_catalog (session_view g) = g_catalog g"
  "w_audit (session_view g) = lw_audit (g_lock g)"
  by (simp_all add: session_view_def)

lemma g_Log_simps [simp]:
  "g_rows (g_Log ev u c ip ua fp d m g) = g_rows g" "lw_users (g_lock (g_Log ev u c ip ua fp d m g)) = lw_users (g_lock g)"
  "lw_cache (g_lock (g_Log ev u c ip ua fp d m g)) = lw_cache (g_lock g)" "g_factors (g_Log ev u c ip ua fp d m g) = g_factors g"
  "g_devices (g_Log ev u c ip ua fp d m g) = g_devices g"
  by (simp_all add: g_Log_def)

lemma login_note_simps [simp]:
  "g_rows (login_note u ip ua m g) = g_rows g" "lw_users (g_lock (login_note u ip ua m g)) = lw_users (g_lock g)"
  "lw_cache (g_lock (login_note u ip ua m g)) = lw_cache (g_lock g)" "lw_rates (g_lock (login_note u ip ua m g)) = lw_rates (g_lock g)"
  by (simp_all add: login_note_def lw_Log_def)

lemma no_result_simps [simp]:
  "lr_accessToken no_result = []" "lr_refreshToken no_result = []" "lr_requires2FA no_result = False" "lr_challengeToken no_result = []"
  by (simp_all add: no_result_def)

lemma challenge_result_simps [simp]:
  "lr_accessToken (challenge_result t ms) = []" "lr_refreshToken (challenge_result t ms) = []"
  "lr_requires2FA (challenge_result t ms) = True" "lr_challengeToken (challenge_result t ms) = t" "lr_methods (challenge_result t ms) = ms"
  by (simp_all add: challenge_result_def)

lemma login_challenge_ok:
  assumes "login_challenge s e input u ip ua ms m g = (g', Inr r)"
  shows "lr_requires2FA r \<and> lr_accessToken r = [] \<and> lr_refreshToken r = [] \<and> g_rows g' = g_rows g"
  using assms by (auto simp: login_challenge_def Let_def split: sum.splits)

lemma checkSessionLimit_db: "w_db (fst (checkSessionLimit a up now w u)) = w_db w"
  by (auto simp: checkSessionLimit_def split: sum.splits)

lemma g_checkSessionLimit_frame:
  assumes "g_checkSessionLimit s e u g = (g', r)"
  shows "g_rows g' = g_rows g \<and> lw_users (g_lock g') = lw_users (g_lock g) \<and> lw_cache (g_lock g') = lw_cache (g_lock g)"
  using assms checkSessionLimit_db [of "ls_auth s" "le_count e" "kl_count e" "session_view g" u]
  by (auto simp: g_checkSessionLimit_def split: prod.splits sum.splits)

lemma g_device_frame:
  "g_device e u fp ip ua g = (g', i) \<Longrightarrow> g_rows g' = g_rows g \<and> g_lock g' = g_lock g"
  by (auto simp: g_device_def split: prod.splits)

lemma storeRefreshToken_row:
  assumes "storeRefreshToken dp a d up now db_now ctx w0 userID clientID deviceID fp pair = (w, Inr ())"
  shows "\<exists>row. rd_rows (w_db w) = rd_rows (w_db w0) @ [row] \<and> r_user row = userID \<and> \<not> r_used row \<and> \<not> r_revoked row"
proof -
  from assms obtain t db' where c: "rt_CreateWithinCap up (w_db w0) db_now t (as_maxSessionsPerUser a) = (db', Inr ())"
    and w: "w_db w = db'" and t: "t_userID t = userID" "\<not> t_used t" "\<not> t_revoked t"
    by (auto simp: storeRefreshToken_def split: option.splits prod.splits sum.splits)
  from c rt_CreateWithinCap_ok_iff [of up "w_db w0" db_now t "as_maxSessionsPerUser a"] rt_CreateWithinCap_db [of up "w_db w0" db_now t "as_maxSessionsPerUser a"]
  have "db' = (w_db w0)\<lparr> rd_rows := rd_rows (w_db w0) @ [inherit_family (w_db w0) (refreshTokenInsertArgs t)] \<rparr>" by simp
  with w t show ?thesis by (simp add: refreshTokenInsertArgs_def)
qed

text \<open>A new session is one row more, of this user, and everyone else's rows are as they were.\<close>

lemma issue_session_ok:
  assumes "issue_session s e userID user clientID fp remember ms uv deviceID ip ua m g = (g', Inr r)"
  shows "\<not> lr_requires2FA r \<and> (\<exists>row. g_rows g' = g_rows g @ [row] \<and> r_user row = userID \<and> \<not> r_used row \<and> \<not> r_revoked row)"
proof -
  obtain cat' roles where er: "effectiveRoles (dp_uni (ls_deps s)) (g_catalog g) (kl_roles e) (le_listed e) (u_roles user) = (cat', roles)" by fastforce
  with assms obtain pair w where st: "storeRefreshToken (ls_deps s) (ls_auth s) (le_draws e) (le_tx e) (kl_row e) (kl_db e) (le_ctx e)
      (session_view (g\<lparr> g_catalog := cat' \<rparr>)) userID clientID deviceID fp pair = (w, Inr ())"
    and g': "g_rows g' = rd_rows (w_db w)" and r: "\<not> lr_requires2FA r"
    by (auto simp: issue_session_def Let_def split: sum.splits prod.splits)
  have "\<exists>row. rd_rows (w_db w) = g_rows g @ [row] \<and> r_user row = userID \<and> \<not> r_used row \<and> \<not> r_revoked row"
    using storeRefreshToken_row [OF st] by simp
  with g' r show ?thesis by simp
qed

lemma login_single_step_ok:
  assumes "login_single_step s e input user email ip ua g = (g', Inr r)"
  shows "\<not> lr_requires2FA r \<and> (\<exists>row. g_rows g' = g_rows g @ [row] \<and> r_user row = u_id user \<and> \<not> r_used row \<and> \<not> r_revoked row)"
proof -
  define g2 where "g2 = on_lock (\<lambda>l. clearIdentityFailures (ls_lock s) (kl_clear e 2) l email)
    (on_lock (\<lambda>l. clearLockout (ls_lock s) (kl_clear e) l (u_id user) ip) g)"
  then have g2: "g_rows g2 = g_rows g" by simp
  from assms obtain g3 g4 i where l: "g_checkSessionLimit s e (u_id user) g2 = (g3, Inr ())"
    and d: "g_device e (u_id user) (request_fp s input ip ua) ip ua g3 = (g4, i)"
    and iss: "issue_session s e (u_id user) user (li_clientID input) (request_fp s input ip ua) (li_rememberMe input) [MethodPassword] False i ip ua [] g4 = (g', Inr r)"
    unfolding login_single_step_def Let_def g2_def [symmetric] by (auto split: sum.splits prod.splits)
  with g2 issue_session_ok [OF iss] g_checkSessionLimit_frame [OF l] g_device_frame [OF d] show ?thesis by simp
qed

definition owes_nothing :: "bool option \<Rightarrow> factor_tables \<Rightarrow> string \<Rightarrow> bool" where
  "owes_nothing mfa ft u \<longleftrightarrow> mfa = None \<or> (mfa = Some False \<and> \<not> enrolled ft u)"

lemma login_second_factor_ok:
  assumes "login_second_factor s e input user email ip ua g = (g', Inr r)" "one_secret_per_user (g_factors g)"
  shows "if lr_requires2FA r then lr_accessToken r = [] \<and> lr_refreshToken r = [] \<and> g_rows g' = g_rows g
         else owes_nothing (ls_mfa s) (g_factors g) (u_id user) \<and>
           (\<exists>row. g_rows g' = g_rows g @ [row] \<and> r_user row = u_id user \<and> \<not> r_used row \<and> \<not> r_revoked row)"
proof (cases "ls_mfa s")
  case None
  with assms login_single_step_ok [of s e input user email ip ua g g' r] show ?thesis
    by (simp add: login_second_factor_def owes_nothing_def)
next
  case (Some required)
  with assms(1) obtain st where st: "mfa_GetStatus required (le_reads e) (g_factors g) (u_id user) = Inr st"
    by (auto simp: login_second_factor_def split: sum.splits)
  show ?thesis
  proof (cases "ms_methods st = [] \<and> \<not> required")
    case True
    with assms(1) Some st have "login_single_step s e input user email ip ua g = (g', Inr r)" by (simp add: login_second_factor_def)
    from login_single_step_ok [OF this] True Some GetStatus_enrolled [OF st assms(2)] show ?thesis by (simp add: owes_nothing_def)
  next
    case False
    with assms(1) Some st obtain ms m g1 where "login_challenge s e input (u_id user) ip ua ms m g1 = (g', Inr r)" "g_rows g1 = g_rows g"
      by (cases "ms_methods st = []") (auto simp: login_second_factor_def split: if_splits)
    with login_challenge_ok show ?thesis by fastforce
  qed
qed

definition signs_in :: "login_env \<Rightarrow> User \<Rightarrow> bool" where
  "signs_in e u \<longleftrightarrow> \<not> u_deleted u \<and> \<not> u_banned u \<and> \<not> u_disabled u \<and> \<not> u_importPending u \<and> \<not> u_mustResetPassword u \<and>
     u_emailVerified u \<and> (case u_lockedUntil u of None \<Rightarrow> True | Some t \<Rightarrow> t \<le> kl_locked e)"

lemma login_known_ok:
  assumes "login_known s e input user email ip ua g = (g', Inr r)" "one_secret_per_user (g_factors g)"
  shows "signs_in e user \<and> \<not> isAccountLocked (ls_lock s) (kl_auto e) (g_lock g) (u_id user) ip \<and>
    VerifyPassword (ls_kdf s) (le_acquired e) (ls_dummy s) (ls_current s) (li_password input) (u_passwordHash user) (lk_pepper (ls_lock s)) = Inr True \<and>
    (if lr_requires2FA r then lr_accessToken r = [] \<and> lr_refreshToken r = [] \<and> g_rows g' = g_rows g
     else owes_nothing (ls_mfa s) (g_factors g) (u_id user) \<and>
       (\<exists>row. g_rows g' = g_rows g @ [row] \<and> r_user row = u_id user \<and> \<not> r_used row \<and> \<not> r_revoked row))"
proof -
  from assms(1) have v: "login_verify s e input user email ip ua g = (g', Inr r)"
    and pre: "\<not> u_deleted user" "\<not> u_importPending user" "\<not> u_mustResetPassword user" "\<not> isAccountLocked (ls_lock s) (kl_auto e) (g_lock g) (u_id user) ip"
      "\<not> (case u_lockedUntil user of None \<Rightarrow> False | Some t \<Rightarrow> kl_locked e < t)"
    unfolding login_known_def Let_def by (auto split: if_splits)
  from v obtain g1 where "VerifyPassword (ls_kdf s) (le_acquired e) (ls_dummy s) (ls_current s) (li_password input) (u_passwordHash user) (lk_pepper (ls_lock s)) = Inr True"
    "\<not> u_banned user" "\<not> u_disabled user" "u_emailVerified user"
    and f: "login_second_factor s e input user email ip ua g1 = (g', Inr r)" "g_rows g1 = g_rows g" "g_factors g1 = g_factors g"
    by (auto simp: login_verify_def split: sum.splits pw_error.splits bool.splits if_splits)
  moreover have "signs_in e user" using calculation pre by (auto simp: signs_in_def split: option.splits)
  ultimately show ?thesis using login_second_factor_ok [OF f(1), unfolded f(2,3), OF assms(2)] pre(4) by simp
qed


section \<open>A challenge is redeemed once\<close>

lemma claim_challenge_ok:
  assumes "claim_challenge s t jti g = (g1, Inr ())" "lk_cache (ls_lock s) = Some C" "jti \<noteq> []"
  shows "SetIfNotExists C (lw_cache (g_lock g)) t (challengeKey jti) ''1'' (5 * Minute) = (lw_cache (g_lock g1), Inr True)"
  using assms by (auto simp: claim_challenge_def split: prod.splits sum.splits bool.splits)

lemma clearLockout_memory:
  assumes "lk_cache k = Some memory_cache"
  shows "\<exists>ops. lw_cache (clearLockout k clk w u ip) = foldl mem_exec (lw_cache w) ops \<and>
    list_all (\<lambda>(t, op). spares_keys ''challenge_used:'' op \<and> t = clk 1) ops"
proof (cases "lockoutGeneration memory_cache (lw_cache w) (clk 0) u")
  case None
  with assms show ?thesis by (intro exI [of _ "[]"]) (simp add: clearLockout_def)
next
  case (Some n)
  with assms show ?thesis
    by (intro exI [of _ "[(clk 1, MDelete (sourceLockoutKey u ip n))]"]) (simp add: clearLockout_def sourceLockoutKey_def)
qed

lemma issue_session_cache:
  "issue_session s e userID user clientID fp remember ms uv deviceID ip ua m g = (g', r) \<Longrightarrow>
     lw_cache (g_lock g') = lw_cache (g_lock g)"
  by (auto simp: issue_session_def Let_def split: prod.splits sum.splits)

lemma CompleteMFALogin_ok:
  assumes "CompleteMFALogin s e userID fp ip ua jti c g = (g', Inr r)" "lk_cache (ls_lock s) = Some memory_cache" "jti \<noteq> []"
  obtains m1 ops where "SetIfNotExists memory_cache (lw_cache (g_lock g)) (kl_once e) (challengeKey jti) ''1'' (5 * Minute) = (m1, Inr True)"
    "lw_cache (g_lock g') = foldl mem_exec m1 ops" "list_all (\<lambda>(t, op). spares_keys ''challenge_used:'' op \<and> t = kl_clear e 1) ops"
proof -
  from assms(1) obtain g1 g3 g4 i user where c: "claim_challenge s (kl_once e) jti g = (g1, Inr ())"
    and l: "g_checkSessionLimit s e userID (on_lock (\<lambda>l. clearLockout (ls_lock s) (kl_clear e) l userID ip) g1) = (g3, Inr ())"
    and d: "g_device e userID fp ip ua g3 = (g4, i)"
    and iss: "issue_session s e userID user [] fp False (completion_methods c) (mc_userVerified c) i ip ua [(''mfa_completed'', MBool True)] g4 = (g', Inr r)"
    unfolding CompleteMFALogin_def Let_def by (auto split: prod.splits sum.splits option.splits if_splits)
  from clearLockout_memory [OF assms(2)] obtain ops where
    ops: "lw_cache (clearLockout (ls_lock s) (kl_clear e) (g_lock g1) userID ip) = foldl mem_exec (lw_cache (g_lock g1)) ops"
      "list_all (\<lambda>(t, op). spares_keys ''challenge_used:'' op \<and> t = kl_clear e 1) ops" by blast
  have "lw_cache (g_lock g') = foldl mem_exec (lw_cache (g_lock g1)) ops"
    using issue_session_cache [OF iss] g_device_frame [OF d] g_checkSessionLimit_frame [OF l] ops(1) by simp
  from that [OF claim_challenge_ok [OF c assms(2,3)] this ops(2)] show thesis .
qed

text \<open>
  C5: A challenge that was redeemed is never redeemed again while it lives: on the memory cache,
  whatever other requests, other users of the cache and the sweeper do in between, a second completion
  with the same challenge is refused as consumed and changes nothing. The record outlives the token,
  whose expiry is five minutes after it was minted, rounded down to a second, with no leeway.
\<close>

theorem challenge_is_redeemed_once:
  assumes first: "CompleteMFALogin s e1 u1 fp1 ip1 ua1 jti c1 g = (g1, Inr r)"
    and wired: "lk_cache (ls_lock s) = Some memory_cache" "mem_inv (lw_cache (g_lock g))" "jti \<noteq> []"
    and minted: "c_exp (challengeClaims ts ctx t0 jti u fp fs) = Some x" "t0 \<le> kl_once e1" "kl_once e2 < x"
    and between: "lw_cache (g_lock g2) = foldl mem_exec (lw_cache (g_lock g1)) ops"
      "list_all (\<lambda>(t, op). spares_keys ''challenge_used:'' op \<and> t \<le> kl_once e2) ops"
    and clocks: "0 < kl_once e1" "kl_clear e1 1 \<le> kl_once e2"
  shows "CompleteMFALogin s e2 u2 fp2 ip2 ua2 jti c2 g2 = (g2, Inl (AuthErr ErrChallengeConsumed))"
proof -
  from CompleteMFALogin_ok [OF first wired(1,3)] obtain m1 ops1 where
    claim: "SetIfNotExists memory_cache (lw_cache (g_lock g)) (kl_once e1) (challengeKey jti) ''1'' (5 * Minute) = (m1, Inr True)"
    and m: "lw_cache (g_lock g1) = foldl mem_exec m1 ops1" "list_all (\<lambda>(t, op). spares_keys ''challenge_used:'' op \<and> t = kl_clear e1 1) ops1" .
  have cache: "lw_cache (g_lock g2) = foldl mem_exec m1 (ops1 @ ops)" using m(1) between(1) by simp
  have "list_all (\<lambda>(t, op). spares_keys ''challenge_used:'' op \<and> t \<le> kl_once e2) (ops1 @ ops)"
    using m(2) between(2) clocks(2) by (auto simp: list_all_iff)
  moreover have "kl_once e2 < kl_once e1 + 5 * Minute"
    using minted by (auto simp: challengeClaims_def NewNumericDate_def)
  moreover have "0 < 5 * Minute" "prefix ''challenge_used:'' (challengeKey jti)" by (simp_all add: challengeKey_def)
  ultimately have "SetIfNotExists memory_cache (lw_cache (g_lock g2)) (kl_once e2) (challengeKey jti) ''1'' (5 * Minute) = (lw_cache (g_lock g2), Inr False)"
    unfolding cache by (intro claimed_key_stays [OF wired(2) clocks(1) _ claim])
  then show ?thesis using wired(1,3) by (simp add: CompleteMFALogin_def claim_challenge_def)
qed

section \<open>Refusals look alike\<close>

lemma burn_iff: "burn s e pw \<longleftrightarrow> \<not> le_acquired e"
proof -
  have "parseArgon2Hash h \<noteq> Inl Argon2Overloaded" for h
    by (auto simp: parseArgon2Hash_def Let_def split: option.splits if_splits)
  then show ?thesis by (auto simp: burn_def VerifyPassword_def Let_def split: sum.splits prod.splits)
qed

lemma Verify_acquired:
  "VerifyPassword kd acquired dummy current pw h pepper \<noteq> Inl Argon2Overloaded \<Longrightarrow> acquired"
  by (cases acquired) (simp_all add: VerifyPassword_def Let_def)

text \<open>What an increment leaves at its key depends on what was there and on nothing else, when the cache
  has no cap.\<close>

lemma mem_Increment_view:
  assumes "mc_maxEntries m \<le> 0" "mc_maxEntries m' \<le> 0" "mem_view m k = mem_view m' k"
  shows "mem_view (fst (mem_Increment m t k ttl)) k = mem_view (fst (mem_Increment m' t k ttl)) k"
  using assms
  by (auto simp: mem_Increment_def mem_admit_def mem_view_def mem_put_def mem_holds_def gomap_simps Let_def split: option.splits prod.splits if_splits)

definition same_counters :: "string set \<Rightarrow> MemoryCache \<Rightarrow> MemoryCache \<Rightarrow> bool" where
  "same_counters K m m' \<longleftrightarrow> mem_inv m \<and> mem_inv m' \<and> mc_maxEntries m \<le> 0 \<and> mc_maxEntries m' \<le> 0 \<and>
     (\<forall>k \<in> K. mem_view m k = mem_view m' k)"

lemma Increment_frame:
  "mem_inv m \<Longrightarrow> k' \<noteq> k \<Longrightarrow> mem_view (fst (mem_Increment m t k ttl)) k' = mem_view m k'"
  using mem_Increment_frame by (metis prod.collapse)

lemma Increment_inv: "mem_inv m \<Longrightarrow> mem_inv (fst (mem_Increment m t k ttl))"
  using mem_exec_inv [of m t "MIncrement k ttl"] by simp

lemma same_incr:
  assumes "same_counters K m m'"
  shows "same_counters K (fst (mem_Increment m t k ttl)) (fst (mem_Increment m' t k ttl))"
proof -
  have "mem_view (fst (mem_Increment m t k ttl)) j = mem_view (fst (mem_Increment m' t k ttl)) j" if "j \<in> K" for j
  proof (cases "j = k")
    case True
    with assms that mem_Increment_view show ?thesis by (auto simp: same_counters_def)
  next
    case False
    with assms that show ?thesis by (simp add: same_counters_def Increment_frame)
  qed
  with assms show ?thesis by (simp add: same_counters_def Increment_inv)
qed

lemma same_incr_left: "same_counters K m m' \<Longrightarrow> k \<notin> K \<Longrightarrow> same_counters K (fst (mem_Increment m t k ttl)) m'"
  unfolding same_counters_def by (metis Increment_inv Increment_frame mem_step_cap(1))

lemma same_setnx_left: "same_counters K m m' \<Longrightarrow> k \<notin> K \<Longrightarrow> same_counters K (fst (mem_SetIfNotExists m t k v ttl)) m'"
proof -
  assume a: "same_counters K m m'" "k \<notin> K"
  have "mem_view (fst (mem_SetIfNotExists m t k v ttl)) j = mem_view m j" if "j \<in> K" for j
  proof -
    from that a(2) have "j \<noteq> k" by blast
    from exec_other_key [OF this, of "MSetIfNotExists k v ttl" v ttl m t] show ?thesis by (simp add: mem_view_def)
  qed
  then show ?thesis
    using a(1) mem_exec_inv [of m t "MSetIfNotExists k v ttl"] mem_exec_cap [of m t "MSetIfNotExists k v ttl"]
    by (simp add: same_counters_def)
qed

definition ip_bump :: "string \<Rightarrow> time \<Rightarrow> MemoryCache \<Rightarrow> MemoryCache" where
  "ip_bump ip t m = (if ip = [] then m else fst (mem_Increment m t (ipLockoutKey ip) lockoutDuration))"

lemma recordFailedIP_memory:
  "lk_cache k = Some memory_cache \<Longrightarrow> lw_cache (recordFailedIP k t w ip) = ip_bump ip t (lw_cache w)"
  by (simp add: recordFailedIP_def ip_bump_def)

lemma same_ip_bump: "same_counters K m m' \<Longrightarrow> same_counters K (ip_bump ip t m) (ip_bump ip t m')"
  by (simp add: ip_bump_def same_incr)

abbreviation visible_keys :: "'c lockout_svc \<Rightarrow> string \<Rightarrow> string \<Rightarrow> string set" where
  "visible_keys k ip email \<equiv> {ipLockoutKey ip, identityThrottleKey k email}"

lemma same_recordFailedAttempt:
  assumes "lk_cache k = Some memory_cache" "same_counters (visible_keys k ip email) (lw_cache w) m'"
  shows "same_counters (visible_keys k ip email) (lw_cache (recordFailedAttempt k clk w u ip')) m'"
proof -
  obtain n where "lockoutGeneration memory_cache (lw_cache w) (clk 0) u = Some n"
    using rmc.generation_some [of "lw_cache w" "clk 0" u] assms(2) by (auto simp: same_counters_def)
  with assms(1) have "lw_cache (recordFailedAttempt k clk w u ip') =
    fst (mem_Increment (fst (mem_Increment (lw_cache w) (clk 1) (sourceLockoutKey u ip' n) lockoutDuration)) (clk 3) (accountLockoutKey u) lockoutDuration)"
    by (simp add: recordFailedAttempt_def bump_memory)
  with assms(2) show ?thesis by (simp add: same_incr_left)
qed

lemma notified_apart: "''lock_notified:'' @ u \<notin> visible_keys k ip email"
  by (simp add: ipLockoutKey_def identityThrottleKey_def)

lemma same_recordLoginFailure:
  assumes "lk_cache k = Some memory_cache" "same_counters (visible_keys k ip email) (lw_cache w) m'"
  shows "same_counters (visible_keys k ip email) (lw_cache (recordLoginFailure k clk clk' w user ip ua reason)) (ip_bump ip (clk 5) m')"
proof -
  define w2 where "w2 = recordFailedAttempt k clk (w\<lparr> lw_users := IncrementFailedLogin (lk_usersUp k) (lw_users w) (u_id user) \<rparr>) (u_id user) ip"
  define w3 where "w3 = recordFailedIP k (clk 5) w2 ip"
  have "same_counters (visible_keys k ip email) (lw_cache w2) m'"
    unfolding w2_def using assms by (intro same_recordFailedAttempt) simp_all
  then have w3: "same_counters (visible_keys k ip email) (lw_cache w3) (ip_bump ip (clk 5) m')"
    unfolding w3_def recordFailedIP_memory [OF assms(1)] by (rule same_ip_bump)
  define w5 where "w5 = lw_Log (if lk_metrics k then w3\<lparr> lw_failed := lw_failed w3 + 1 \<rparr> else w3) LoginFailure (u_id user) ip ua [(''reason'', MStr reason)]"
  have c5: "lw_cache w5 = lw_cache w3" by (simp add: w5_def lw_Log_def)
  have "lw_cache (recordLoginFailure k clk clk' w user ip ua reason) = lw_cache w3 \<or>
      lw_cache (recordLoginFailure k clk clk' w user ip ua reason) =
        fst (mem_SetIfNotExists (lw_cache w3) (clk' 4) (''lock_notified:'' @ u_id user) ''1'' lockoutDuration)"
    unfolding recordLoginFailure_def Let_def w2_def [symmetric] w3_def [symmetric] w5_def [symmetric]
    using assms(1) c5 by (auto split: prod.splits sum.splits bool.splits)
  then show ?thesis using w3 same_setnx_left [OF w3 notified_apart] by auto
qed

lemma login_failed_same:
  assumes "lk_cache (ls_lock s) = Some memory_cache" "same_counters (visible_keys (ls_lock s) ip email) (lw_cache (g_lock g)) m'"
  shows "same_counters (visible_keys (ls_lock s) ip email) (lw_cache (g_lock (login_failed s e user ip ua reason g))) (ip_bump ip (kl_fail e 5) m')"
  using same_recordLoginFailure [OF assms] by (simp add: login_failed_def)

lemma sendResetLink_lock [simp]: "g_lock (sendResetLink s kind u a g) = g_lock g"
  by (simp add: sendResetLink_def)

text \<open>Refused with \<open>ErrInvalidCredentials\<close>, an account that exists and is not deleted has had its address
  counted once.\<close>

lemma login_second_factor_error:
  "login_second_factor s e input user email ip ua g \<noteq> (g', Inl (AuthErr ErrInvalidCredentials))"
proof -
  have c: "login_challenge s e input u ip ua ms m g \<noteq> (g', Inl (AuthErr ErrInvalidCredentials))" for u ms m g
    by (auto simp: login_challenge_def Let_def split: sum.splits)
  have l: "g_checkSessionLimit s e u g \<noteq> (g', Inl (AuthErr ErrInvalidCredentials))" for u g g'
    by (auto simp: g_checkSessionLimit_def checkSessionLimit_def split: sum.splits prod.splits if_splits)
  have i: "issue_session s e u us cl fp rm ms uv d ip ua m g \<noteq> (g', Inl (AuthErr ErrInvalidCredentials))" for u us cl fp rm ms uv d m g
    by (auto simp: issue_session_def storeRefreshToken_def Let_def split: sum.splits prod.splits option.splits if_splits)
  have "login_single_step s e input user email ip ua g \<noteq> (g', Inl (AuthErr ErrInvalidCredentials))"
    using l i unfolding login_single_step_def Let_def by (auto split: sum.splits prod.splits)
  with c show ?thesis by (auto simp: login_second_factor_def split: option.splits sum.splits if_splits)
qed

lemma login_known_masked:
  assumes "login_known s e input user email ip ua g = (g', Inl (AuthErr ErrInvalidCredentials))" "\<not> u_deleted user"
    "lk_cache (ls_lock s) = Some memory_cache" "same_counters (visible_keys (ls_lock s) ip email) (lw_cache (g_lock g)) m'"
  shows "le_acquired e \<and> same_counters (visible_keys (ls_lock s) ip email) (lw_cache (g_lock g')) (ip_bump ip (kl_fail e 5) m')"
proof -
  let ?K = "visible_keys (ls_lock s) ip email"
  have i: "same_counters ?K (lw_cache (g_lock (login_failed_ip s e ip g))) (ip_bump ip (kl_fail e 5) m')"
    using same_ip_bump [OF assms(4)] by (simp add: login_failed_ip_def recordFailedIP_memory [OF assms(3)])
  have f: "same_counters ?K (lw_cache (g_lock (login_failed s e user ip ua r h))) (ip_bump ip (kl_fail e 5) m')"
    if "g_lock h = g_lock g" for r h
    using login_failed_same [OF assms(3), of ip email h m'] assms(4) that by simp
  have v: "le_acquired e \<and> same_counters ?K (lw_cache (g_lock g')) (ip_bump ip (kl_fail e 5) m')"
    if "login_verify s e input user email ip ua g = (g', Inl (AuthErr ErrInvalidCredentials))"
  proof -
    from that have "\<exists>r. g' = login_failed s e user ip ua r g"
      unfolding login_verify_def by (auto simp: login_second_factor_error split: sum.splits pw_error.splits bool.splits if_splits)
    moreover from that have "le_acquired e"
      by (cases "le_acquired e") (auto simp: login_verify_def VerifyPassword_def Let_def)
    ultimately show ?thesis using f [OF refl] by auto
  qed
  show ?thesis
    using assms(1,2) i f v unfolding login_known_def Let_def burn_iff by (auto split: if_splits)
qed

lemma ip_locked_by_view:
  assumes "lk_cache k = Some memory_cache" "mem_view (lw_cache w) (ipLockoutKey ip) = mem_view (lw_cache w') (ipLockoutKey ip)"
  shows "isIPLocked k t w ip = isIPLocked k t w' ip"
proof -
  have "mem_Get (lw_cache w) t (ipLockoutKey ip) = mem_Get (lw_cache w') t (ipLockoutKey ip)"
    using assms(2)
    by (cases "map_of (mc_data (lw_cache w)) (ipLockoutKey ip)"; cases "map_of (mc_data (lw_cache w')) (ipLockoutKey ip)")
       (auto simp: mem_Get_def mem_view_def mem_expired_def)
  with assms(1) show ?thesis by (simp add: isIPLocked_def)
qed

definition forget_users :: "'c login_world \<Rightarrow> 'c login_world" where
  "forget_users g = on_lock (\<lambda>l. l\<lparr> lw_users := [] \<rparr>) g"


section \<open>A soft-deleted account is told apart\<close>

lemma mem_Get_by_view: "mem_view m k = mem_view m' k \<Longrightarrow> mem_Get m t k = mem_Get m' t k"
  by (cases "map_of (mc_data m) k"; cases "map_of (mc_data m') k") (auto simp: mem_Get_def mem_view_def mem_expired_def)

lemma cachedCount_by_view: "mem_view m k = mem_view m' k \<Longrightarrow> cachedCount memory_cache m t k = cachedCount memory_cache m' t k"
  using mem_Get_by_view [of m k m' t] by (simp add: cachedCount_def)

lemma isAccountLocked_by_view:
  assumes "lk_cache k = Some memory_cache" "lw_users w = lw_users w'" "lw_refusedAt w = lw_refusedAt w'"
    "\<And>key. key \<noteq> identityThrottleKey k email \<Longrightarrow> mem_view (lw_cache w) key = mem_view (lw_cache w') key"
  shows "isAccountLocked k clk w u ip = isAccountLocked k clk w' u ip"
proof -
  have c: "cachedCount memory_cache (lw_cache w) t key = cachedCount memory_cache (lw_cache w') t key"
    if "key \<noteq> identityThrottleKey k email" for t key
    using that assms(4) by (intro cachedCount_by_view) simp
  have "lockoutGeneration memory_cache (lw_cache w) t u = lockoutGeneration memory_cache (lw_cache w') t u" for t
    using c by (simp add: lockoutGeneration_def)
  with c assms(1-3) show ?thesis
    by (simp add: isAccountLocked_def lockedByStoredCount_def lockoutCountersUnwritable_def cong: option.case_cong)
qed

definition burst :: "(MemoryCache, 'k) login_svc \<Rightarrow> login_env \<Rightarrow> LoginInput \<Rightarrow> string \<Rightarrow> string \<Rightarrow> nat \<Rightarrow> MemoryCache login_world \<Rightarrow> MemoryCache login_world" where
  "burst s e input ip ua n g = ((\<lambda>g. fst (Login s e input ip ua g)) ^^ n) g"

lemma recordIdentityFailure_memory:
  "lk_cache k = Some memory_cache \<Longrightarrow>
     recordIdentityFailure k t w email = w\<lparr> lw_cache := fst (mem_Increment (lw_cache w) t (identityThrottleKey k email) lockoutDuration) \<rparr>"
  by (simp add: recordIdentityFailure_def)

lemma Login_unknown_step:
  assumes "lk_cache (ls_lock s) = Some memory_cache" "is_trap s (login_email s input) = None" "le_byEmail e" "le_acquired e"
    "lw_users (g_lock g) = []" "\<not> isIPLocked (ls_lock s) (kl_ip e) (g_lock g) ip"
  shows "lw_users (g_lock (fst (Login s e input ip ua g))) = []"
    "lw_cache (g_lock (fst (Login s e input ip ua g))) =
       fst (mem_Increment (ip_bump ip (kl_fail e 5) (lw_cache (g_lock g))) (kl_end e) (identityThrottleKey (ls_lock s) (login_email s input)) lockoutDuration)"
  using assms
  by (auto simp: Login_def login_body_def Let_def us_GetByEmail_def login_unknown_def burn_iff login_failed_ip_def
      recordFailedIP_memory recordIdentityFailure_memory) (auto simp: recordFailedIP_def)

lemma Login_deleted_step:
  assumes "lk_cache (ls_lock s) = Some memory_cache" "is_trap s (login_email s input) = None" "le_byEmail e" "le_acquired e"
    "us_GetByEmail True (lw_users (g_lock g)) (login_email s input) = Inr (Some u)" "u_deleted u" "u_lockedUntil u = None"
    "\<not> isAccountLocked (ls_lock s) (kl_auto e) (g_lock g) (u_id u) ip" "\<not> isIPLocked (ls_lock s) (kl_ip e) (g_lock g) ip"
  shows "snd (Login s e input ip ua g) = Inl (AuthErr ErrInvalidCredentials)"
    "lw_users (g_lock (fst (Login s e input ip ua g))) = lw_users (g_lock g)"
    "lw_refusedAt (g_lock (fst (Login s e input ip ua g))) = lw_refusedAt (g_lock g)"
    "lw_cache (g_lock (fst (Login s e input ip ua g))) =
       fst (mem_Increment (lw_cache (g_lock g)) (kl_end e) (identityThrottleKey (ls_lock s) (login_email s input)) lockoutDuration)"
  using assms
  by (auto simp: Login_def login_body_def Let_def us_GetByEmail_def login_known_def burn_iff login_note_def lw_Log_def
      recordIdentityFailure_memory)

lemma unknown_burst:
  assumes "lk_cache (ls_lock s) = Some memory_cache" "is_trap s (login_email s input) = None" "le_byEmail e" "le_acquired e" "ip \<noteq> []"
    "kl_ip e = t" "kl_fail e 5 = t" "0 < t" "mem_inv (lw_cache (g_lock g))" "mc_maxEntries (lw_cache (g_lock g)) \<le> 0"
    "lw_users (g_lock g) = []" "mem_view (lw_cache (g_lock g)) (ipLockoutKey ip) = None" "n \<le> 20"
  shows "let h = g_lock (burst s e input ip ua n g) in lw_users h = [] \<and> mem_inv (lw_cache h) \<and> mc_maxEntries (lw_cache h) \<le> 0 \<and>
    mem_view (lw_cache h) (ipLockoutKey ip) = (if n = 0 then None else Some (FormatInt (int n), t + lockoutDuration))"
  using assms(13)
proof (induction n)
  case 0
  with assms show ?case by (simp add: burst_def)
next
  case (Suc n)
  let ?h = "burst s e input ip ua n g"
  let ?c = "lw_cache (g_lock ?h)"
  from Suc have h: "lw_users (g_lock ?h) = []" "mem_inv ?c" "mc_maxEntries ?c \<le> 0"
    and v: "mem_view ?c (ipLockoutKey ip) = (if n = 0 then None else Some (FormatInt (int n), t + lockoutDuration))"
    by (auto simp: Let_def)
  have n64: "in_int64 (int n)" "int n < MaxInt64" using Suc.prems by (simp_all add: in_int64_def MinInt64_def MaxInt64_def)
  have step: "burst s e input ip ua (Suc n) g = fst (Login s e input ip ua ?h)" by (simp add: burst_def)
  have get: "mem_Get ?c t (ipLockoutKey ip) = (if n = 0 then Inl ErrNotFound else Inr (FormatInt (int n)))"
    using v by (auto simp: mem_Get_def mem_view_def mem_expired_def lockoutDuration_def split: option.splits if_splits)
  have "\<not> isIPLocked (ls_lock s) (kl_ip e) (g_lock ?h) ip"
    using assms(1,5,6) get n64 Suc.prems by (simp add: isIPLocked_def ipLockoutThreshold_def)
  note l = Login_unknown_step [OF assms(1-4) h(1) this, of ua]
  obtain m r where inc: "mem_Increment ?c t (ipLockoutKey ip) lockoutDuration = (m, Inr r)"
    using uncapped_increment [OF h(3), of t "ipLockoutKey ip" lockoutDuration] by (metis prod.collapse)
  have m: "mem_view m (ipLockoutKey ip) = Some (FormatInt (int (Suc n)), t + lockoutDuration)"
  proof (cases "n = 0")
    case True
    with v mc.incr_dead [OF h(2) assms(8), of "ipLockoutKey ip" lockoutDuration m r] inc show ?thesis
      by (simp add: entry_dead_def expiry_of_def lockoutDuration_def)
  next
    case False
    with v mc.incr_live [OF h(2), of "ipLockoutKey ip" "int n" "t + lockoutDuration" t lockoutDuration m r] inc n64 assms(8) show ?thesis
      by (simp add: lockoutDuration_def add.commute)
  qed
  have "mem_inv m" "mc_maxEntries m \<le> 0"
    using Increment_inv [OF h(2), of t "ipLockoutKey ip" lockoutDuration] mem_step_cap(1) [of ?c t "ipLockoutKey ip" lockoutDuration] h(3) inc by simp_all
  moreover have c: "lw_cache (g_lock (burst s e input ip ua (Suc n) g)) =
      fst (mem_Increment m (kl_end e) (identityThrottleKey (ls_lock s) (login_email s input)) lockoutDuration)"
    using l(2) inc assms(5,7) by (simp add: step ip_bump_def)
  moreover have "ipLockoutKey ip \<noteq> identityThrottleKey (ls_lock s) (login_email s input)"
    by (simp add: ipLockoutKey_def identityThrottleKey_def)
  ultimately show ?case using l(1) m by (simp add: step Increment_inv Increment_frame)
qed

lemma deleted_burst:
  assumes "lk_cache (ls_lock s) = Some memory_cache" "is_trap s (login_email s input) = None" "le_byEmail e" "le_acquired e"
    "us_GetByEmail True (lw_users (g_lock g)) (login_email s input) = Inr (Some u)" "u_deleted u" "u_lockedUntil u = None"
    "\<not> isAccountLocked (ls_lock s) (kl_auto e) (g_lock g) (u_id u) ip"
    "mem_inv (lw_cache (g_lock g))" "mem_view (lw_cache (g_lock g)) (ipLockoutKey ip) = None"
  shows "snd (Login s e input ip ua (burst s e input ip ua n g)) = Inl (AuthErr ErrInvalidCredentials) \<and>
    (let h = g_lock (burst s e input ip ua n g) in lw_users h = lw_users (g_lock g) \<and> lw_refusedAt h = lw_refusedAt (g_lock g) \<and> mem_inv (lw_cache h) \<and>
       (\<forall>key. key \<noteq> identityThrottleKey (ls_lock s) (login_email s input) \<longrightarrow> mem_view (lw_cache h) key = mem_view (lw_cache (g_lock g)) key))"
proof (induction n)
  case 0
  have "\<not> isIPLocked (ls_lock s) (kl_ip e) (g_lock g) ip"
    using assms(1,10) by (auto simp: isIPLocked_def mem_Get_def mem_view_def split: option.splits)
  from Login_deleted_step [OF assms(1-8) this, of ua] assms(9) show ?case by (simp add: burst_def)
next
  case (Suc n)
  let ?h = "burst s e input ip ua n g"
  let ?h' = "burst s e input ip ua (Suc n) g"
  let ?t = "identityThrottleKey (ls_lock s) (login_email s input)"
  have step: "?h' = fst (Login s e input ip ua ?h)" by (simp add: burst_def)
  have ipt: "ipLockoutKey ip \<noteq> ?t" by (simp add: ipLockoutKey_def identityThrottleKey_def)
  have live: "us_GetByEmail True (lw_users (g_lock h)) (login_email s input) = Inr (Some u)"
      "\<not> isAccountLocked (ls_lock s) (kl_auto e) (g_lock h) (u_id u) ip" "\<not> isIPLocked (ls_lock s) (kl_ip e) (g_lock h) ip"
    if "lw_users (g_lock h) = lw_users (g_lock g)" "lw_refusedAt (g_lock h) = lw_refusedAt (g_lock g)"
      "\<forall>key. key \<noteq> ?t \<longrightarrow> mem_view (lw_cache (g_lock h)) key = mem_view (lw_cache (g_lock g)) key" for h
  proof -
    show "us_GetByEmail True (lw_users (g_lock h)) (login_email s input) = Inr (Some u)" using that assms(5) by simp
    show "\<not> isAccountLocked (ls_lock s) (kl_auto e) (g_lock h) (u_id u) ip"
      using isAccountLocked_by_view [OF assms(1) that(1,2)] that(3) assms(8) by blast
    from that(3) ipt assms(10) have "mem_view (lw_cache (g_lock h)) (ipLockoutKey ip) = None" by simp
    with assms(1) show "\<not> isIPLocked (ls_lock s) (kl_ip e) (g_lock h) ip"
      by (auto simp: isIPLocked_def mem_Get_def mem_view_def split: option.splits)
  qed
  from Suc have h: "lw_users (g_lock ?h) = lw_users (g_lock g)" "lw_refusedAt (g_lock ?h) = lw_refusedAt (g_lock g)" "mem_inv (lw_cache (g_lock ?h))"
    "\<forall>key. key \<noteq> ?t \<longrightarrow> mem_view (lw_cache (g_lock ?h)) key = mem_view (lw_cache (g_lock g)) key" by (auto simp: Let_def)
  from live [OF h(1,2,4)] have a: "us_GetByEmail True (lw_users (g_lock ?h)) (login_email s input) = Inr (Some u)"
    "\<not> isAccountLocked (ls_lock s) (kl_auto e) (g_lock ?h) (u_id u) ip" "\<not> isIPLocked (ls_lock s) (kl_ip e) (g_lock ?h) ip" .
  note d = Login_deleted_step [OF assms(1-4) a(1) assms(6,7) a(2,3), of ua]
  have h': "lw_users (g_lock ?h') = lw_users (g_lock g)" "lw_refusedAt (g_lock ?h') = lw_refusedAt (g_lock g)" "mem_inv (lw_cache (g_lock ?h'))"
    "\<forall>key. key \<noteq> ?t \<longrightarrow> mem_view (lw_cache (g_lock ?h')) key = mem_view (lw_cache (g_lock g)) key"
    using d(2-4) h by (simp_all add: step Increment_inv Increment_frame)
  from live [OF h'(1,2,4)] have a': "us_GetByEmail True (lw_users (g_lock ?h')) (login_email s input) = Inr (Some u)"
    "\<not> isAccountLocked (ls_lock s) (kl_auto e) (g_lock ?h') (u_id u) ip" "\<not> isIPLocked (ls_lock s) (kl_ip e) (g_lock ?h') ip" .
  with Login_deleted_step(1) [OF assms(1-4) a'(1) assms(6,7) a'(2,3), of ua] h' show ?case by (simp add: Let_def)
qed


section \<open>An honest login succeeds\<close>

text \<open>What issuing needs of the world: entropy, a signing key, a store that answers and has room, fresh ids.\<close>

definition can_issue :: "('c, 'k) login_svc \<Rightarrow> login_env \<Rightarrow> string \<Rightarrow> 'c login_world \<Rightarrow> bool" where
  "can_issue s e userID g \<longleftrightarrow>
     (\<exists>jti tok fam row. le_draws e = \<lparr> d_jti = Some jti, d_token = Some tok, d_family = Some fam, d_row = Some row \<rparr> \<and>
        (\<forall>r \<in> set (g_rows g). r_family r \<noteq> fam \<and> r_id r \<noteq> row \<and> r_hash r \<noteq> dp_sha (ls_deps s) tok)) \<and>
     (\<forall>c. dp_sign (ls_deps s) c (ts_privateKey (as_tokenSvc (ls_auth s))) (ts_kid (as_tokenSvc (ls_auth s))) \<noteq> None) \<and>
     (\<forall>x. le_tx e x) \<and> le_count e \<and>
     (0 < as_maxSessionsPerUser (ls_auth s) \<longrightarrow>
        (\<forall>t \<in> {kl_count e, kl_db e}. int (countActiveFamilies \<lparr> rd_rows = g_rows g, rd_users = lw_users (g_lock g) \<rparr> t userID) < as_maxSessionsPerUser (ls_auth s))) \<and>
     (\<exists>x. map_of (lw_users (g_lock g)) userID = Some x \<and> \<not> u_deleted x)"

lemma can_issue_frame:
  "can_issue s e u g \<Longrightarrow> g_rows g' = g_rows g \<Longrightarrow> lw_users (g_lock g') = lw_users (g_lock g) \<Longrightarrow> can_issue s e u g'"
  by (simp add: can_issue_def)

lemma IssueTokenPairWithAuth_ok:
  assumes "d = \<lparr> d_jti = Some jti, d_token = Some tok, d_family = Some fam, d_row = Some row \<rparr>"
    "\<forall>c. sign c (ts_privateKey ts) (ts_kid ts) \<noteq> None"
  shows "\<exists>pair. IssueTokenPairWithAuth sign ts d now ctx u roles scopes cl fp [] rm auth = Inr pair \<and>
    p_refreshToken pair = tok \<and> p_familyID pair = fam"
  using assms by (auto simp: IssueTokenPairWithAuth_def Let_def split: option.splits)

lemma storeRefreshToken_ok:
  assumes "d_row d = Some row" "\<forall>x. up x"
    "0 < as_maxSessionsPerUser a \<longrightarrow> int (countActiveFamilies (w_db w) db_now userID) < as_maxSessionsPerUser a"
    "\<forall>r \<in> set (rd_rows (w_db w)). r_family r \<noteq> p_familyID pair \<and> r_id r \<noteq> row \<and> r_hash r \<noteq> dp_sha dp (p_refreshToken pair)"
    "map_of (rd_users (w_db w)) userID = Some x" "\<not> u_deleted x"
  shows "snd (storeRefreshToken dp a d up now db_now ctx w userID clientID deviceID fp pair) = Inr ()"
proof -
  define t where "t = \<lparr> t_id = row, t_userID = userID, t_clientID = clientID,
                    t_tokenHash = dp_sha dp (p_refreshToken pair), t_familyID = p_familyID pair,
                    t_deviceID = deviceID, t_fingerprintHash = fp, t_dpopJKT = Thumbprint ctx,
                    t_expiresAt = p_refreshExpAt pair, t_used = False, t_revoked = False, t_createdAt = now \<rparr>"
  have "cap_open up (w_db w) db_now t (as_maxSessionsPerUser a)" "admits (w_db w) (refreshTokenInsertArgs t)"
    using assms(2-6) by (auto simp: cap_open_def admits_def account_kept_def refreshTokenInsertArgs_def t_def)
  then obtain db' where "rt_CreateWithinCap up (w_db w) db_now t (as_maxSessionsPerUser a) = (db', Inr ())"
    using rt_CreateWithinCap_ok_iff by (metis prod.collapse)
  then show ?thesis using assms(1) by (simp add: storeRefreshToken_def t_def)
qed

lemma issue_session_succeeds:
  assumes "can_issue s e userID g"
  shows "\<exists>g' r. issue_session s e userID user cl fp rm ms uv dev ip ua m g = (g', Inr r) \<and> Some (lr_refreshToken r) = d_token (le_draws e)"
proof -
  from assms obtain jti tok fam row x where d: "le_draws e = \<lparr> d_jti = Some jti, d_token = Some tok, d_family = Some fam, d_row = Some row \<rparr>"
    and fresh: "\<forall>r \<in> set (g_rows g). r_family r \<noteq> fam \<and> r_id r \<noteq> row \<and> r_hash r \<noteq> dp_sha (ls_deps s) tok"
    and sig: "\<forall>c. dp_sign (ls_deps s) c (ts_privateKey (as_tokenSvc (ls_auth s))) (ts_kid (as_tokenSvc (ls_auth s))) \<noteq> None"
    and tx: "\<forall>x. le_tx e x"
    and cap: "0 < as_maxSessionsPerUser (ls_auth s) \<longrightarrow> int (countActiveFamilies \<lparr> rd_rows = g_rows g, rd_users = lw_users (g_lock g) \<rparr> (kl_db e) userID) < as_maxSessionsPerUser (ls_auth s)"
    and x: "map_of (lw_users (g_lock g)) userID = Some x" "\<not> u_deleted x"
    unfolding can_issue_def by blast
  obtain cat' roles where er: "effectiveRoles (dp_uni (ls_deps s)) (g_catalog g) (kl_roles e) (le_listed e) (u_roles user) = (cat', roles)" by fastforce
  obtain pair where p: "IssueTokenPairWithAuth (dp_sign (ls_deps s)) (as_tokenSvc (ls_auth s)) (le_draws e) (kl_issue e) (le_ctx e)
      userID roles [''read'', ''write''] cl fp [] rm (NewAuthContext (kl_auth e) ms uv) = Inr pair" "p_refreshToken pair = tok" "p_familyID pair = fam"
    using IssueTokenPairWithAuth_ok [OF d, of "dp_sign (ls_deps s)" "as_tokenSvc (ls_auth s)"] sig by blast
  let ?w = "session_view (g\<lparr> g_catalog := cat' \<rparr>)"
  have "snd (storeRefreshToken (ls_deps s) (ls_auth s) (le_draws e) (le_tx e) (kl_row e) (kl_db e) (le_ctx e) ?w userID cl dev fp pair) = Inr ()"
    by (rule storeRefreshToken_ok [where row = row and x = x]) (use d tx cap fresh x p in simp_all)
  then obtain w where "storeRefreshToken (ls_deps s) (ls_auth s) (le_draws e) (le_tx e) (kl_row e) (kl_db e) (le_ctx e) ?w userID cl dev fp pair = (w, Inr ())"
    by (metis prod.collapse)
  with er p d show ?thesis by (simp add: issue_session_def Let_def)
qed

lemma limit_succeeds:
  assumes "can_issue s e u g"
  shows "\<exists>g'. g_checkSessionLimit s e u g = (g', Inr ())"
  using assms
  by (auto simp: g_checkSessionLimit_def checkSessionLimit_def rt_CountActiveFamilies_def can_issue_def split: sum.splits prod.splits)

lemma login_single_step_succeeds:
  assumes "can_issue s e (u_id user) g"
  shows "\<exists>g' r. login_single_step s e input user email ip ua g = (g', Inr r) \<and> \<not> lr_requires2FA r \<and> Some (lr_refreshToken r) = d_token (le_draws e)"
proof -
  define g2 where "g2 = on_lock (\<lambda>l. clearIdentityFailures (ls_lock s) (kl_clear e 2) l email)
    (on_lock (\<lambda>l. clearLockout (ls_lock s) (kl_clear e) l (u_id user) ip) g)"
  have "can_issue s e (u_id user) g2"
    using assms by (rule can_issue_frame) (auto simp: g2_def clearIdentityFailures_def clearLockout_def split: option.splits)
  then obtain g3 where l: "g_checkSessionLimit s e (u_id user) g2 = (g3, Inr ())" "can_issue s e (u_id user) g3"
    using limit_succeeds g_checkSessionLimit_frame can_issue_frame by blast
  obtain g4 i where d: "g_device e (u_id user) (request_fp s input ip ua) ip ua g3 = (g4, i)" by fastforce
  from issue_session_succeeds [OF can_issue_frame [OF l(2)], of g4] g_device_frame [OF d]
  obtain g' r where iss: "issue_session s e (u_id user) user (li_clientID input) (request_fp s input ip ua) (li_rememberMe input) [MethodPassword] False i ip ua [] g4 = (g', Inr r)"
    "Some (lr_refreshToken r) = d_token (le_draws e)" by auto metis
  have "login_single_step s e input user email ip ua g = (g', Inr r)"
    unfolding login_single_step_def Let_def g2_def [symmetric] using l(1) d iss(1) by simp
  with iss(2) issue_session_ok [OF iss(1)] show ?thesis by blast
qed

lemma can_issue_reset:
  assumes "can_issue s e u g"
  shows "can_issue s e u (on_lock (\<lambda>l. l\<lparr> lw_users := ResetFailedLogin up (lw_users l) v \<rparr>) g)"
proof -
  have c: "countActiveFamilies \<lparr> rd_rows = g_rows g, rd_users = ResetFailedLogin up (lw_users (g_lock g)) v \<rparr> t u =
      countActiveFamilies \<lparr> rd_rows = g_rows g, rd_users = lw_users (g_lock g) \<rparr> t u" for t
    by (simp add: countActiveFamilies_def)
  have "\<exists>x. map_of (ResetFailedLogin up (lw_users (g_lock g)) v) u = Some x \<and> \<not> u_deleted x"
    using assms by (auto simp: can_issue_def ResetFailedLogin_def gomap_simps split: option.splits)
  then show ?thesis using assms unfolding can_issue_def by (auto simp: c)
qed

lemma login_succeeds:
  assumes "us_GetByEmail (le_byEmail e) (lw_users (g_lock g)) (login_email s input) = Inr (Some u)" "is_trap s (login_email s input) = None"
    and "\<not> isIPLocked (ls_lock s) (kl_ip e) (g_lock g) ip" "\<not> isAccountLocked (ls_lock s) (kl_auto e) (g_lock g) (u_id u) ip" "signs_in e u"
    and "VerifyPassword (ls_kdf s) (le_acquired e) (ls_dummy s) (ls_current s) (li_password input) (u_passwordHash u) (lk_pepper (ls_lock s)) = Inr True"
    and "owes_nothing (ls_mfa s) (g_factors g) (u_id u)" "one_secret_per_user (g_factors g)"
      "ls_mfa s \<noteq> None \<Longrightarrow> fr_totp (le_reads e) \<and> fr_webauthn (le_reads e) \<and> fr_backup (le_reads e)"
    and "can_issue s e (u_id u) g"
  shows "\<exists>g' r. Login s e input ip ua g = (g', Inr r) \<and> \<not> lr_requires2FA r \<and> Some (lr_refreshToken r) = d_token (le_draws e)"
proof -
  define g0 where "g0 = (if lk_metrics (ls_lock s) then g\<lparr> g_attempts := g_attempts g + 1 \<rparr> else g)"
  define g1 where "g1 = on_lock (\<lambda>l. l\<lparr> lw_users := ResetFailedLogin (lk_usersUp (ls_lock s)) (lw_users l) (u_id u) \<rparr>) g0"
  have same: "g_lock g0 = g_lock g" "g_rows g0 = g_rows g" "g_factors g1 = g_factors g" by (simp_all add: g0_def g1_def)
  have "can_issue s e (u_id u) g1"
    unfolding g1_def by (rule can_issue_reset, rule can_issue_frame [OF assms(10)]) (simp_all add: same)
  from login_single_step_succeeds [OF this, of input "login_email s input" ip ua] obtain g' r where
    st: "login_single_step s e input u (login_email s input) ip ua g1 = (g', Inr r)" and r: "\<not> lr_requires2FA r" "Some (lr_refreshToken r) = d_token (le_draws e)"
    by blast
  have "login_second_factor s e input u (login_email s input) ip ua g1 = (g', Inr r)"
  proof (cases "ls_mfa s")
    case None
    with st show ?thesis by (simp add: login_second_factor_def)
  next
    case (Some req)
    with assms(7,9) have up: "\<not> req" "fr_totp (le_reads e)" "fr_webauthn (le_reads e)" "fr_backup (le_reads e)" by (auto simp: owes_nothing_def)
    then obtain status where gs: "mfa_GetStatus req (le_reads e) (g_factors g) (u_id u) = Inr status"
      by (simp add: mfa_GetStatus_def tp_GetByUserID_def wa_ListByUser_def bc_ListUnusedByUser_def Let_def)
    with GetStatus_enrolled [OF gs assms(8)] assms(7) Some have "ms_methods status = []" by (auto simp: owes_nothing_def)
    with st Some gs up same show ?thesis by (simp add: login_second_factor_def)
  qed
  moreover have "login_known s e input u (login_email s input) ip ua g0 = login_second_factor s e input u (login_email s input) ip ua g1"
    using assms(4-6) by (auto simp: login_known_def login_verify_def Let_def signs_in_def same g1_def split: option.splits)
  ultimately have "login_body s e input ip ua g0 = (g', Inr r)"
    using assms(1-3) by (simp add: login_body_def Let_def same)
  then have "Login s e input ip ua g = (g', Inr r)" unfolding Login_def g0_def by simp
  with r show ?thesis by blast
qed

text \<open>
  C14: An honest login signs in. For an account that may sign in and is locked out neither by address nor
  by account, the right password yields tokens and opens a session, when no second factor is owed and
  every table that says so answers, there is room under the session limit, the store answers and the ids
  drawn are fresh.
\<close>

theorem honest_login_signs_in:
  assumes "us_GetByEmail (le_byEmail e) (lw_users (g_lock g)) (login_email s input) = Inr (Some u)" "is_trap s (login_email s input) = None"
    and "\<not> isIPLocked (ls_lock s) (kl_ip e) (g_lock g) ip" "\<not> isAccountLocked (ls_lock s) (kl_auto e) (g_lock g) (u_id u) ip" "signs_in e u"
    and "VerifyPassword (ls_kdf s) (le_acquired e) (ls_dummy s) (ls_current s) (li_password input) (u_passwordHash u) (lk_pepper (ls_lock s)) = Inr True"
    and "owes_nothing (ls_mfa s) (g_factors g) (u_id u)" "one_secret_per_user (g_factors g)"
      "ls_mfa s \<noteq> None \<Longrightarrow> fr_totp (le_reads e) \<and> fr_webauthn (le_reads e) \<and> fr_backup (le_reads e)"
    and "can_issue s e (u_id u) g"
  shows "\<exists>g' r. Login s e input ip ua g = (g', Inr r) \<and> \<not> lr_requires2FA r \<and> Some (lr_refreshToken r) = d_token (le_draws e)"
  using assms by (rule login_succeeds)

lemma complete_succeeds:
  assumes "lk_cache (ls_lock s) = Some memory_cache" "jti \<noteq> []" "mc_data (lw_cache (g_lock g)) = []" "mc_maxEntries (lw_cache (g_lock g)) \<le> 0"
    "can_issue s e userID g" "le_byID e" "map_of (lw_users (g_lock g)) userID = Some u" "mfa_refusal e (Some u) = None"
  shows "\<exists>g' r. CompleteMFALogin s e userID fp ip ua jti c g = (g', Inr r)"
proof -
  have "snd (mem_SetIfNotExists (lw_cache (g_lock g)) (kl_once e) (challengeKey jti) ''1'' (5 * Minute)) = Inr True"
    using assms(3,4) by (simp add: mem_SetIfNotExists_def mem_admit_def split: prod.splits)
  then obtain c' where "mem_SetIfNotExists (lw_cache (g_lock g)) (kl_once e) (challengeKey jti) ''1'' (5 * Minute) = (c', Inr True)" by (metis prod.collapse)
  then have cl: "claim_challenge s (kl_once e) jti g = (on_lock (\<lambda>l. l\<lparr> lw_cache := c' \<rparr>) g, Inr ())"
    using assms(1,2) by (simp add: claim_challenge_def)
  define g2 where "g2 = on_lock (\<lambda>l. clearLockout (ls_lock s) (kl_clear e) l userID ip) (on_lock (\<lambda>l. l\<lparr> lw_cache := c' \<rparr>) g)"
  have same: "g_rows g2 = g_rows g" "lw_users (g_lock g2) = lw_users (g_lock g)"
    by (auto simp: g2_def clearLockout_def split: option.splits)
  obtain g3 where l: "g_checkSessionLimit s e userID g2 = (g3, Inr ())"
    using limit_succeeds [OF can_issue_frame [OF assms(5) same]] by blast
  obtain g4 i where d: "g_device e userID fp ip ua g3 = (g4, i)" by fastforce
  have same4: "g_rows g4 = g_rows g" "lw_users (g_lock g4) = lw_users (g_lock g)"
    using same g_checkSessionLimit_frame [OF l] g_device_frame [OF d] by simp_all
  from issue_session_succeeds [OF can_issue_frame [OF assms(5) same4]]
  obtain g' r where "issue_session s e userID u [] fp False (completion_methods c) (mc_userVerified c) i ip ua [(''mfa_completed'', MBool True)] g4 = (g', Inr r)"
    by blast
  with l d same4 assms(6-8) have "CompleteMFALogin s e userID fp ip ua jti c g = (g', Inr r)"
    unfolding CompleteMFALogin_def cl prod.case sum.case Let_def g2_def [symmetric] by simp
  then show ?thesis by blast
qed

section \<open>A sample deployment\<close>

definition sample_pw_hash :: string where
  "sample_pw_hash = ''$argon2id$v=19$'' @ phc_params 8 1 1 @ ''$'' @ RawStd_EncodeToString (replicate 16 (CHR ''s'')) @ ''$'' @ RawStd_EncodeToString ''pw''"

definition sample_account :: User where
  "sample_account = sample_user\<lparr> u_passwordHash := sample_pw_hash \<rparr>"

definition sample_login :: "(MemoryCache, nat) login_svc" where
  "sample_login = \<lparr> ls_lock = sample_lock, ls_auth = sample_auth, ls_deps = sample_deps, ls_mfa = Some False, ls_kdf = sample_kdf,
     ls_dummy = ''d'', ls_current = ''d'', ls_trap = None \<rparr>"

definition sample_device_env :: device_env where
  "sample_device_env = \<lparr> de_get = True, de_create = True, de_reread = True, de_seen = True, de_raced = [], de_id = Some ''dev'', de_now = 20 \<rparr>"

definition sample_login_env :: login_env where
  "sample_login_env = \<lparr> le_acquired = True, le_byEmail = True, le_byID = True, le_reads = all_reads, le_count = True, le_device = sample_device_env,
     le_listed = None, le_draws = sample_draws, le_tx = (\<lambda>_. True), le_lastLogin = True, le_ctx = \<lparr> ctx_thumbprint = [] \<rparr>,
     kl_ip = 20, kl_locked = 20, kl_auto = (\<lambda>_. 20), kl_fail = (\<lambda>_. 20), kl_notify = (\<lambda>_. 20), kl_clear = (\<lambda>_. 20), kl_count = 20,
     kl_roles = 20, kl_auth = 20, kl_issue = 20, kl_row = 20, kl_db = 20, kl_last = 20, kl_cookie = 20, kl_end = 20, kl_once = 20 \<rparr>"

definition sample_login_input :: "string \<Rightarrow> LoginInput" where
  "sample_login_input pw = \<lparr> li_email = '' A@b.c'', li_password = pw, li_rememberMe = False, li_clientID = [],
     li_fingerprint = rq_fp sample_rq, li_discloseStatus = False \<rparr>"

definition sample_login_world :: "User \<Rightarrow> MemoryCache login_world" where
  "sample_login_world u = \<lparr> g_lock = sample_locks\<lparr> lw_users := [(''u'', u)] \<rparr>, g_rows = [], g_catalog = None, g_devices = [],
     g_factors = no_factors, g_attempts = 0, g_success = 0, g_issued = 0, g_jobs = [] \<rparr>"

lemma sample_login_simps [simp]:
  "ls_lock sample_login = sample_lock" "ls_mfa sample_login = Some False" "is_trap sample_login x = None"
  "ls_kdf sample_login = sample_kdf" "ls_dummy sample_login = ''d''" "ls_current sample_login = ''d''" "lk_pepper sample_lock = []"
  "le_acquired sample_login_env" "le_byEmail sample_login_env" "le_byID sample_login_env" "le_reads sample_login_env = all_reads"
  "kl_ip sample_login_env = 20" "kl_fail sample_login_env = (\<lambda>_. 20)" "kl_auto sample_login_env = (\<lambda>_. 20)" "kl_locked sample_login_env = 20"
  "kl_once sample_login_env = 20" "kl_clear sample_login_env = (\<lambda>_. 20)"
  "li_password (sample_login_input pw) = pw" "g_factors (sample_login_world u) = no_factors"
  "lw_users (g_lock (sample_login_world u)) = [(''u'', u)]" "lw_cache (g_lock (sample_login_world u)) = lw_cache sample_locks"
  "lw_refusedAt (g_lock (sample_login_world u)) = 0" "g_rows (sample_login_world u) = []"
  by (simp_all add: sample_login_def is_trap_def sample_lock_def sample_login_env_def sample_login_input_def sample_login_world_def)

lemma sample_login_email: "login_email sample_login (sample_login_input pw) = ''a@b.c''"
  by code_simp

lemma sample_email_found: "u_email u = ''a@b.c'' \<Longrightarrow>
    us_GetByEmail True (lw_users (g_lock (sample_login_world u))) (login_email sample_login (sample_login_input pw)) = Inr (Some u)"
  by (simp add: sample_login_email us_GetByEmail_def)

lemma sample_verify: "VerifyPassword sample_kdf True ''d'' ''d'' pw sample_pw_hash [] = Inr (take 2 pw @ replicate (2 - length pw) (CHR 0x00) = ''pw'')"
proof -
  have "parseArgon2Hash sample_pw_hash = Inr (replicate 16 (CHR ''s''), ''pw'', \<lparr> ap_memory = 8, ap_iterations = 1, ap_parallelism = 1 \<rparr>)"
    unfolding sample_pw_hash_def by (rule parse_phc) (simp_all add: argon2SaltLen_def params_in_bounds_def argon2MaxVerifyMemory_def)
  moreover have "sample_pw_hash \<noteq> ''d''" by (simp add: sample_pw_hash_def)
  ultimately show ?thesis by (simp add: VerifyPassword_def applyPepper_def sample_kdf_def numeral_2_eq_2)
qed

lemma sample_unlocked:
  "\<not> isIPLocked sample_lock 20 (g_lock (sample_login_world u)) ip"
  "u_failedLoginCount u = 0 \<Longrightarrow> \<not> isAccountLocked sample_lock (\<lambda>_. 20) (g_lock (sample_login_world u)) v ip"
proof -
  have g: "mem_Get (lw_cache sample_locks) t q = Inl ErrNotFound" for t q by (simp add: mem_Get_def)
  show "\<not> isIPLocked sample_lock 20 (g_lock (sample_login_world u)) ip" by (simp add: isIPLocked_def g)
  show "\<not> isAccountLocked sample_lock (\<lambda>_. 20) (g_lock (sample_login_world u)) v ip" if "u_failedLoginCount u = 0"
    using that by (simp add: isAccountLocked_def lockoutGeneration_def cachedCount_def g lockedByStoredCount_def lockoutThreshold_def
        distributedLockoutThreshold_def split: option.splits)
qed

lemma sample_can_issue: "\<not> u_deleted u \<Longrightarrow> can_issue sample_login sample_login_env ''u'' (sample_login_world u)"
  by (simp add: can_issue_def sample_login_env_def sample_draws_def sample_login_def sample_deps_def sample_auth_def sample_sign_def
      sample_service_def SetInactivityTimeout_def SetMaxSessionLifetime_def NewTokenService_def countActiveFamilies_def)

lemma sample_account_simps [simp]:
  "u_email sample_account = ''a@b.c''" "u_id sample_account = ''u''" "u_passwordHash sample_account = sample_pw_hash" "\<not> u_deleted sample_account"
  "u_failedLoginCount sample_account = 0" "signs_in e sample_account" "u_lockedUntil sample_account = None" "\<not> u_importPending sample_account"
  "\<not> u_mustResetPassword sample_account" "mfa_refusal e (Some sample_account) = None"
  by (simp_all add: sample_account_def sample_user_def signs_in_def mfa_refusal_def)

lemma sample_login_signs_in:
  "\<exists>g' r. Login sample_login sample_login_env (sample_login_input ''pw'') ''ip'' ''ua'' (sample_login_world sample_account) = (g', Inr r) \<and>
     \<not> lr_requires2FA r \<and> Some (lr_refreshToken r) = d_token (le_draws sample_login_env)"
  by (rule login_succeeds [where u = sample_account])
     (use sample_can_issue [of sample_account] sample_email_found [of sample_account "''pw''"]
      in \<open>simp_all add: sample_unlocked sample_verify owes_nothing_def enrolled_def no_factors_def one_secret_per_user_def all_reads_def eval_nat_numeral\<close>)


theorem honest_login_signs_in_witness:
  "\<exists>g' r. Login sample_login sample_login_env (sample_login_input ''pw'') ''ip'' ''ua'' (sample_login_world sample_account) = (g', Inr r) \<and>
     \<not> lr_requires2FA r \<and> Some (lr_refreshToken r) = d_token (le_draws sample_login_env)"
  by (rule honest_login_signs_in [where u = sample_account])
     (use sample_can_issue [of sample_account] sample_email_found [of sample_account "''pw''"]
      in \<open>simp_all add: sample_unlocked sample_verify owes_nothing_def enrolled_def no_factors_def one_secret_per_user_def all_reads_def\<close>)

theorem challenge_is_redeemed_once_witness:
  "\<exists>g1 r. CompleteMFALogin sample_login sample_login_env ''u'' ''fp'' ''ip'' ''ua'' ''j'' \<lparr> mc_method = MethodTOTP, mc_userVerified = False, mc_prior = [MethodPassword] \<rparr>
       (sample_login_world sample_account) = (g1, Inr r) \<and>
     CompleteMFALogin sample_login sample_login_env ''u'' ''fp'' ''ip'' ''ua'' ''j'' \<lparr> mc_method = MethodTOTP, mc_userVerified = False, mc_prior = [MethodPassword] \<rparr>
       g1 = (g1, Inl (AuthErr ErrChallengeConsumed))"
proof -
  let ?c = "\<lparr> mc_method = MethodTOTP, mc_userVerified = False, mc_prior = [MethodPassword] \<rparr>"
  obtain g1 r where f: "CompleteMFALogin sample_login sample_login_env ''u'' ''fp'' ''ip'' ''ua'' ''j'' ?c (sample_login_world sample_account) = (g1, Inr r)"
    using complete_succeeds [of sample_login "''j''" "sample_login_world sample_account" sample_login_env "''u''" sample_account] sample_can_issue [of sample_account]
    by simp (metis)
  have "CompleteMFALogin sample_login sample_login_env ''u'' ''fp'' ''ip'' ''ua'' ''j'' ?c g1 = (g1, Inl (AuthErr ErrChallengeConsumed))"
    by (rule challenge_is_redeemed_once [OF f, of sample_service "\<lparr> ctx_thumbprint = [] \<rparr>" 20 "''u''" "''fp''" "[MethodPassword]" "300 * Second" _ _ "[]"])
       (simp_all add: challengeClaims_def NewNumericDate_def)
  with f show ?thesis by blast
qed



end
