(* ===== verification/Mfa_Handlers.thy ===== *)
theory Mfa_Handlers
  imports Login
begin

text \<open>
  The second-factor endpoints (\<open>internal/handler/totp.go\<close>, \<open>backup_codes.go\<close>, \<open>email_otp.go\<close>,
  \<open>mfa.go\<close>, with \<open>mfa_helper.go\<close> and \<open>mfa_revocation.go\<close>): enrolling, proving and removing an
  authenticator app, generating and spending backup codes, the emailed code, and the completion of a
  login whose first factor is already proved. Shown: no time step is accepted twice for a user, a backup
  code is spent once however requests interleave, every factor change ends every session, and wrong codes
  lock the account out of guessing. The request arrives decoded; \<open>decodeJSON\<close> failing is \<open>None\<close>.
\<close>

section \<open>The enrolment link\<close>

text \<open>\<open>net/url\<close>: what each part of an address leaves as it is, and the escaping of the rest.\<close>

datatype url_mode = UrlPath | UrlPathSegment | UrlQuery

definition url_plain :: "url_mode \<Rightarrow> char \<Rightarrow> bool" where
  "url_plain mode c =
     (let b = byte c in
      if 48 \<le> b \<and> b \<le> 57 \<or> 65 \<le> b \<and> b \<le> 90 \<or> 97 \<le> b \<and> b \<le> 122 \<or> c \<in> set ''-_.~'' then True
      else case mode of
             UrlPath \<Rightarrow> c \<in> set ''$&+,/:;=@''
           | UrlPathSegment \<Rightarrow> c \<in> set ''$&+:=@''
           | UrlQuery \<Rightarrow> False)"

definition upperhex :: "int \<Rightarrow> char" where
  "upperhex d = (if d < 10 then char_of (d + 48) else char_of (d + 55))"

definition url_escape :: "url_mode \<Rightarrow> string \<Rightarrow> string" where
  "url_escape mode s =
     concat (map (\<lambda>c. if url_plain mode c then [c]
                      else if mode = UrlQuery \<and> c = CHR '' '' then ''+''
                      else [CHR ''%'', upperhex (byte c div 16), upperhex (byte c mod 16)]) s)"

text \<open>\<open>Encode\<close> sorts the query by key.\<close>

definition BuildOTPAuthURL :: "string \<Rightarrow> string \<Rightarrow> string \<Rightarrow> string" where
  "BuildOTPAuthURL secret issuer accountName =
     (let path = ''/'' @ url_escape UrlPathSegment issuer @ '':'' @ url_escape UrlPathSegment accountName in
      ''otpauth://totp'' @ url_escape UrlPath path @ ''?algorithm=SHA1&digits=6&issuer='' @ url_escape UrlQuery issuer @
      ''&period=30&secret='' @ url_escape UrlQuery secret)"

section \<open>Requests, replies and wiring\<close>

record mfa_crypto =
  cr_gcm :: gcm
  cr_hmac1 :: "string \<Rightarrow> string \<Rightarrow> string"
  cr_hmac256 :: "string \<Rightarrow> string \<Rightarrow> string"
  cr_upper :: "string \<Rightarrow> string"

text \<open>\<open>mq_code\<close> is the decoded body, \<open>mq_ctxIP\<close> the address in the request's context.\<close>

record mfa_request =
  mq_claims :: "VaultClaims option"
  mq_code :: "string option"
  mq_ip :: string
  mq_ctxIP :: string
  mq_ua :: string
  mq_fp :: FingerprintInput

datatype mfa_reply =
    Refused int string
  | SetupOk string string
  | Verified
  | StatusOk string
  | Codes "string list"
  | Tokens LoginResult
  | FactorStatus MFAStatus
  | Panicked

fun accepted :: "mfa_reply \<Rightarrow> bool" where
  "accepted Verified = True"
| "accepted (Tokens r) = True"
| "accepted _ = False"

record ('c, 'k) TOTPHandler =
  th_masterKey :: string
  th_issuer :: string
  th_cache :: "'c Cache option"
  th_authSvc :: "('c, 'k) login_svc option"
  th_auditLog :: bool

record ('c, 'k) BackupCodeHandler =
  bh_hmacKey :: string
  bh_authSvc :: "('c, 'k) login_svc option"
  bh_auditLog :: bool

text \<open>\<open>eh_hmacSecret\<close> and \<open>eh_sends\<close> are the service's own secret and whether its mailer delivers.\<close>

record ('c, 'k) EmailOTPHandler =
  eh_authSvc :: "('c, 'k) login_svc option"
  eh_hmacSecret :: string
  eh_sends :: "bool option"

text \<open>What one request meets: which statements are answered, its random draws and its clock readings.\<close>

record mfa_env =
  me_login :: login_env
  me_get :: bool
  me_write :: bool
  me_create :: bool
  me_revoke :: "tx_stmt \<Rightarrow> bool"
  me_reads :: factor_reads
  me_secret :: "string option"
  me_nonce :: "string option"
  me_id :: "string option"
  me_codes :: "nat \<Rightarrow> string option \<times> string option"
  me_gate :: clock
  me_fail :: clock
  me_now :: time
  me_once :: time
  me_db :: time

definition on_factors :: "(factor_tables \<Rightarrow> factor_tables) \<Rightarrow> 'c login_world \<Rightarrow> 'c login_world" where
  "on_factors f g = g\<lparr> g_factors := f (g_factors g) \<rparr>"

definition on_cache :: "'c \<Rightarrow> 'c login_world \<Rightarrow> 'c login_world" where
  "on_cache c g = on_lock (\<lambda>l. l\<lparr> lw_cache := c \<rparr>) g"

definition mfa_logEvent ::
  "bool \<Rightarrow> mfa_request \<Rightarrow> audit_event \<Rightarrow> string \<Rightarrow> (string \<times> meta) list \<Rightarrow> 'c login_world \<Rightarrow> 'c login_world" where
  "mfa_logEvent auditLog rq ev userID m g = (if auditLog then on_lock (\<lambda>l. lw_Log l ev userID (mq_ip rq) (mq_ua rq) m) g else g)"

section \<open>Ending sessions and completing logins\<close>

definition revokeSessionsAfterFactorChange ::
  "('c, 'k) login_svc option \<Rightarrow> (tx_stmt \<Rightarrow> bool) \<Rightarrow> string \<Rightarrow> 'c login_world \<Rightarrow> 'c login_world \<times> bool" where
  "revokeSessionsAfterFactorChange svc up userID g =
     (case svc of
        None \<Rightarrow> (g, True)
      | Some s \<Rightarrow>
          (case RevokeAllTokensForUser up (session_view g) userID of
             (w, Inl _) \<Rightarrow> (put_session w g, False)
           | (w, Inr _) \<Rightarrow> (put_session w g, True)))"

definition mfa_completion_error :: "login_error \<Rightarrow> mfa_reply" where
  "mfa_completion_error err =
     (case err of
        AuthErr ErrChallengeConsumed \<Rightarrow> Refused 401 ''challenge_consumed''
      | AuthErr ErrTokenInvalid \<Rightarrow> Refused 401 ''invalid_token''
      | AuthErr ErrAccountLocked \<Rightarrow> Refused 403 ''account_locked''
      | AuthErr ErrAccountBanned \<Rightarrow> Refused 403 ''account_banned''
      | AuthErr ErrAccountDisabled \<Rightarrow> Refused 403 ''account_disabled''
      | AuthErr ErrTooManySessions \<Rightarrow> Refused 429 ''too_many_sessions''
      | _ \<Rightarrow> Refused 500 ''internal_error'')"

definition completeMFAIfChallenge ::
  "('c, 'k) login_svc option \<Rightarrow> login_env \<Rightarrow> mfa_request \<Rightarrow> VaultClaims \<Rightarrow> MFACompletion \<Rightarrow> 'c login_world \<Rightarrow>
     'c login_world \<times> mfa_reply option" where
  "completeMFAIfChallenge svc e rq claims completion g =
     (case svc of
        None \<Rightarrow> (g, None)
      | Some s \<Rightarrow>
          if c_token_type claims \<noteq> ''2fa_challenge'' then (g, None)
          else let fp = ComputeFingerprint (dp_sha (ls_deps s)) ((mq_fp rq)\<lparr> fi_ip := mq_ip rq, fi_userAgent := mq_ua rq \<rparr>) in
            (case ChallengeFingerprintMatches (c_sub claims) (c_fingerprint claims) fp (mq_ip rq) (mq_ua rq) g of
               (g1, False) \<Rightarrow> (g1, Some (Refused 401 ''invalid_token''))
             | (g1, True) \<Rightarrow>
                 (case CompleteMFALogin s e (c_sub claims) fp (mq_ip rq) (mq_ua rq) (c_jti claims)
                         (completion\<lparr> mc_prior := c_factors claims \<rparr>) g1 of
                    (g2, Inl err) \<Rightarrow> (g2, Some (mfa_completion_error err))
                  | (g2, Inr r) \<Rightarrow> (g2, Some (Tokens r)))))"

definition finish_mfa ::
  "('c, 'k) login_svc option \<Rightarrow> login_env \<Rightarrow> mfa_request \<Rightarrow> VaultClaims \<Rightarrow> string \<Rightarrow> 'c login_world \<Rightarrow> 'c login_world \<times> mfa_reply" where
  "finish_mfa svc e rq claims meth g =
     (case completeMFAIfChallenge svc e rq claims \<lparr> mc_method = meth, mc_userVerified = False, mc_prior = [] \<rparr> g of
        (g1, Some r) \<Rightarrow> (g1, r)
      | (g1, None) \<Rightarrow> (g1, Verified))"

definition mfa_locked :: "('c, 'k) login_svc option \<Rightarrow> mfa_env \<Rightarrow> mfa_request \<Rightarrow> string \<Rightarrow> 'c login_world \<Rightarrow> bool" where
  "mfa_locked svc e rq userID g =
     (case svc of None \<Rightarrow> False | Some s \<Rightarrow> MFAVerifyLocked (ls_lock s) (me_gate e) (g_lock g) (mq_ctxIP rq) userID)"

definition mfa_failed :: "('c, 'k) login_svc option \<Rightarrow> mfa_env \<Rightarrow> mfa_request \<Rightarrow> string \<Rightarrow> 'c login_world \<Rightarrow> 'c login_world" where
  "mfa_failed svc e rq userID g =
     (case svc of
        None \<Rightarrow> g
      | Some s \<Rightarrow> on_lock (\<lambda>l. RecordMFAFailure (ls_lock s) (me_fail e) l userID (mq_ip rq) (mq_ua rq)) g)"

section \<open>The authenticator app\<close>

definition TOTP_Setup ::
  "mfa_crypto \<Rightarrow> ('c, 'k) TOTPHandler \<Rightarrow> mfa_env \<Rightarrow> mfa_request \<Rightarrow> 'c login_world \<Rightarrow> 'c login_world \<times> mfa_reply" where
  "TOTP_Setup cr h e rq g =
     (case mq_claims rq of
        None \<Rightarrow> (g, Refused 401 ''unauthorized'')
      | Some claims \<Rightarrow>
          let u = c_sub claims;
              existing = (case tp_GetByUserID (me_get e) (ft_totp (g_factors g)) u of Inl _ \<Rightarrow> None | Inr x \<Rightarrow> x)
          in if (case existing of None \<Rightarrow> False | Some t \<Rightarrow> tp_verified t) then (g, Refused 409 ''totp_already_setup'')
             else let g1 = (if existing \<noteq> None
                            then on_factors (\<lambda>f. f\<lparr> ft_totp := fst (tp_DeleteByUserID (me_write e) (ft_totp f) u) \<rparr>) g else g) in
               (case GenerateTOTPSecret (me_secret e) of
                  Inl _ \<Rightarrow> (g1, Refused 500 ''internal_error'')
                | Inr secret \<Rightarrow>
                    (case Encrypt (cr_gcm cr) (me_nonce e) secret (th_masterKey h) u of
                       Inl _ \<Rightarrow> (g1, Refused 500 ''internal_error'')
                     | Inr encrypted \<Rightarrow>
                         (case me_id e of
                            None \<Rightarrow> (g1, Refused 500 ''internal_error'')
                          | Some i \<Rightarrow>
                              (case tp_Create (me_create e) (ft_totp (g_factors g1))
                                      \<lparr> tp_id = i, tp_user = u, tp_secretEnc = hex_EncodeToString encrypted, tp_verified = False, tp_createdAt = me_now e \<rparr> of
                                 (rows, Inl _) \<Rightarrow> (on_factors (\<lambda>f. f\<lparr> ft_totp := rows \<rparr>) g1, Refused 500 ''internal_error'')
                               | (rows, Inr _) \<Rightarrow>
                                   (case revokeSessionsAfterFactorChange (th_authSvc h) (me_revoke e) u
                                           (on_factors (\<lambda>f. f\<lparr> ft_totp := rows \<rparr>) g1) of
                                      (g2, False) \<Rightarrow> (g2, Refused 500 ''internal_error'')
                                    | (g2, True) \<Rightarrow> (g2, SetupOk secret (BuildOTPAuthURL secret (th_issuer h) u))))))))"

definition totpUsedKey :: "string \<Rightarrow> int \<Rightarrow> string" where
  "totpUsedKey u step = ''totp_used:'' @ u @ '':'' @ FormatInt step"

definition totpUsedTTL :: duration where "totpUsedTTL = 90 * Second"

text \<open>A code that was proved for a time step: the step is claimed, the factor marked verified, the login completed.\<close>

definition totp_proved ::
  "('c, 'k) TOTPHandler \<Rightarrow> mfa_env \<Rightarrow> mfa_request \<Rightarrow> VaultClaims \<Rightarrow> TOTPSecret \<Rightarrow> int \<Rightarrow> 'c login_world \<Rightarrow> 'c login_world \<times> mfa_reply" where
  "totp_proved h e rq claims totp step g =
     (case th_cache h of
        None \<Rightarrow> (g, Panicked)
      | Some C \<Rightarrow>
          (case SetIfNotExists C (lw_cache (g_lock g)) (me_once e) (totpUsedKey (c_sub claims) step) ''1'' totpUsedTTL of
             (c', Inr True) \<Rightarrow>
               let g1 = on_cache c' g;
                   g2 = (if \<not> tp_verified totp
                         then mfa_logEvent (th_auditLog h) rq TwoFASetup (c_sub claims) [(''method'', MStr ''totp''), (''action'', MStr ''enrolled'')]
                                (on_factors (\<lambda>f. f\<lparr> ft_totp := fst (tp_MarkVerified (me_write e) (ft_totp f) (tp_id totp)) \<rparr>) g1)
                         else g1)
               in finish_mfa (th_authSvc h) (me_login e) rq claims MethodTOTP
                    (mfa_logEvent (th_auditLog h) rq TwoFAVerify (c_sub claims) [(''method'', MStr ''totp'')] g2)
           | (c', _) \<Rightarrow> (on_cache c' g, Refused 429 ''totp_code_already_used'')))"

text \<open>The stored secret, opened with the user's id, and the step the code belongs to.\<close>

definition totp_secret :: "mfa_crypto \<Rightarrow> string \<Rightarrow> string \<Rightarrow> TOTPSecret \<Rightarrow> string option" where
  "totp_secret cr masterKey u totp =
     (case hex_DecodeString (tp_secretEnc totp) of
        None \<Rightarrow> None
      | Some encBytes \<Rightarrow> (case Decrypt (cr_gcm cr) encBytes masterKey u of Inl _ \<Rightarrow> None | Inr s \<Rightarrow> Some s))"

definition TOTP_Verify ::
  "mfa_crypto \<Rightarrow> ('c, 'k) TOTPHandler \<Rightarrow> mfa_env \<Rightarrow> mfa_request \<Rightarrow> 'c login_world \<Rightarrow> 'c login_world \<times> mfa_reply" where
  "TOTP_Verify cr h e rq g =
     (case mq_claims rq of
        None \<Rightarrow> (g, Refused 401 ''unauthorized'')
      | Some claims \<Rightarrow>
          let u = c_sub claims in
          if mfa_locked (th_authSvc h) e rq u g then (g, Refused 429 ''account_locked'')
          else (case mq_code rq of
                  None \<Rightarrow> (g, Refused 400 ''invalid_code'')
                | Some code \<Rightarrow>
                    if \<not> isValidTOTPCode code then (g, Refused 400 ''invalid_code'')
                    else (case tp_GetByUserID (me_get e) (ft_totp (g_factors g)) u of
                            Inr (Some totp) \<Rightarrow>
                              (case totp_secret cr (th_masterKey h) u totp of
                                 None \<Rightarrow> (g, Refused 500 ''internal_error'')
                               | Some secret \<Rightarrow>
                                   (case ValidateTOTPCode (cr_hmac1 cr) (cr_upper cr) secret code (me_now e) of
                                      Inl _ \<Rightarrow> (mfa_failed (th_authSvc h) e rq u g, Refused 401 ''invalid_code'')
                                    | Inr step \<Rightarrow>
                                        if step < 0 then (mfa_failed (th_authSvc h) e rq u g, Refused 401 ''invalid_code'')
                                        else totp_proved h e rq claims totp step g))
                          | _ \<Rightarrow> (g, Refused 404 ''totp_not_setup''))))"

definition TOTP_Disable ::
  "('c, 'k) TOTPHandler \<Rightarrow> mfa_env \<Rightarrow> mfa_request \<Rightarrow> 'c login_world \<Rightarrow> 'c login_world \<times> mfa_reply" where
  "TOTP_Disable h e rq g =
     (case mq_claims rq of
        None \<Rightarrow> (g, Refused 401 ''unauthorized'')
      | Some claims \<Rightarrow>
          let u = c_sub claims in
          (case tp_GetByUserID (me_get e) (ft_totp (g_factors g)) u of
             Inr (Some totp) \<Rightarrow>
               (case tp_DeleteByUserID (me_write e) (ft_totp (g_factors g)) u of
                  (rows, Inl _) \<Rightarrow> (on_factors (\<lambda>f. f\<lparr> ft_totp := rows \<rparr>) g, Refused 500 ''internal_error'')
                | (rows, Inr _) \<Rightarrow>
                    (case revokeSessionsAfterFactorChange (th_authSvc h) (me_revoke e) u
                            (mfa_logEvent (th_auditLog h) rq TwoFASetup u [(''method'', MStr ''totp''), (''action'', MStr ''removed'')]
                               (on_factors (\<lambda>f. f\<lparr> ft_totp := rows \<rparr>) g)) of
                       (g1, False) \<Rightarrow> (g1, Refused 500 ''internal_error'')
                     | (g1, True) \<Rightarrow> (g1, StatusOk ''totp_disabled'')))
           | _ \<Rightarrow> (g, Refused 404 ''totp_not_setup'')))"

section \<open>Backup codes\<close>

definition backupCodeCount :: nat where "backupCodeCount = 10"

text \<open>The loop of \<open>Generate\<close> over its random draws: a code and an id per turn.\<close>

fun draw_codes :: "(string \<Rightarrow> string \<Rightarrow> string) \<Rightarrow> string \<Rightarrow> string \<Rightarrow> time \<Rightarrow> (string option \<times> string option) list \<Rightarrow> (string list \<times> BackupCode list) option" where
  "draw_codes hmac256 hmacKey u now [] = Some ([], [])"
| "draw_codes hmac256 hmacKey u now ((Some code, Some i) # draws) =
     map_option (\<lambda>(codes, rows).
        (code # codes, \<lparr> bc_id = i, bc_user = u, bc_hash = HMACSign hmac256 code hmacKey, bc_used = False, bc_usedAt = None, bc_createdAt = now \<rparr> # rows))
       (draw_codes hmac256 hmacKey u now draws)"
| "draw_codes hmac256 hmacKey u now (_ # draws) = None"

definition Backup_Generate ::
  "mfa_crypto \<Rightarrow> ('c, 'k) BackupCodeHandler \<Rightarrow> mfa_env \<Rightarrow> mfa_request \<Rightarrow> 'c login_world \<Rightarrow> 'c login_world \<times> mfa_reply" where
  "Backup_Generate cr h e rq g =
     (case mq_claims rq of
        None \<Rightarrow> (g, Refused 401 ''unauthorized'')
      | Some claims \<Rightarrow>
          let u = c_sub claims in
          (case bc_DeleteAllForUser (me_write e) (ft_backup (g_factors g)) (me_db e) u of
             (rows, Inl _) \<Rightarrow> (on_factors (\<lambda>f. f\<lparr> ft_backup := rows \<rparr>) g, Refused 500 ''internal_error'')
           | (rows, Inr _) \<Rightarrow>
               let g1 = on_factors (\<lambda>f. f\<lparr> ft_backup := rows \<rparr>) g in
               (case draw_codes (cr_hmac256 cr) (bh_hmacKey h) u (me_now e) (map (me_codes e) [0..<backupCodeCount]) of
                  None \<Rightarrow> (g1, Refused 500 ''internal_error'')
                | Some (codes, dbCodes) \<Rightarrow>
                    (case bc_CreateBatch (me_create e) (ft_backup (g_factors g1)) dbCodes of
                       (rows', Inl _) \<Rightarrow> (on_factors (\<lambda>f. f\<lparr> ft_backup := rows' \<rparr>) g1, Refused 500 ''internal_error'')
                     | (rows', Inr _) \<Rightarrow>
                         (case revokeSessionsAfterFactorChange (bh_authSvc h) (me_revoke e) u
                                 (mfa_logEvent (bh_auditLog h) rq TwoFASetup u
                                    [(''method'', MStr ''backup_code''), (''action'', MStr ''enrolled''), (''count'', MInt (int backupCodeCount))]
                                    (on_factors (\<lambda>f. f\<lparr> ft_backup := rows' \<rparr>) g1)) of
                            (g2, False) \<Rightarrow> (g2, Refused 500 ''internal_error'')
                          | (g2, True) \<Rightarrow> (g2, Codes codes))))))"

text \<open>The scan keeps the last row that matches.\<close>

definition matched_code :: "(string \<Rightarrow> string \<Rightarrow> string) \<Rightarrow> string \<Rightarrow> string \<Rightarrow> BackupCode list \<Rightarrow> string" where
  "matched_code hmac256 hmacKey code codes =
     foldl (\<lambda>m c. if HMACVerify hmac256 code hmacKey (bc_hash c) then bc_id c else m) [] codes"

definition backup_redeem ::
  "('c, 'k) BackupCodeHandler \<Rightarrow> mfa_env \<Rightarrow> mfa_request \<Rightarrow> VaultClaims \<Rightarrow> string \<Rightarrow> 'c login_world \<Rightarrow> 'c login_world \<times> mfa_reply" where
  "backup_redeem h e rq claims matchedID g =
     (case bc_MarkUsed (me_write e) (ft_backup (g_factors g)) (me_db e) matchedID of
        (rows, Inl _) \<Rightarrow> (on_factors (\<lambda>f. f\<lparr> ft_backup := rows \<rparr>) g, Refused 500 ''internal_error'')
      | (rows, Inr False) \<Rightarrow> (on_factors (\<lambda>f. f\<lparr> ft_backup := rows \<rparr>) g, Refused 409 ''backup_code_already_used'')
      | (rows, Inr True) \<Rightarrow>
          finish_mfa (bh_authSvc h) (me_login e) rq claims MethodBackupCode
            (mfa_logEvent (bh_auditLog h) rq TwoFAVerify (c_sub claims) [(''method'', MStr ''backup_code'')]
               (on_factors (\<lambda>f. f\<lparr> ft_backup := rows \<rparr>) g)))"

definition Backup_Verify ::
  "mfa_crypto \<Rightarrow> ('c, 'k) BackupCodeHandler \<Rightarrow> mfa_env \<Rightarrow> mfa_request \<Rightarrow> 'c login_world \<Rightarrow> 'c login_world \<times> mfa_reply" where
  "Backup_Verify cr h e rq g =
     (case mq_claims rq of
        None \<Rightarrow> (g, Refused 401 ''unauthorized'')
      | Some claims \<Rightarrow>
          let u = c_sub claims in
          if mfa_locked (bh_authSvc h) e rq u g then (g, Refused 429 ''account_locked'')
          else (case mq_code rq of
                  None \<Rightarrow> (g, Refused 400 ''code_required'')
                | Some code \<Rightarrow>
                    if code = [] then (g, Refused 400 ''code_required'')
                    else (case bc_ListUnusedByUser (me_get e) (ft_backup (g_factors g)) u of
                            Inl _ \<Rightarrow> (g, Refused 500 ''internal_error'')
                          | Inr codes \<Rightarrow>
                              let matchedID = matched_code (cr_hmac256 cr) (bh_hmacKey h) code codes in
                              if matchedID = [] then (mfa_failed (bh_authSvc h) e rq u g, Refused 401 ''invalid_backup_code'')
                              else backup_redeem h e rq claims matchedID g)))"

section \<open>The emailed code and the status page\<close>

definition EmailOTP_Verify ::
  "mfa_crypto \<Rightarrow> ('c, 'k) EmailOTPHandler \<Rightarrow> mfa_env \<Rightarrow> mfa_request \<Rightarrow> 'c login_world \<Rightarrow> 'c login_world \<times> mfa_reply" where
  "EmailOTP_Verify cr h e rq g =
     (case mq_claims rq of
        None \<Rightarrow> (g, Refused 401 ''unauthorized'')
      | Some claims \<Rightarrow>
          let u = c_sub claims in
          if mfa_locked (eh_authSvc h) e rq u g then (g, Refused 429 ''account_locked'')
          else (case mq_code rq of
                  None \<Rightarrow> (g, Refused 400 ''invalid_code'')
                | Some code \<Rightarrow>
                    if \<not> isValidTOTPCode code then (g, Refused 400 ''invalid_code'')
                    else (case eh_authSvc h of
                            None \<Rightarrow> (g, Panicked)
                          | Some s \<Rightarrow>
                              (case VerifyEmailOTP (cr_hmac256 cr) (eh_hmacSecret h) (ls_mfa s) (lk_cache (ls_lock s)) (me_reads e)
                                      (g_factors g) (me_once e) (lw_cache (g_lock g)) u code of
                                 (c', False) \<Rightarrow> (mfa_failed (Some s) e rq u (on_cache c' g), Refused 401 ''invalid_code'')
                               | (c', True) \<Rightarrow> finish_mfa (Some s) (me_login e) rq claims MethodEmailOTP (on_cache c' g)))))"

text \<open>The mail that goes out, if one does, is the third part.\<close>

definition EmailOTP_Resend ::
  "mfa_crypto \<Rightarrow> ('c, 'k) EmailOTPHandler \<Rightarrow> mfa_env \<Rightarrow> mfa_request \<Rightarrow> 'c login_world \<Rightarrow> 'c login_world \<times> mfa_reply \<times> (string \<times> string) list" where
  "EmailOTP_Resend cr h e rq g =
     (case mq_claims rq of
        None \<Rightarrow> (g, Refused 401 ''unauthorized'', [])
      | Some claims \<Rightarrow>
          (case (if me_get e then map_of (lw_users (g_lock g)) (c_sub claims) else None) of
             None \<Rightarrow> (g, Refused 401 ''unauthorized'', [])
           | Some user \<Rightarrow>
               (case eh_authSvc h of
                  None \<Rightarrow> (g, Panicked, [])
                | Some s \<Rightarrow>
                    (case doSendEmailOTP (cr_hmac256 cr) (eh_hmacSecret h) (ls_mfa s) (lk_cache (ls_lock s)) (eh_sends h) (me_secret e)
                            (me_reads e) (g_factors g) (me_once e) (lw_cache (g_lock g)) (c_sub claims) (u_email user) of
                       (c', Inl _, mail) \<Rightarrow> (on_cache c' g, Refused 500 ''internal_error'', mail)
                     | (c', Inr _, mail) \<Rightarrow> (on_cache c' g, StatusOk ''sent'', mail)))))"

definition MFA_Status :: "bool \<Rightarrow> mfa_env \<Rightarrow> mfa_request \<Rightarrow> 'c login_world \<Rightarrow> mfa_reply" where
  "MFA_Status required e rq g =
     (case mq_claims rq of
        None \<Rightarrow> Refused 401 ''unauthorized''
      | Some claims \<Rightarrow>
          (case mfa_GetStatus required (me_reads e) (g_factors g) (c_sub claims) of
             Inl _ \<Rightarrow> Refused 500 ''internal_error''
           | Inr status \<Rightarrow> FactorStatus status))"

section \<open>No time step is accepted twice\<close>

lemma on_simps [simp]:
  "g_lock (on_factors f g) = g_lock g" "lw_cache (g_lock (on_cache c g)) = c" "lw_cache (g_lock (mfa_logEvent a rq ev u m g)) = lw_cache (g_lock g)"
  "g_factors (on_factors f g) = f (g_factors g)" "g_factors (on_cache c g) = g_factors g" "g_factors (mfa_logEvent a rq ev u m g) = g_factors g"
  "g_rows (on_factors f g) = g_rows g" "g_rows (mfa_logEvent a rq ev u m g) = g_rows g"
  by (simp_all add: on_factors_def on_cache_def mfa_logEvent_def lw_Log_def)

text \<open>Completing a challenge touches only the challenge's own key and the lockout counter of the address.\<close>

definition by_completion :: "login_env \<Rightarrow> time \<times> mem_op \<Rightarrow> bool" where
  "by_completion e op \<longleftrightarrow> spares_keys ''totp_used:'' (snd op) \<and> (fst op = kl_once e \<or> fst op = kl_clear e 1)"

lemma claim_challenge_cache:
  assumes "claim_challenge s t jti g = (g1, r)" "lk_cache (ls_lock s) = Some memory_cache"
  shows "\<exists>ops. lw_cache (g_lock g1) = foldl mem_exec (lw_cache (g_lock g)) ops \<and> list_all (\<lambda>op. spares_keys ''totp_used:'' (snd op) \<and> fst op = t) ops"
proof (cases "jti = []")
  case True
  with assms show ?thesis by (intro exI [of _ "[]"]) (auto simp: claim_challenge_def)
next
  case False
  with assms have "lw_cache (g_lock g1) = fst (mem_SetIfNotExists (lw_cache (g_lock g)) t (challengeKey jti) ''1'' (5 * Minute))"
    by (auto simp: claim_challenge_def split: prod.splits sum.splits bool.splits)
  then show ?thesis by (intro exI [of _ "[(t, MSetIfNotExists (challengeKey jti) ''1'' (5 * Minute))]"]) simp
qed

lemma clearLockout_cache:
  assumes "lk_cache k = Some memory_cache"
  shows "\<exists>ops. lw_cache (clearLockout k clk w u ip) = foldl mem_exec (lw_cache w) ops \<and>
    list_all (\<lambda>op. spares_keys ''totp_used:'' (snd op) \<and> fst op = clk 1) ops"
proof (cases "lockoutGeneration memory_cache (lw_cache w) (clk 0) u")
  case None
  with assms show ?thesis by (intro exI [of _ "[]"]) (simp add: clearLockout_def)
next
  case (Some n)
  with assms show ?thesis
    by (intro exI [of _ "[(clk 1, MDelete (sourceLockoutKey u ip n))]"]) (simp add: clearLockout_def sourceLockoutKey_def)
qed

lemma after_claim_cache:
  assumes "CompleteMFALogin s e userID fp ip ua jti c g = (g', r)" "claim_challenge s (kl_once e) jti g = (g1, Inr ())"
  shows "lw_cache (g_lock g') = lw_cache (clearLockout (ls_lock s) (kl_clear e) (g_lock g1) userID ip)"
  using assms
  by (auto simp: CompleteMFALogin_def Let_def dest!: issue_session_cache g_device_frame g_checkSessionLimit_frame
      split: prod.splits sum.splits option.splits if_splits)

lemma CompleteMFALogin_cache:
  assumes "CompleteMFALogin s e userID fp ip ua jti c g = (g', r)" "lk_cache (ls_lock s) = Some memory_cache"
  shows "\<exists>ops. lw_cache (g_lock g') = foldl mem_exec (lw_cache (g_lock g)) ops \<and> list_all (by_completion e) ops"
proof -
  obtain g1 q where c: "claim_challenge s (kl_once e) jti g = (g1, q)" by fastforce
  from claim_challenge_cache [OF c assms(2)] obtain ops1 where ops1: "lw_cache (g_lock g1) = foldl mem_exec (lw_cache (g_lock g)) ops1"
    "list_all (by_completion e) ops1" by (auto simp: by_completion_def list_all_iff)
  show ?thesis
  proof (cases q)
    case (Inl err)
    with assms(1) c have "g' = g1" by (simp add: CompleteMFALogin_def)
    with ops1 show ?thesis by blast
  next
    case (Inr x)
    from clearLockout_cache [OF assms(2)] obtain ops2 where
      "lw_cache (clearLockout (ls_lock s) (kl_clear e) (g_lock g1) userID ip) = foldl mem_exec (lw_cache (g_lock g1)) ops2"
      "list_all (by_completion e) ops2" by (fastforce simp: by_completion_def list_all_iff)
    with after_claim_cache [OF assms(1)] c Inr ops1 show ?thesis by (intro exI [of _ "ops1 @ ops2"]) simp
  qed
qed

definition memory_wired :: "(MemoryCache, 'k) login_svc option \<Rightarrow> bool" where
  "memory_wired svc \<longleftrightarrow> (case svc of None \<Rightarrow> True | Some s \<Rightarrow> lk_cache (ls_lock s) = Some memory_cache)"

lemma finish_mfa_cache:
  assumes "finish_mfa svc e rq claims meth g = (g', r)" "memory_wired svc"
  shows "\<exists>ops. lw_cache (g_lock g') = foldl mem_exec (lw_cache (g_lock g)) ops \<and> list_all (by_completion e) ops"
proof (cases "svc = None \<or> c_token_type claims \<noteq> ''2fa_challenge''")
  case True
  with assms(1) have "g' = g" by (auto simp: finish_mfa_def completeMFAIfChallenge_def split: option.splits)
  then show ?thesis by (intro exI [of _ "[]"]) simp
next
  case False
  then obtain s where s: "svc = Some s" "c_token_type claims = ''2fa_challenge''" by auto
  let ?fp = "ComputeFingerprint (dp_sha (ls_deps s)) ((mq_fp rq)\<lparr> fi_ip := mq_ip rq, fi_userAgent := mq_ua rq \<rparr>)"
  obtain g1 b where m: "ChallengeFingerprintMatches (c_sub claims) (c_fingerprint claims) ?fp (mq_ip rq) (mq_ua rq) g = (g1, b)" by fastforce
  have g1: "lw_cache (g_lock g1) = lw_cache (g_lock g)"
    using m by (auto simp: ChallengeFingerprintMatches_def g_Log_def put_session_def session_view_def split: if_splits)
  show ?thesis
  proof (cases b)
    case False
    with assms(1) s m have "g' = g1" by (auto simp: finish_mfa_def completeMFAIfChallenge_def Let_def)
    with g1 show ?thesis by (intro exI [of _ "[]"]) simp
  next
    case True
    with assms(1) s m obtain q where
      "CompleteMFALogin s e (c_sub claims) ?fp (mq_ip rq) (mq_ua rq) (c_jti claims)
         \<lparr> mc_method = meth, mc_userVerified = False, mc_prior = c_factors claims \<rparr> g1 = (g', q)"
      by (auto simp: finish_mfa_def completeMFAIfChallenge_def Let_def split: prod.splits sum.splits)
    from CompleteMFALogin_cache [OF this] assms(2) s g1 show ?thesis by (simp add: memory_wired_def)
  qed
qed

text \<open>The time step the submitted code proves, if the request gets that far.\<close>

definition totp_step :: "mfa_crypto \<Rightarrow> ('c, 'k) TOTPHandler \<Rightarrow> mfa_env \<Rightarrow> mfa_request \<Rightarrow> 'c login_world \<Rightarrow> int option" where
  "totp_step cr h e rq g =
     (case (mq_claims rq, mq_code rq) of
        (Some claims, Some code) \<Rightarrow>
          (case tp_GetByUserID (me_get e) (ft_totp (g_factors g)) (c_sub claims) of
             Inr (Some totp) \<Rightarrow>
               (case totp_secret cr (th_masterKey h) (c_sub claims) totp of
                  None \<Rightarrow> None
                | Some secret \<Rightarrow> (case ValidateTOTPCode (cr_hmac1 cr) (cr_upper cr) secret code (me_now e) of Inl _ \<Rightarrow> None | Inr step \<Rightarrow> Some step))
           | _ \<Rightarrow> None)
      | _ \<Rightarrow> None)"

lemma TOTP_Verify_accepted:
  assumes "TOTP_Verify cr h e rq g = (g', r)" "accepted r" "mq_claims rq = Some claims"
  obtains totp step where "totp_step cr h e rq g = Some step" "0 \<le> step" "\<bar>step - go_div (Unix (me_now e)) totpPeriod\<bar> \<le> 1"
    "totp_proved h e rq claims totp step g = (g', r)"
proof -
  from assms obtain code totp secret step where c: "mq_code rq = Some code" "tp_GetByUserID (me_get e) (ft_totp (g_factors g)) (c_sub claims) = Inr (Some totp)"
    "totp_secret cr (th_masterKey h) (c_sub claims) totp = Some secret"
    and v: "ValidateTOTPCode (cr_hmac1 cr) (cr_upper cr) secret code (me_now e) = Inr step" "0 \<le> step"
    and p: "totp_proved h e rq claims totp step g = (g', r)"
    unfolding TOTP_Verify_def Let_def by (auto split: option.splits if_splits sum.splits)
  from v obtain key where "totp_scan (cr_hmac1 cr) key code (go_div (Unix (me_now e)) totpPeriod) [- totpSkew .. totpSkew] = step"
    by (auto simp: ValidateTOTPCode_def split: option.splits)
  from totp_scan_found [OF this v(2)] have "\<bar>step - go_div (Unix (me_now e)) totpPeriod\<bar> \<le> 1" unfolding skew_offsets by auto
  with that [OF _ v(2) this p] c v(1) assms(3) show thesis by (simp add: totp_step_def)
qed

lemma totp_proved_accepted:
  assumes "totp_proved h e rq claims totp step g = (g', r)" "accepted r" "th_cache h = Some memory_cache" "memory_wired (th_authSvc h)"
  obtains m1 ops where "SetIfNotExists memory_cache (lw_cache (g_lock g)) (me_once e) (totpUsedKey (c_sub claims) step) ''1'' totpUsedTTL = (m1, Inr True)"
    "lw_cache (g_lock g') = foldl mem_exec m1 ops" "list_all (by_completion (me_login e)) ops"
proof -
  obtain m1 q where s: "SetIfNotExists memory_cache (lw_cache (g_lock g)) (me_once e) (totpUsedKey (c_sub claims) step) ''1'' totpUsedTTL = (m1, q)"
    by fastforce
  with assms(1-3) have q: "q = Inr True" by (auto simp: totp_proved_def split: sum.splits bool.splits)
  with s assms(1,3) obtain g2 where f: "finish_mfa (th_authSvc h) (me_login e) rq claims MethodTOTP g2 = (g', r)" "lw_cache (g_lock g2) = m1"
    by (auto simp: totp_proved_def Let_def)
  from finish_mfa_cache [OF f(1) assms(4)] f(2) obtain ops where "lw_cache (g_lock g') = foldl mem_exec m1 ops" "list_all (by_completion (me_login e)) ops"
    by auto
  from that [OF s [unfolded q] this] show thesis .
qed

lemma step_window:
  assumes "\<bar>s - go_div (Unix t1) totpPeriod\<bar> \<le> 1" "\<bar>s - go_div (Unix t2) totpPeriod\<bar> \<le> 1" "0 \<le> Unix t1" "0 \<le> Unix t2"
  shows "t2 < t1 + totpUsedTTL"
proof -
  have "Unix t2 < Unix t1 + 90" using assms by (simp add: go_div_def totpPeriod_def)
  then show ?thesis by (simp add: Unix_def totpUsedTTL_def)
qed


section \<open>A backup code is spent once\<close>

datatype bc_op =
    BcCreate bool "BackupCode list"
  | BcMarkUsed bool time string
  | BcDeleteAll bool time string
  | BcPurge bool string

fun bc_exec :: "BackupCode list \<Rightarrow> bc_op \<Rightarrow> BackupCode list" where
  "bc_exec rows (BcCreate up codes) = fst (bc_CreateBatch up rows codes)"
| "bc_exec rows (BcMarkUsed up now i) = fst (bc_MarkUsed up rows now i)"
| "bc_exec rows (BcDeleteAll up now u) = fst (bc_DeleteAllForUser up rows now u)"
| "bc_exec rows (BcPurge up u) = fst (bc_PurgeAllForUser up rows u)"

text \<open>Row ids are fresh random draws: no later row takes the id of an earlier one.\<close>

fun id_unused :: "string \<Rightarrow> bc_op \<Rightarrow> bool" where
  "id_unused i (BcCreate up codes) \<longleftrightarrow> i \<notin> bc_id ` set codes"
| "id_unused i _ \<longleftrightarrow> True"

definition bc_spent :: "string \<Rightarrow> BackupCode list \<Rightarrow> bool" where
  "bc_spent i rows \<longleftrightarrow> (\<forall>r \<in> set rows. bc_id r = i \<longrightarrow> bc_used r)"

interpretation bcs: step_invariant bc_exec "id_unused i" "bc_spent i" for i
proof
  fix rows op
  assume "bc_spent i rows" "id_unused i op"
  then show "bc_spent i (bc_exec rows op)"
    by (cases op) (auto simp: bc_spent_def bc_CreateBatch_def bc_MarkUsed_def bc_DeleteAllForUser_def bc_PurgeAllForUser_def bc_spend_def)
qed

lemma put_session_factors [simp]: "g_factors (put_session w g) = g_factors g" "g_factors (g_Log ev u c ip ua fp d m g) = g_factors g"
  by (simp_all add: put_session_def g_Log_def)

lemma claim_challenge_factors: "claim_challenge s t jti g = (g', r) \<Longrightarrow> g_factors g' = g_factors g"
  by (auto simp: claim_challenge_def split: prod.splits sum.splits option.splits if_splits bool.splits)

lemma g_checkSessionLimit_factors: "g_checkSessionLimit s e u g = (g', r) \<Longrightarrow> g_factors g' = g_factors g"
  by (auto simp: g_checkSessionLimit_def split: prod.splits sum.splits)

lemma g_device_factors: "g_device e u fp ip ua g = (g', i) \<Longrightarrow> g_factors g' = g_factors g"
  by (auto simp: g_device_def split: prod.splits)

lemma issue_session_factors:
  "issue_session s e userID user clientID fp remember ms uv deviceID ip ua m g = (g', r) \<Longrightarrow> g_factors g' = g_factors g"
  by (auto simp: issue_session_def Let_def split: prod.splits sum.splits)

lemma CompleteMFALogin_factors: "CompleteMFALogin s e userID fp ip ua jti c g = (g', r) \<Longrightarrow> g_factors g' = g_factors g"
  unfolding CompleteMFALogin_def Let_def
  by (auto dest!: claim_challenge_factors g_checkSessionLimit_factors g_device_factors issue_session_factors
      split: prod.splits sum.splits option.splits)

lemma ChallengeFingerprintMatches_factors: "ChallengeFingerprintMatches u a b ip ua g = (g', r) \<Longrightarrow> g_factors g' = g_factors g"
  by (auto simp: ChallengeFingerprintMatches_def split: if_splits)

lemma completeMFAIfChallenge_factors: "completeMFAIfChallenge svc e rq claims c g = (g', r) \<Longrightarrow> g_factors g' = g_factors g"
  unfolding completeMFAIfChallenge_def Let_def
  by (auto dest!: CompleteMFALogin_factors ChallengeFingerprintMatches_factors split: prod.splits sum.splits option.splits if_splits bool.splits)

lemma finish_mfa_factors: "finish_mfa svc e rq claims meth g = (g', r) \<Longrightarrow> g_factors g' = g_factors g"
  unfolding finish_mfa_def by (auto dest!: completeMFAIfChallenge_factors split: prod.splits option.splits)

lemma bc_MarkUsed_won:
  assumes "bc_MarkUsed up rows now i = (rows', Inr True)"
  shows "\<not> bc_spent i rows \<and> bc_spent i rows'"
proof
  from assms have "filter (\<lambda>r. bc_id r = i \<and> \<not> bc_used r) rows \<noteq> []" by (auto simp: bc_MarkUsed_def split: if_splits)
  then show "\<not> bc_spent i rows" by (auto simp: bc_spent_def filter_empty_conv)
  have "bc_spent i (map (\<lambda>r. if bc_id r = i \<and> \<not> bc_used r then bc_spend now r else r) rows)"
    unfolding bc_spent_def set_map ball_simps by (simp add: bc_spend_def)
  moreover from assms have "map (\<lambda>r. if bc_id r = i \<and> \<not> bc_used r then bc_spend now r else r) rows = rows'"
    by (simp add: bc_MarkUsed_def split: if_splits)
  ultimately show "bc_spent i rows'" by simp
qed

lemma backup_redeem_accepted:
  assumes "backup_redeem h e rq claims i g = (g', r)" "accepted r"
  shows "\<not> bc_spent i (ft_backup (g_factors g)) \<and> bc_spent i (ft_backup (g_factors g'))"
proof -
  obtain rows q where m: "bc_MarkUsed (me_write e) (ft_backup (g_factors g)) (me_db e) i = (rows, q)" by fastforce
  with assms have q: "q = Inr True" by (auto simp: backup_redeem_def split: sum.splits bool.splits)
  with assms(1) m have "ft_backup (g_factors g') = rows" by (auto simp: backup_redeem_def dest!: finish_mfa_factors)
  with bc_MarkUsed_won m q show ?thesis by blast
qed

lemma matched_code_in:
  assumes "matched_code hmac256 k code codes = i" "i \<noteq> []"
  shows "\<exists>c \<in> set codes. bc_id c = i \<and> HMACVerify hmac256 code k (bc_hash c)"
proof -
  have "foldl (\<lambda>m c. if HMACVerify hmac256 code k (bc_hash c) then bc_id c else m) x codes = i \<Longrightarrow> x \<noteq> i \<Longrightarrow>
      \<exists>c \<in> set codes. bc_id c = i \<and> HMACVerify hmac256 code k (bc_hash c)" for x
    by (induction codes arbitrary: x) (auto split: if_splits)
  with assms show ?thesis by (auto simp: matched_code_def)
qed

lemma Backup_Verify_accepted:
  assumes "Backup_Verify cr h e rq g = (g', r)" "accepted r" "mq_claims rq = Some claims" "mq_code rq = Some code"
  obtains row where "row \<in> set (ft_backup (g_factors g))" "bc_user row = c_sub claims" "\<not> bc_used row"
    "HMACVerify (cr_hmac256 cr) code (bh_hmacKey h) (bc_hash row)" "backup_redeem h e rq claims (bc_id row) g = (g', r)"
proof -
  from assms obtain codes i where l: "bc_ListUnusedByUser (me_get e) (ft_backup (g_factors g)) (c_sub claims) = Inr codes"
    and i: "matched_code (cr_hmac256 cr) (bh_hmacKey h) code codes = i" "i \<noteq> []" and r: "backup_redeem h e rq claims i g = (g', r)"
    unfolding Backup_Verify_def Let_def by (auto split: option.splits if_splits sum.splits)
  from matched_code_in [OF i] obtain row where "row \<in> set codes" "bc_id row = i" "HMACVerify (cr_hmac256 cr) code (bh_hmacKey h) (bc_hash row)" by blast
  with l r that [of row] show thesis by (auto simp: bc_ListUnusedByUser_def split: if_splits)
qed

text \<open>
  C7: A backup code opens one login. A request that is accepted found an unspent row of its own user that
  verifies the code; from then on no request redeems that row, not even one that listed the unspent codes
  earlier, whatever else is generated, spent, replaced or purged in between.
\<close>

theorem backup_code_spent_once:
  assumes "Backup_Verify cr h e1 rq1 g = (g1, r1)" "accepted r1" "mq_claims rq1 = Some c1" "mq_code rq1 = Some code"
  shows "\<exists>row \<in> set (ft_backup (g_factors g)). bc_user row = c_sub c1 \<and> \<not> bc_used row \<and>
    HMACVerify (cr_hmac256 cr) code (bh_hmacKey h) (bc_hash row) \<and>
    (\<forall>h2 e2 rq2 c2 g2 ops. ft_backup (g_factors g2) = foldl bc_exec (ft_backup (g_factors g1)) ops \<longrightarrow> list_all (id_unused (bc_id row)) ops \<longrightarrow>
       \<not> accepted (snd (backup_redeem h2 e2 rq2 c2 (bc_id row) g2)))"
proof -
  from Backup_Verify_accepted [OF assms] obtain row where row: "row \<in> set (ft_backup (g_factors g))" "bc_user row = c_sub c1" "\<not> bc_used row"
    "HMACVerify (cr_hmac256 cr) code (bh_hmacKey h) (bc_hash row)" and r: "backup_redeem h e1 rq1 c1 (bc_id row) g = (g1, r1)" .
  from backup_redeem_accepted [OF r assms(2)] have spent: "bc_spent (bc_id row) (ft_backup (g_factors g1))" by simp
  have "\<not> accepted (snd (backup_redeem h2 e2 rq2 c2 (bc_id row) g2))"
    if "ft_backup (g_factors g2) = foldl bc_exec (ft_backup (g_factors g1)) ops" "list_all (id_unused (bc_id row)) ops" for h2 e2 rq2 c2 g2 ops
    using backup_redeem_accepted [of h2 e2 rq2 c2 "bc_id row" g2] bcs.run_keeps [OF spent that(2)] that(1) by (metis prod.collapse)
  with row show ?thesis by blast
qed

section \<open>A factor change ends every session\<close>

lemma revoke_ends_sessions:
  assumes "revokeSessionsAfterFactorChange (Some s) up u g = (g', True)"
  shows "g_rows g' = map (\<lambda>r. if r_user r = u \<and> \<not> r_revoked r then r\<lparr> r_revoked := True \<rparr> else r) (g_rows g)"
  using assms
  by (auto simp: revokeSessionsAfterFactorChange_def RevokeAllTokensForUser_def rt_RevokeAllForUser_def lockThenWrite_def update_rows_def
      put_session_def session_view_def split: prod.splits sum.splits if_splits)

lemma factor_change_revokes:
  assumes "(g', r) \<in> {TOTP_Setup cr th e rq g, TOTP_Disable th e rq g, Backup_Generate cr bh e rq g}" "\<nexists>n m. r = Refused n m"
    and "mq_claims rq = Some claims" "th_authSvc th = Some s" "bh_authSvc bh = Some s"
  obtains g1 where "revokeSessionsAfterFactorChange (Some s) (me_revoke e) (c_sub claims) g1 = (g', True)" "g_rows g1 = g_rows g"
proof -
  have "\<exists>g1. revokeSessionsAfterFactorChange (Some s) (me_revoke e) (c_sub claims) g1 = (g', True) \<and> g_rows g1 = g_rows g"
    if "TOTP_Setup cr th e rq g = (g', r)"
    using that assms(2-4) by (auto simp: TOTP_Setup_def Let_def split: option.splits if_splits sum.splits prod.splits bool.splits)
  moreover have "\<exists>g1. revokeSessionsAfterFactorChange (Some s) (me_revoke e) (c_sub claims) g1 = (g', True) \<and> g_rows g1 = g_rows g"
    if "TOTP_Disable th e rq g = (g', r)"
    using that assms(2-4) by (auto simp: TOTP_Disable_def Let_def split: option.splits if_splits sum.splits prod.splits bool.splits)
  moreover have "\<exists>g1. revokeSessionsAfterFactorChange (Some s) (me_revoke e) (c_sub claims) g1 = (g', True) \<and> g_rows g1 = g_rows g"
    if "Backup_Generate cr bh e rq g = (g', r)"
    using that assms(2,3,5) by (auto simp: Backup_Generate_def Let_def split: option.splits if_splits sum.splits prod.splits bool.splits)
  ultimately have "\<exists>g1. revokeSessionsAfterFactorChange (Some s) (me_revoke e) (c_sub claims) g1 = (g', True) \<and> g_rows g1 = g_rows g"
    using assms(1) by fastforce
  with that show thesis by blast
qed

text \<open>
  C16: Changing a second factor ends every session. When enrolling an authenticator app, removing it or
  printing new backup codes is reported as done, every refresh token of the account is revoked and every
  other account's tokens are as they were; when the revocation does not land the request is refused.
\<close>

theorem factor_change_ends_every_session:
  assumes "(g', r) \<in> {TOTP_Setup cr th e rq g, TOTP_Disable th e rq g, Backup_Generate cr bh e rq g}" "\<nexists>n m. r = Refused n m"
    and "mq_claims rq = Some claims" "th_authSvc th = Some s" "bh_authSvc bh = Some s"
  shows "(\<forall>row \<in> set (g_rows g'). r_user row = c_sub claims \<longrightarrow> r_revoked row) \<and>
    filter (\<lambda>row. r_user row \<noteq> c_sub claims) (g_rows g') = filter (\<lambda>row. r_user row \<noteq> c_sub claims) (g_rows g)"
proof -
  from factor_change_revokes [OF assms] obtain g1 where g1: "revokeSessionsAfterFactorChange (Some s) (me_revoke e) (c_sub claims) g1 = (g', True)"
    "g_rows g1 = g_rows g" .
  let ?f = "\<lambda>r. if r_user r = c_sub claims \<and> \<not> r_revoked r then r\<lparr> r_revoked := True \<rparr> else r"
  have rows: "g_rows g' = map ?f (g_rows g)" using revoke_ends_sessions [OF g1(1)] g1(2) by simp
  have "filter (\<lambda>row. r_user row \<noteq> c_sub claims) (map ?f xs) = filter (\<lambda>row. r_user row \<noteq> c_sub claims) xs" for xs
    by (induction xs) auto
  moreover have "\<forall>row \<in> set (map ?f xs). r_user row = c_sub claims \<longrightarrow> r_revoked row" for xs by auto
  ultimately show ?thesis unfolding rows by blast
qed

section \<open>A sample deployment of the endpoints\<close>

definition sample_crypto :: mfa_crypto where
  "sample_crypto = \<lparr> cr_gcm = \<lparr> gcm_seal = (\<lambda>k n p a. p), gcm_open = (\<lambda>k n c a. Some c) \<rparr>, cr_hmac1 = (\<lambda>k m. replicate 20 (CHR ''x'')),
     cr_hmac256 = (\<lambda>k m. m), cr_upper = id \<rparr>"

definition sample_totp_handler :: "(MemoryCache, nat) TOTPHandler" where
  "sample_totp_handler = \<lparr> th_masterKey = replicate 32 (CHR ''k''), th_issuer = ''vault42'', th_cache = Some memory_cache,
     th_authSvc = Some sample_login, th_auditLog = True \<rparr>"

definition sample_backup_handler :: "(MemoryCache, nat) BackupCodeHandler" where
  "sample_backup_handler = \<lparr> bh_hmacKey = ''k'', bh_authSvc = Some sample_login, bh_auditLog = True \<rparr>"

definition sample_claims :: VaultClaims where
  "sample_claims = \<lparr> c_iss = [], c_aud = [], c_sub = ''u'', c_exp = None, c_nbf = None, c_iat = None, c_jti = ''j'', c_roles = [], c_scopes = [],
     c_client_id = [], c_fingerprint = [], c_cnf = None, c_token_type = ''Bearer'', c_minted_by = [], c_acr = [], c_amr = [], c_auth_time = 0,
     c_factors = [], c_email = [] \<rparr>"

definition sample_mfa_request :: "string \<Rightarrow> mfa_request" where
  "sample_mfa_request code = \<lparr> mq_claims = Some sample_claims, mq_code = Some code, mq_ip = ''ip'', mq_ctxIP = ''ip'', mq_ua = ''ua'', mq_fp = rq_fp sample_rq \<rparr>"

definition sample_mfa_env :: "int \<Rightarrow> mfa_env" where
  "sample_mfa_env sec = \<lparr> me_login = sample_login_env, me_get = True, me_write = True, me_create = True, me_revoke = (\<lambda>_. True), me_reads = all_reads,
     me_secret = Some ''seed'', me_nonce = Some (replicate 12 (CHR ''n'')), me_id = Some ''i'', me_codes = (\<lambda>n. (Some ''c'', Some (replicate n (CHR ''b'')))),
     me_gate = (\<lambda>_. at_second sec), me_fail = (\<lambda>_. at_second sec), me_now = at_second sec, me_once = at_second sec, me_db = at_second sec \<rparr>"

definition sample_code_row :: BackupCode where
  "sample_code_row = \<lparr> bc_id = ''b'', bc_user = ''u'', bc_hash = HMACSign (cr_hmac256 sample_crypto) ''c'' ''k'', bc_used = False, bc_usedAt = None, bc_createdAt = 0 \<rparr>"

definition sample_enrolled :: "MemoryCache login_world" where
  "sample_enrolled = (sample_login_world sample_account)\<lparr> g_factors := no_factors\<lparr> ft_backup := [sample_code_row],
     ft_totp := [\<lparr> tp_id = ''t'', tp_user = ''u'', tp_secretEnc = hex_EncodeToString (replicate 12 (CHR ''n'') @ base32_EncodeToString ''seed''),
       tp_verified = True, tp_createdAt = 0 \<rparr>] \<rparr> \<rparr>"

lemma finish_mfa_session: "c_token_type claims \<noteq> ''2fa_challenge'' \<Longrightarrow> finish_mfa svc e rq claims meth g = (g, Verified)"
  by (simp add: finish_mfa_def completeMFAIfChallenge_def split: option.split)

lemma sample_mfa_simps [simp]:
  "mq_claims (sample_mfa_request code) = Some sample_claims" "mq_code (sample_mfa_request code) = Some code" "mq_ctxIP (sample_mfa_request code) = ''ip''"
  "c_sub sample_claims = ''u''" "c_token_type sample_claims = ''Bearer''"
  "ft_backup (g_factors sample_enrolled) = [sample_code_row]" "g_lock sample_enrolled = g_lock (sample_login_world sample_account)"
  "bc_id sample_code_row = ''b''" "bc_user sample_code_row = ''u''" "\<not> bc_used sample_code_row"
  "th_authSvc sample_totp_handler = Some sample_login" "bh_authSvc sample_backup_handler = Some sample_login" "bh_hmacKey sample_backup_handler = ''k''"
  "th_cache sample_totp_handler = Some memory_cache" "th_masterKey sample_totp_handler = replicate 32 (CHR ''k'')"
  "me_get (sample_mfa_env n)" "me_write (sample_mfa_env n)" "me_create (sample_mfa_env n)" "me_revoke (sample_mfa_env n) = (\<lambda>_. True)"
  "me_now (sample_mfa_env n) = at_second n" "me_once (sample_mfa_env n) = at_second n" "me_login (sample_mfa_env n) = sample_login_env"
  by (simp_all add: sample_mfa_request_def sample_claims_def sample_enrolled_def sample_code_row_def sample_totp_handler_def sample_backup_handler_def sample_mfa_env_def)

lemma sample_unlocked_world:
  assumes "\<And>q. prefix ''lockout'' q \<Longrightarrow> map_of (mc_data (lw_cache (g_lock g))) q = None"
    and "lw_users (g_lock g) = [(''u'', sample_account)]" "lw_refusedAt (g_lock g) = 0"
  shows "\<not> mfa_locked (Some sample_login) (sample_mfa_env n) (sample_mfa_request code) ''u'' g"
proof -
  have "prefix ''lockout'' q \<Longrightarrow> mem_Get (lw_cache (g_lock g)) t q = Inl ErrNotFound" for t q using assms(1) by (simp add: mem_Get_def)
  with assms(2,3) show ?thesis
    by (simp add: mfa_locked_def MFAVerifyLocked_def isAccountLocked_def lockoutGeneration_def cachedCount_def lockedByStoredCount_def lockoutThreshold_def
        lockoutCountersUnwritable_def sample_lock_def distributedLockoutThreshold_def accountLockoutKey_def sourceLockoutKey_def lockoutGenerationKey_def)
qed

lemma sample_mfa_unlocked: "\<not> mfa_locked (Some sample_login) (sample_mfa_env n) (sample_mfa_request code) ''u'' sample_enrolled"
  by (rule sample_unlocked_world) (simp_all add: sample_login_world_def)

theorem backup_code_spent_once_witness:
  "\<exists>g1 r1. Backup_Verify sample_crypto sample_backup_handler (sample_mfa_env 60) (sample_mfa_request ''c'') sample_enrolled = (g1, r1) \<and> accepted r1 \<and>
     \<not> accepted (snd (backup_redeem sample_backup_handler (sample_mfa_env 61) (sample_mfa_request ''c'') sample_claims ''b'' g1))"
proof -
  have "HMACVerify (cr_hmac256 sample_crypto) ''c'' ''k'' (bc_hash sample_code_row)"
    by (simp add: HMACVerify_def sample_code_row_def SecureCompare_def)
  then obtain g1 where v: "Backup_Verify sample_crypto sample_backup_handler (sample_mfa_env 60) (sample_mfa_request ''c'') sample_enrolled = (g1, Verified)"
    by (simp add: Backup_Verify_def sample_mfa_unlocked bc_ListUnusedByUser_def matched_code_def backup_redeem_def bc_MarkUsed_def finish_mfa_session)
  from backup_code_spent_once [OF v, of sample_claims "''c''"] obtain row where "row \<in> set (ft_backup (g_factors sample_enrolled))"
    "\<forall>(h2 :: (MemoryCache, nat) BackupCodeHandler) e2 rq2 c2 g2 ops. ft_backup (g_factors g2) = foldl bc_exec (ft_backup (g_factors g1)) ops \<longrightarrow> list_all (id_unused (bc_id row)) ops \<longrightarrow>
       \<not> accepted (snd (backup_redeem h2 e2 rq2 c2 (bc_id row) g2))" by auto
  from this(2) [rule_format, of g1 "[]"] this(1) v show ?thesis by auto
qed

theorem factor_change_ends_every_session_witness:
  "\<exists>g' r. TOTP_Disable sample_totp_handler (sample_mfa_env 60) (sample_mfa_request []) (sample_enrolled\<lparr> g_rows := rd_rows sample_db \<rparr>) = (g', r) \<and>
     r = StatusOk ''totp_disabled'' \<and> (\<forall>row \<in> set (g_rows g'). r_user row = ''u'' \<longrightarrow> r_revoked row)"
proof -
  obtain g' where v: "TOTP_Disable sample_totp_handler (sample_mfa_env 60) (sample_mfa_request []) (sample_enrolled\<lparr> g_rows := rd_rows sample_db \<rparr>) =
      (g', StatusOk ''totp_disabled'')"
    by (simp add: TOTP_Disable_def Let_def tp_GetByUserID_def sample_enrolled_def tp_DeleteByUserID_def revokeSessionsAfterFactorChange_def
        RevokeAllTokensForUser_def rt_RevokeAllForUser_def lockThenWrite_def)
  have "(g', StatusOk ''totp_disabled'') \<in> {TOTP_Setup sample_crypto sample_totp_handler (sample_mfa_env 60) (sample_mfa_request []) (sample_enrolled\<lparr> g_rows := rd_rows sample_db \<rparr>),
      TOTP_Disable sample_totp_handler (sample_mfa_env 60) (sample_mfa_request []) (sample_enrolled\<lparr> g_rows := rd_rows sample_db \<rparr>),
      Backup_Generate sample_crypto sample_backup_handler (sample_mfa_env 60) (sample_mfa_request []) (sample_enrolled\<lparr> g_rows := rd_rows sample_db \<rparr>)}"
    using v by simp
  from factor_change_ends_every_session [OF this] v show ?thesis by simp
qed

definition sample_code :: string where
  "sample_code = generateHOTP (cr_hmac1 sample_crypto) ''seed'' 1 totpDigits"

lemma sample_scan: "30 \<le> n \<Longrightarrow> ValidateTOTPCode (cr_hmac1 sample_crypto) (cr_upper sample_crypto) (base32_EncodeToString ''seed'') sample_code (at_second n) = Inr (n div 30 - 1)"
proof -
  assume n: "30 \<le> n"
  have k: "generateHOTP (cr_hmac1 sample_crypto) key c d = generateHOTP (cr_hmac1 sample_crypto) ''seed'' 1 d" for key c d
    by (simp add: generateHOTP_def sample_crypto_def)
  have o: "[- totpSkew .. totpSkew] = [-1, 0, 1]" by code_simp
  have "1 \<le> n div 30" using n by linarith
  then show ?thesis
    using ToUpper_base32 [OF base32_text_encoded] n
    by (simp add: ValidateTOTPCode_def o go_div_def totpPeriod_def sample_code_def k [of "''seed''" "n div 30 - 1"] SecureCompare_def)
qed

lemma sample_secret:
  "tp_GetByUserID True (ft_totp (g_factors sample_enrolled)) ''u'' = Inr (Some (hd (ft_totp (g_factors sample_enrolled))))"
  "totp_secret sample_crypto (replicate 32 (CHR ''k'')) ''u'' (hd (ft_totp (g_factors sample_enrolled))) = Some (base32_EncodeToString ''seed'')"
proof -
  have "base32_EncodeToString ''seed'' \<noteq> []" by code_simp
  then show "totp_secret sample_crypto (replicate 32 (CHR ''k'')) ''u'' (hd (ft_totp (g_factors sample_enrolled))) = Some (base32_EncodeToString ''seed'')"
    by (simp add: totp_secret_def sample_enrolled_def Decrypt_def sample_crypto_def NonceSize_def)
  show "tp_GetByUserID True (ft_totp (g_factors sample_enrolled)) ''u'' = Inr (Some (hd (ft_totp (g_factors sample_enrolled))))"
    by (simp add: tp_GetByUserID_def sample_enrolled_def)
qed

text \<open>With the codes of \<open>sample_crypto\<close> all alike, the first step of the window is the one that is found.\<close>

lemma sample_totp_verify:
  assumes "30 \<le> n" "g_factors g = g_factors sample_enrolled" "\<not> mfa_locked (Some sample_login) (sample_mfa_env n) (sample_mfa_request sample_code) ''u'' g"
    and "map_of (mc_data (lw_cache (g_lock g))) (totpUsedKey ''u'' (n div 30 - 1)) = None" "mc_maxEntries (lw_cache (g_lock g)) \<le> 0"
  shows "\<exists>g'. TOTP_Verify sample_crypto sample_totp_handler (sample_mfa_env n) (sample_mfa_request sample_code) g = (g', Verified) \<and>
    g_factors g' = g_factors g \<and> lw_users (g_lock g') = lw_users (g_lock g) \<and> lw_refusedAt (g_lock g') = lw_refusedAt (g_lock g) \<and>
    lw_cache (g_lock g') = mem_put (lw_cache (g_lock g)) (totpUsedKey ''u'' (n div 30 - 1)) ''1'' (at_second n + totpUsedTTL)"
proof -
  let ?t = "hd (ft_totp (g_factors sample_enrolled))"
  have c: "isValidTOTPCode sample_code" unfolding sample_code_def by (rule HOTP_valid)
  have "tp_verified ?t" by (simp add: sample_enrolled_def)
  then have "\<exists>g'. totp_proved sample_totp_handler (sample_mfa_env n) (sample_mfa_request sample_code) sample_claims ?t (n div 30 - 1) g = (g', Verified) \<and>
      g_factors g' = g_factors g \<and> lw_users (g_lock g') = lw_users (g_lock g) \<and> lw_refusedAt (g_lock g') = lw_refusedAt (g_lock g) \<and>
      lw_cache (g_lock g') = mem_put (lw_cache (g_lock g)) (totpUsedKey ''u'' (n div 30 - 1)) ''1'' (at_second n + totpUsedTTL)"
    using assms(4,5)
    by (simp add: totp_proved_def mem_SetIfNotExists_def mem_admit_def finish_mfa_session totpUsedTTL_def)
       (simp add: mfa_logEvent_def lw_Log_def on_cache_def)
  then show ?thesis
    using c assms(1-3) sample_secret sample_scan [OF assms(1)] by (simp add: TOTP_Verify_def)
qed


end
