(* ===== verification/Password_Reset.thy ===== *)
theory Password_Reset
  imports Login
begin

text \<open>
  Setting a password (\<open>internal/handler/password.go\<close>): requesting a reset link, confirming it, changing the
  password of a signed-in user, and the breach check (\<open>internal/service/hibp.go\<close>) and history they share.
  Shown: a confirmed reset spends its link, stores a hash that verifies the new password, ends every session
  and clears what the account was waiting for; an account has at most one live link at any time; a password
  among the last five is refused, unless the server is overloaded while the history is compared. Request
  bodies arrive decoded; SHA-1, SHA-256 and the answer of the breach service are parameters.
\<close>

section \<open>The breach check\<close>

text \<open>\<open>strings.Split(body, "\r\n")\<close>.\<close>

fun split_crlf :: "string \<Rightarrow> string list" where
  "split_crlf [] = [[]]"
| "split_crlf (c # s) =
     (if c = CHR 0x0D \<and> s \<noteq> [] \<and> hd s = CHR 0x0A then [] # split_crlf (tl s)
      else case split_crlf s of l # ls \<Rightarrow> (c # l) # ls | [] \<Rightarrow> [[c]])"

text \<open>One call: whether a slot was free, and what the service answers for a prefix: a status and a body
  that may break off.\<close>

record hibp =
  hb_sha1 :: "string \<Rightarrow> string"
  hb_upper :: "string \<Rightarrow> string"
  hb_slot :: bool
  hb_get :: "string \<Rightarrow> (int \<times> string option) option"

definition breach_line :: "(string \<Rightarrow> string) \<Rightarrow> string \<Rightarrow> string \<Rightarrow> bool" where
  "breach_line uni sfx line = (case cut_at (CHR '':'') line of None \<Rightarrow> False | Some (a, _) \<Rightarrow> ToUpper uni a = ToUpper uni sfx)"

definition IsBreached :: "hibp \<Rightarrow> string \<Rightarrow> bool" where
  "IsBreached hb password =
     (if \<not> hb_slot hb then False
      else let hash = map ascii_upper (hex_EncodeToString (hb_sha1 hb password)) in
        (case hb_get hb (take 5 hash) of
           None \<Rightarrow> False
         | Some (status, body) \<Rightarrow>
             if status \<noteq> 200 then False
             else (case body of
                     None \<Rightarrow> False
                   | Some b \<Rightarrow> list_ex (breach_line (hb_upper hb) (drop 5 hash)) (split_crlf (take (2 ^ 20) b)))))"

section \<open>Tables and state\<close>

record PasswordHistory =
  ph_id :: string
  ph_user :: string
  ph_hash :: string
  ph_createdAt :: time

definition ph_Create :: "bool \<Rightarrow> PasswordHistory list \<Rightarrow> PasswordHistory \<Rightarrow> PasswordHistory list" where
  "ph_Create up rows p = (if \<not> up \<or> ph_id p \<in> ph_id ` set rows then rows else rows @ [p])"

definition ph_GetRecentByUser :: "bool \<Rightarrow> PasswordHistory list \<Rightarrow> string \<Rightarrow> nat \<Rightarrow> repo_error + PasswordHistory list" where
  "ph_GetRecentByUser up rows u n =
     (if \<not> up then Inl ErrDB else Inr (take n (sort_key (\<lambda>p. - ph_createdAt p) (filter (\<lambda>p. ph_user p = u) rows))))"

definition ph_DeleteAllForUser :: "bool \<Rightarrow> PasswordHistory list \<Rightarrow> string \<Rightarrow> PasswordHistory list" where
  "ph_DeleteAllForUser up rows u = (if up then filter (\<lambda>p. ph_user p \<noteq> u) rows else rows)"

text \<open>\<open>UpdatePassword\<close> reaches a row that is not deleted, or reports that it did not.\<close>

definition us_UpdatePassword :: "bool \<Rightarrow> (string, User) gomap \<Rightarrow> time \<Rightarrow> string \<Rightarrow> string \<Rightarrow> (string, User) gomap \<times> bool" where
  "us_UpdatePassword up users now i hash =
     (if \<not> up then (users, False)
      else case map_of users i of
             None \<Rightarrow> (users, False)
           | Some x \<Rightarrow> if u_deleted x then (users, False)
                       else (AList.update i (x\<lparr> u_passwordHash := hash, u_updatedAt := now \<rparr>) users, True))"

definition us_ClearImportPending :: "bool \<Rightarrow> (string, User) gomap \<Rightarrow> time \<Rightarrow> string \<Rightarrow> (string, User) gomap \<times> bool" where
  "us_ClearImportPending up users now i =
     (if \<not> up then (users, False)
      else case map_of users i of
             None \<Rightarrow> (users, True)
           | Some x \<Rightarrow> (AList.update i (x\<lparr> u_importPending := False, u_updatedAt := now \<rparr>) users, True))"

definition us_ClearMustResetPassword :: "bool \<Rightarrow> (string, User) gomap \<Rightarrow> time \<Rightarrow> string \<Rightarrow> (string, User) gomap \<times> bool" where
  "us_ClearMustResetPassword up users now i =
     (if \<not> up then (users, False)
      else case map_of users i of
             None \<Rightarrow> (users, True)
           | Some x \<Rightarrow> (AList.update i (x\<lparr> u_mustResetPassword := False, u_updatedAt := now \<rparr>) users, True))"

record 'c reset_world =
  rw_login :: "'c login_world"
  rw_history :: "PasswordHistory list"
  rw_mail :: "(string \<times> string) list"

text \<open>\<open>pwHistory\<close> and \<open>tokens\<close> may be missing from the wiring; \<open>ph_hibp\<close> is \<open>None\<close> when the check is off.\<close>

record 'c PasswordHandler =
  ph_history :: bool
  ph_tokens :: bool
  ph_sender :: bool
  ph_auditLog :: bool
  ph_cache :: "'c Cache option"
  ph_origin :: string
  ph_pepper :: string
  ph_minLength :: int
  ph_hibp :: "hibp option"
  ph_kdf :: kdf
  ph_dummy :: string
  ph_current :: string
  ph_sha :: "string \<Rightarrow> string"
  ph_uni :: "string \<Rightarrow> string"

record reset_env =
  re_byEmail :: bool
  re_byID :: bool
  re_acquired :: "nat \<Rightarrow> bool"
  re_recent :: bool
  re_salt :: string
  re_update :: bool
  re_histID :: "string option"
  re_histUp :: bool
  re_tx :: "tx_stmt \<Rightarrow> bool"
  re_usersUp :: bool
  re_token :: "string option"
  re_clk :: clock
  re_now :: time
  re_ip :: string
  re_ua :: string

datatype pw_reply = PwRefused int string | PwOk string | PwPanic

definition on_rlock :: "('c lockout_world \<Rightarrow> 'c lockout_world) \<Rightarrow> 'c reset_world \<Rightarrow> 'c reset_world" where
  "on_rlock f w = w\<lparr> rw_login := on_lock f (rw_login w) \<rparr>"

abbreviation rw_users :: "'c reset_world \<Rightarrow> (string, User) gomap" where
  "rw_users w \<equiv> lw_users (g_lock (rw_login w))"

abbreviation rw_cache :: "'c reset_world \<Rightarrow> 'c" where
  "rw_cache w \<equiv> lw_cache (g_lock (rw_login w))"

definition pw_log :: "'c PasswordHandler \<Rightarrow> reset_env \<Rightarrow> audit_event \<Rightarrow> string \<Rightarrow> (string \<times> meta) list \<Rightarrow> 'c reset_world \<Rightarrow> 'c reset_world" where
  "pw_log h e ev u m w = (if ph_auditLog h then on_rlock (\<lambda>l. lw_Log l ev u (re_ip e) (re_ua e) m) w else w)"

section \<open>Writing a password\<close>

datatype update_error = Breached | RecentlyUsed | Busy | Failed_update

text \<open>The comparison with the history: the \<open>i\<close>-th verification may be shed.\<close>

fun history_match :: "'c PasswordHandler \<Rightarrow> (nat \<Rightarrow> bool) \<Rightarrow> string \<Rightarrow> nat \<Rightarrow> PasswordHistory list \<Rightarrow> bool" where
  "history_match h acquired password i [] = False"
| "history_match h acquired password i (p # ps) =
     (VerifyPassword (ph_kdf h) (acquired i) (ph_dummy h) (ph_current h) password (ph_hash p) (ph_pepper h) = Inr True \<or>
      history_match h acquired password (Suc i) ps)"

definition drop_confirmed :: "'c Cache \<Rightarrow> clock \<Rightarrow> string \<Rightarrow> 'c \<Rightarrow> 'c" where
  "drop_confirmed C clk u c = fst (Delete C (retire_link C clk u c) (clk 2) (''confirm:'' @ u))"

definition with_history :: "reset_env \<Rightarrow> string \<Rightarrow> string \<Rightarrow> 'c reset_world \<Rightarrow> 'c reset_world" where
  "with_history e u hash w =
     (case re_histID e of
        None \<Rightarrow> w
      | Some i \<Rightarrow> w\<lparr> rw_history := ph_Create (re_histUp e) (rw_history w) \<lparr> ph_id = i, ph_user = u, ph_hash = hash, ph_createdAt = re_now e \<rparr> \<rparr>)"

text \<open>What follows the stored hash: the history row, the sessions and the links. \<open>None\<close> is the nil dereference
  of a handler without a history repository.\<close>

definition password_stored ::
  "'c PasswordHandler \<Rightarrow> reset_env \<Rightarrow> string \<Rightarrow> string \<Rightarrow> 'c reset_world \<Rightarrow> 'c reset_world \<times> (update_error + unit) option" where
  "password_stored h e u hash w =
     (if re_histID e \<noteq> None \<and> \<not> ph_history h then (w, None)
      else let w1 = with_history e u hash w;
               (g2, ok) = (if \<not> ph_tokens h then (rw_login w1, True)
                           else case RevokeAllTokensForUser (re_tx e) (session_view (rw_login w1)) u of
                                  (s, Inl _) \<Rightarrow> (put_session s (rw_login w1), False)
                                | (s, Inr _) \<Rightarrow> (put_session s (rw_login w1), True));
               w2 = w1\<lparr> rw_login := g2 \<rparr>
           in if \<not> ok then (w2, Some (Inl Failed_update))
              else (case ph_cache h of
                      None \<Rightarrow> (w2, Some (Inr ()))
                    | Some C \<Rightarrow> (on_rlock (\<lambda>l. l\<lparr> lw_cache := drop_confirmed C (re_clk e) u (lw_cache l) \<rparr>) w2, Some (Inr ()))))"

definition updatePassword ::
  "'c PasswordHandler \<Rightarrow> reset_env \<Rightarrow> string \<Rightarrow> string \<Rightarrow> 'c reset_world \<Rightarrow> 'c reset_world \<times> (update_error + unit) option" where
  "updatePassword h e u newPassword w =
     (if (case ph_hibp h of None \<Rightarrow> False | Some hb \<Rightarrow> IsBreached hb newPassword) then (w, Some (Inl Breached))
      else if ph_history h \<and>
              history_match h (re_acquired e) newPassword 0
                (case ph_GetRecentByUser (re_recent e) (rw_history w) u 5 of Inl _ \<Rightarrow> [] | Inr ps \<Rightarrow> ps)
           then (w, Some (Inl RecentlyUsed))
      else (case HashPassword (ph_kdf h) (re_acquired e 5) (re_salt e) newPassword (ph_pepper h) of
              Inl _ \<Rightarrow> (w, Some (Inl Busy))
            | Inr hash \<Rightarrow>
                (case us_UpdatePassword (re_update e) (rw_users w) (re_now e) u hash of
                   (_, False) \<Rightarrow> (w, Some (Inl Failed_update))
                 | (users, True) \<Rightarrow> password_stored h e u hash (on_rlock (\<lambda>l. l\<lparr> lw_users := users \<rparr>) w))))"

definition update_refusal :: "update_error \<Rightarrow> pw_reply" where
  "update_refusal err =
     (case err of
        Breached \<Rightarrow> PwRefused 400 ''password_breached''
      | RecentlyUsed \<Rightarrow> PwRefused 400 ''password_recently_used''
      | Busy \<Rightarrow> PwRefused 503 ''server_busy''
      | Failed_update \<Rightarrow> PwRefused 500 ''internal_error'')"

section \<open>The endpoints\<close>

definition refusedByAccountState :: "User option \<Rightarrow> bool" where
  "refusedByAccountState u = (case u of None \<Rightarrow> True | Some x \<Rightarrow> u_deleted x \<or> u_banned x \<or> u_disabled x)"

text \<open>The link goes into the cache under its hash, and the hash under the user. \<open>Hour\<close> is its life.\<close>

definition put_link :: "'c Cache \<Rightarrow> clock \<Rightarrow> string \<Rightarrow> string \<Rightarrow> 'c \<Rightarrow> 'c" where
  "put_link C clk u tokenHash c =
     (let c2 = fst (Set C c (clk 2) (''reset:'' @ tokenHash) u Hour)
      in fst (Set C c2 (clk 3) (''pwreset_user:'' @ u) tokenHash Hour))"

definition store_link :: "'c Cache \<Rightarrow> clock \<Rightarrow> string \<Rightarrow> string \<Rightarrow> 'c \<Rightarrow> 'c" where
  "store_link C clk u tokenHash c = put_link C clk u tokenHash (retire_link C clk u c)"

text \<open>Every decoded request with an address gets the same reply; the dummy verification has no effect.\<close>

definition ResetRequest :: "'c PasswordHandler \<Rightarrow> reset_env \<Rightarrow> string option \<Rightarrow> 'c reset_world \<Rightarrow> 'c reset_world \<times> pw_reply" where
  "ResetRequest h e email w =
     (if email = None \<or> email = Some [] then (w, PwRefused 400 ''invalid_request'')
      else (case (us_GetByEmail (re_byEmail e) (rw_users w) (fold_name (ph_uni h) (the email)), re_token e) of
              (Inr (Some user), Some token) \<Rightarrow>
                if refusedByAccountState (Some user) then (w, PwOk ''If that email exists, a reset link has been sent.'')
                else let tokenHash = SHA256Hex (ph_sha h) token;
                         w1 = (case ph_cache h of
                                 None \<Rightarrow> w
                               | Some C \<Rightarrow> on_rlock (\<lambda>l. l\<lparr> lw_cache := store_link C (re_clk e) (u_id user) tokenHash (lw_cache l) \<rparr>) w);
                         w2 = (if ph_sender h then w1\<lparr> rw_mail := rw_mail w1 @ [(u_email user, ph_origin h @ ''/reset-password?token='' @ token)] \<rparr> else w1)
                     in (pw_log h e PasswordReset (u_id user) [(''action'', MStr ''requested'')] w2,
                         PwOk ''If that email exists, a reset link has been sent.'')
            | _ \<Rightarrow> (w, PwOk ''If that email exists, a reset link has been sent.'')))"

text \<open>What a completed reset clears: the lockout, the failure count and the states that waited for a password.\<close>

definition claim_import :: "reset_env \<Rightarrow> User \<Rightarrow> (string, User) gomap \<Rightarrow> (string, User) gomap \<times> bool" where
  "claim_import e user users =
     (if u_importPending user then us_ClearImportPending (re_usersUp e) users (re_now e) (u_id user) else (users, True))"

definition lift_forced_reset :: "reset_env \<Rightarrow> User \<Rightarrow> (string, User) gomap \<Rightarrow> (string, User) gomap \<times> bool" where
  "lift_forced_reset e user users =
     (if u_mustResetPassword user then us_ClearMustResetPassword (re_usersUp e) users (re_now e) (u_id user) else (users, True))"

definition clear_failures :: "'c PasswordHandler \<Rightarrow> reset_env \<Rightarrow> string \<Rightarrow> 'c lockout_world \<Rightarrow> 'c lockout_world" where
  "clear_failures h e u l =
     l\<lparr> lw_cache := fst (ClearAccountLockout (ph_cache h) (\<lambda>i. re_clk e (4 + i)) (lw_cache l) u),
        lw_users := ResetFailedLogin (re_usersUp e) (lw_users l) u \<rparr>"

definition reset_cleared :: "'c PasswordHandler \<Rightarrow> reset_env \<Rightarrow> User \<Rightarrow> 'c reset_world \<Rightarrow> 'c reset_world \<times> pw_reply" where
  "reset_cleared h e user w =
     (let w2 = on_rlock (clear_failures h e (u_id user)) w in
      case claim_import e user (rw_users w2) of
        (us, False) \<Rightarrow> (on_rlock (\<lambda>l. l\<lparr> lw_users := us \<rparr>) w2, PwRefused 500 ''import_claim_failed'')
      | (us, True) \<Rightarrow>
          (case lift_forced_reset e user us of
             (us', False) \<Rightarrow> (on_rlock (\<lambda>l. l\<lparr> lw_users := us' \<rparr>) w2, PwRefused 500 ''forced_reset_clear_failed'')
           | (us', True) \<Rightarrow>
               let w4 = on_rlock (\<lambda>l. l\<lparr> lw_users := us' \<rparr>) w2;
                   w5 = (if u_mustResetPassword user
                         then pw_log h e PasswordReset (u_id user)
                                [(''action'', MStr ''forced_reset_completed''), (''reason'', MStr ''password_reset_confirmed'')] w4
                         else w4)
               in (pw_log h e PasswordReset (u_id user) [(''action'', MStr (if u_importPending user then ''import_claimed'' else ''confirmed''))] w5,
                   PwOk ''password_reset_complete'')))"

definition ResetConfirm :: "'c PasswordHandler \<Rightarrow> reset_env \<Rightarrow> (string \<times> string) option \<Rightarrow> 'c reset_world \<Rightarrow> 'c reset_world \<times> pw_reply" where
  "ResetConfirm h e input w =
     (case input of
        None \<Rightarrow> (w, PwRefused 400 ''invalid_request'')
      | Some (token, password) \<Rightarrow>
          if token = [] \<or> password = [] then (w, PwRefused 400 ''invalid_request'')
          else if int (length (runes password)) < ph_minLength h then (w, PwRefused 400 ''password_too_short'')
          else (case ph_cache h of
                  None \<Rightarrow> (w, PwPanic)
                | Some C \<Rightarrow>
                    (case GetAndDelete C (rw_cache w) (re_clk e 9) (''reset:'' @ SHA256Hex (ph_sha h) token) of
                       (c, Inl _) \<Rightarrow> (on_rlock (\<lambda>l. l\<lparr> lw_cache := c \<rparr>) w, PwRefused 400 ''invalid_or_expired_token'')
                     | (c, Inr userID) \<Rightarrow>
                         let w1 = on_rlock (\<lambda>l. l\<lparr> lw_cache := c \<rparr>) w;
                             found = (if re_byID e then map_of (rw_users w1) userID else None)
                         in if userID = [] \<or> refusedByAccountState found then (w1, PwRefused 400 ''invalid_or_expired_token'')
                            else (case updatePassword h e (u_id (the found)) password w1 of
                                    (w2, None) \<Rightarrow> (w2, PwPanic)
                                  | (w2, Some (Inl err)) \<Rightarrow> (w2, update_refusal err)
                                  | (w2, Some (Inr _)) \<Rightarrow> reset_cleared h e (the found) w2))))"

text \<open>\<open>claims\<close> is the subject of the access token; \<open>input\<close> the current and the new password.\<close>

definition ChangePassword ::
  "'c PasswordHandler \<Rightarrow> reset_env \<Rightarrow> string option \<Rightarrow> (string \<times> string) option \<Rightarrow> 'c reset_world \<Rightarrow> 'c reset_world \<times> pw_reply" where
  "ChangePassword h e claims input w =
     (case (claims, input) of
        (None, _) \<Rightarrow> (w, PwRefused 401 ''unauthorized'')
      | (Some sub, None) \<Rightarrow> (w, PwRefused 400 ''invalid_request'')
      | (Some sub, Some (currentPassword, newPassword)) \<Rightarrow>
          if int (length (runes newPassword)) < ph_minLength h then (w, PwRefused 400 ''password_too_short'')
          else (case (if re_byID e then map_of (rw_users w) sub else None) of
                  None \<Rightarrow> (w, PwRefused 401 ''unauthorized'')
                | Some user \<Rightarrow>
                    (case VerifyPassword (ph_kdf h) (re_acquired e 6) (ph_dummy h) (ph_current h) currentPassword (u_passwordHash user) (ph_pepper h) of
                       Inl Argon2Overloaded \<Rightarrow> (w, PwRefused 503 ''server_busy'')
                     | Inr True \<Rightarrow>
                         (case updatePassword h e (u_id user) newPassword w of
                            (w1, None) \<Rightarrow> (w1, PwPanic)
                          | (w1, Some (Inl err)) \<Rightarrow> (w1, update_refusal err)
                          | (w1, Some (Inr _)) \<Rightarrow> (pw_log h e PasswordChange (u_id user) [] w1, PwOk ''password_changed''))
                     | _ \<Rightarrow> (w, PwRefused 401 ''invalid_current_password''))))"

section \<open>Links in the memory cache\<close>

definition resetKey :: "string \<Rightarrow> string" where "resetKey h = ''reset:'' @ h"

definition ownerKey :: "string \<Rightarrow> string" where "ownerKey u = ''pwreset_user:'' @ u"

lemma link_keys [simp]: "resetKey h = resetKey h' \<longleftrightarrow> h = h'" "ownerKey u = ownerKey u' \<longleftrightarrow> u = u'" "resetKey h \<noteq> ownerKey u" "ownerKey u \<noteq> resetKey h"
  by (simp_all add: resetKey_def ownerKey_def)

definition uncapped :: "MemoryCache \<Rightarrow> bool" where
  "uncapped m \<longleftrightarrow> mc_maxEntries m \<le> 0"

lemma view_ops:
  "uncapped m \<Longrightarrow> 0 < ttl \<Longrightarrow> mem_view (fst (mem_Set m t k v ttl)) = (mem_view m)(k \<mapsto> (v, t + ttl))"
  "mem_view (fst (mem_Delete m t k)) = (mem_view m)(k := None)"
  "uncapped m \<Longrightarrow> uncapped (fst (mem_Set m t k v ttl))" "uncapped m \<Longrightarrow> uncapped (fst (mem_Delete m t k))"
  "uncapped m \<Longrightarrow> uncapped (fst (mem_GetAndDelete m t k))" "uncapped m \<Longrightarrow> snd (mem_Set m t k v ttl) = Inr ()"
  by (auto simp: uncapped_def mem_Set_def mem_admit_def mem_put_def mem_Delete_def mem_GetAndDelete_def mem_view_def gomap_simps fun_eq_iff
      split: option.splits)

lemma take_cases:
  obtains v x where "mem_view m k = Some (v, x)" "x = 0 \<or> t \<le> x" "mem_GetAndDelete m t k = (fst (mem_Delete m t k), Inr v)"
  | "\<And>v x. mem_view m k = Some (v, x) \<Longrightarrow> x \<noteq> 0 \<and> x < t" "mem_GetAndDelete m t k = (m, Inl ErrNotFound)"
  by (cases "map_of (mc_data m) k")
     (fastforce simp: mem_GetAndDelete_def mem_Delete_def mem_view_def mem_expired_def not_less split: if_splits)+

text \<open>Every live link is the one its user's reverse entry names, and that entry outlives it.\<close>

definition links_ok :: "time \<Rightarrow> MemoryCache \<Rightarrow> bool" where
  "links_ok now m \<longleftrightarrow> uncapped m \<and>
     (\<forall>h u x. mem_view m (resetKey h) = Some (u, x) \<longrightarrow> now \<le> x \<longrightarrow> (\<exists>y. x \<le> y \<and> mem_view m (ownerKey u) = Some (h, y))) \<and>
     (\<forall>h u x. mem_view m (resetKey h) = Some (u, x) \<longrightarrow> 0 < x) \<and>
     (\<forall>u h x. mem_view m (ownerKey u) = Some (h, x) \<longrightarrow> 0 < x \<and> h \<noteq> [])"

lemma links_okD:
  assumes "links_ok now m"
  shows "uncapped m" "mem_view m (resetKey h) = Some (u, x) \<Longrightarrow> now \<le> x \<Longrightarrow> \<exists>y. x \<le> y \<and> mem_view m (ownerKey u) = Some (h, y)"
    "mem_view m (resetKey h) = Some (u, x) \<Longrightarrow> 0 < x" "mem_view m (ownerKey u) = Some (h, x) \<Longrightarrow> 0 < x \<and> h \<noteq> []"
  using assms unfolding links_ok_def by blast+

lemma links_ok_later: "links_ok now m \<Longrightarrow> now \<le> t \<Longrightarrow> links_ok t m"
  unfolding links_ok_def by (meson order_trans)

lemma links_ok_other:
  assumes "links_ok now m" "uncapped m'" "\<And>h. mem_view m' (resetKey h) = mem_view m (resetKey h)" "\<And>u. mem_view m' (ownerKey u) = mem_view m (ownerKey u)"
  shows "links_ok now m'"
  using assms unfolding links_ok_def by simp

lemma links_ok_unlink:
  assumes "links_ok now m" "uncapped m'" "mem_view m' = (mem_view m)(resetKey h := None)"
  shows "links_ok now m'"
  using assms unfolding links_ok_def by auto

lemma retire_link_keys:
  "retire_link C clk u c =
     (case GetAndDelete C c (clk 0) (ownerKey u) of
        (c1, Inr oldHash) \<Rightarrow> if oldHash \<noteq> [] then fst (Delete C c1 (clk 1) (resetKey oldHash)) else c1
      | (c1, Inl _) \<Rightarrow> c1)"
  unfolding retire_link_def resetKey_def ownerKey_def ..

lemma put_link_keys:
  "put_link C clk u h c = fst (Set C (fst (Set C c (clk 2) (resetKey h) u Hour)) (clk 3) (ownerKey u) h Hour)"
  unfolding put_link_def resetKey_def ownerKey_def Let_def ..

text \<open>After a user's link is retired, none of theirs is live.\<close>

definition no_link :: "time \<Rightarrow> string \<Rightarrow> MemoryCache \<Rightarrow> bool" where
  "no_link t u m \<longleftrightarrow> (\<forall>h x. mem_view m (resetKey h) = Some (u, x) \<longrightarrow> x < t)"

lemma retire_link_ok:
  assumes "links_ok now m" "now \<le> clk 0"
  shows "links_ok (clk 0) (retire_link memory_cache clk u m) \<and> no_link (clk 0) u (retire_link memory_cache clk u m)"
proof -
  have ok: "links_ok (clk 0) m" by (rule links_ok_later [OF assms])
  note D = links_okD [OF ok]
  show ?thesis
  proof (cases rule: take_cases [of m "ownerKey u" "clk 0"])
    case (1 v x)
    from D(4) [OF 1(1)] have v: "v \<noteq> []" by simp
    let ?m = "fst (mem_Delete (fst (mem_Delete m (clk 0) (ownerKey u))) (clk 1) (resetKey v))"
    have r: "retire_link memory_cache clk u m = ?m" using 1(3) v by (simp add: retire_link_keys)
    have view: "mem_view ?m = (mem_view m)(ownerKey u := None, resetKey v := None)" by (simp add: view_ops)
    have gone: "h = v" if "mem_view m (resetKey h) = Some (u, x')" "clk 0 \<le> x'" for h x' using D(2) [OF that] 1(1) by auto
    have "no_link (clk 0) u ?m" unfolding no_link_def view using gone by (auto simp: not_le [symmetric])
    moreover have "links_ok (clk 0) ?m"
      unfolding links_ok_def view using D gone by (auto simp: view_ops)
    ultimately show ?thesis unfolding r by blast
  next
    case 2
    have "no_link (clk 0) u m" unfolding no_link_def using D(2) 2(1) by (meson leD leI order_trans)
    with ok 2(2) show ?thesis by (simp add: retire_link_keys)
  qed
qed

lemma put_link_ok:
  assumes "links_ok now m" "no_link now u m" "now \<le> clk 2" "clk 2 \<le> clk 3" "0 < clk 2" "h \<noteq> []"
  shows "links_ok (clk 2) (put_link memory_cache clk u h m)"
proof -
  have ok: "links_ok (clk 2) m" by (rule links_ok_later [OF assms(1,3)])
  note D = links_okD [OF ok]
  let ?m = "fst (mem_Set (fst (mem_Set m (clk 2) (resetKey h) u Hour)) (clk 3) (ownerKey u) h Hour)"
  have hour: "0 < Hour" by simp
  have view: "mem_view ?m = (mem_view m)(resetKey h \<mapsto> (u, clk 2 + Hour), ownerKey u \<mapsto> (h, clk 3 + Hour))"
    using D(1) by (simp add: view_ops)
  have other: "u' \<noteq> u" if "mem_view m (resetKey h') = Some (u', x)" "clk 2 \<le> x" for h' u' x
    using assms(2,3) that by (fastforce simp: no_link_def)
  have "links_ok (clk 2) ?m"
    unfolding links_ok_def view using D other assms(4-6) hour by (auto simp: view_ops)
  then show ?thesis by (simp add: put_link_keys)
qed

lemma store_link_ok:
  assumes "links_ok now m" "now \<le> clk 0" "clk 0 \<le> clk 2" "clk 2 \<le> clk 3" "0 < clk 0" "h \<noteq> []"
  shows "links_ok (clk 2) (store_link memory_cache clk u h m)"
  unfolding store_link_def using retire_link_ok [of now m clk, OF assms(1,2)] assms(3-6) by (intro put_link_ok [of "clk 0"]) auto

section \<open>One live link per account\<close>

datatype link_op =
    LkRequest clock string string
  | LkMailed clock "string option" resetLinkKind string string
  | LkConfirm time string
  | LkChanged clock string
  | LkOther time mem_op

text \<open>What the rest of the program does to the cache leaves the two kinds of keys alone.\<close>

fun op_key :: "mem_op \<Rightarrow> string option" where
  "op_key (MSet k v ttl) = Some k"
| "op_key (MDelete k) = Some k"
| "op_key (MGetAndDelete k) = Some k"
| "op_key (MIncrement k ttl) = Some k"
| "op_key (MSetIfNotExists k v ttl) = Some k"
| "op_key MCleanup = None"
| "op_key MClose = None"

definition elsewhere :: "mem_op \<Rightarrow> bool" where
  "elsewhere op \<longleftrightarrow> (case op_key op of None \<Rightarrow> True | Some k \<Rightarrow> \<not> prefix ''reset:'' k \<and> \<not> prefix ''pwreset_user:'' k)"

fun link_exec :: "(string \<Rightarrow> string) \<Rightarrow> MemoryCache \<Rightarrow> link_op \<Rightarrow> MemoryCache" where
  "link_exec sha m (LkRequest clk u tok) = store_link memory_cache clk u (sha tok) m"
| "link_exec sha m (LkMailed clk rnd kind u addr) = fst (reset_link_job memory_cache sha [] clk rnd kind u addr m)"
| "link_exec sha m (LkConfirm t tok) = fst (GetAndDelete memory_cache m t (''reset:'' @ sha tok))"
| "link_exec sha m (LkChanged clk u) = drop_confirmed memory_cache clk u m"
| "link_exec sha m (LkOther t op) = mem_exec m (t, op)"

fun link_span :: "link_op \<Rightarrow> time \<times> time" where
  "link_span (LkRequest clk u tok) = (clk 0, clk 3)"
| "link_span (LkMailed clk rnd kind u addr) = (clk 0, clk 4)"
| "link_span (LkConfirm t tok) = (t, t)"
| "link_span (LkChanged clk u) = (clk 0, clk 2)"
| "link_span (LkOther t op) = (t, t)"

fun link_legal :: "link_op \<Rightarrow> bool" where
  "link_legal (LkRequest clk u tok) = mono clk"
| "link_legal (LkMailed clk rnd kind u addr) = mono clk"
| "link_legal (LkConfirm t tok) = True"
| "link_legal (LkChanged clk u) = mono clk"
| "link_legal (LkOther t op) = elsewhere op"

fun in_order :: "time \<Rightarrow> link_op list \<Rightarrow> bool" where
  "in_order now [] = True"
| "in_order now (op # ops) = (now \<le> fst (link_span op) \<and> link_legal op \<and> in_order (snd (link_span op)) ops)"

fun last_time :: "time \<Rightarrow> link_op list \<Rightarrow> time" where
  "last_time now [] = now"
| "last_time now (op # ops) = last_time (snd (link_span op)) ops"

lemma view_exec_other:
  assumes "elsewhere op" "k = resetKey h \<or> k = ownerKey u" "op \<noteq> MCleanup"
  shows "mem_view (mem_exec m (t, op)) k = mem_view m k"
proof (cases "op = MClose")
  case True
  then show ?thesis by (simp add: mem_view_def mem_Close_def)
next
  case False
  with assms(3) obtain k' where k': "op_key op = Some k'" by (cases op) auto
  with assms(1,2) have "k \<noteq> k'" by (auto simp: elsewhere_def resetKey_def ownerKey_def)
  moreover from k' obtain v ttl where "op \<in> {MSet k' v ttl, MDelete k', MGetAndDelete k', MIncrement k' ttl, MSetIfNotExists k' v ttl}" by (cases op) auto
  ultimately show ?thesis using exec_other_key by (simp add: mem_view_def)
qed

text \<open>Losing entries that are over is harmless.\<close>

lemma links_ok_expire:
  assumes "links_ok t m" "uncapped m'" "\<And>k e. mem_view m' k = Some e \<Longrightarrow> mem_view m k = Some e"
    and "\<And>k v x. mem_view m k = Some (v, x) \<Longrightarrow> t \<le> x \<Longrightarrow> mem_view m' k = Some (v, x)"
  shows "links_ok t m'"
proof -
  note D = links_okD [OF assms(1)]
  have "\<exists>y. x \<le> y \<and> mem_view m' (ownerKey u) = Some (h, y)" if "mem_view m' (resetKey h) = Some (u, x)" "t \<le> x" for h u x
    using D(2) [OF assms(3) [OF that(1)] that(2)] assms(4) that(2) order_trans by blast
  moreover have "0 < x" if "mem_view m' (resetKey h) = Some (u, x)" for h u x using D(3) assms(3) that by blast
  moreover have "0 < x \<and> h \<noteq> []" if "mem_view m' (ownerKey u) = Some (h, x)" for h u x using D(4) assms(3) that by blast
  ultimately show ?thesis using assms(2) unfolding links_ok_def by blast
qed

lemma elsewhere_ok:
  assumes "links_ok now m" "now \<le> t" "elsewhere op" "mem_inv m"
  shows "links_ok t (mem_exec m (t, op))"
proof -
  have ok: "links_ok t m" by (rule links_ok_later [OF assms(1,2)])
  have cap: "uncapped (mem_exec m (t, op))" using links_okD(1) [OF ok] by (simp add: uncapped_def)
  show ?thesis
  proof (cases "op = MCleanup")
    case True
    have keep: "mem_view (mem_cleanup m t) k = (case mem_view m k of Some (v, x) \<Rightarrow> if mc_done m \<or> x = 0 \<or> t \<le> x then Some (v, x) else None | None \<Rightarrow> None)" for k
      using assms(4) by (auto simp: mem_cleanup_def mem_view_def mem_inv_def gomap_simps mem_expired_def split: option.splits)
    have "links_ok t (mem_cleanup m t)"
      by (rule links_ok_expire [OF ok]) (use cap True in \<open>auto simp: keep split: option.splits if_splits\<close>)
    with True show ?thesis by simp
  next
    case False
    show ?thesis
      by (rule links_ok_other [OF ok cap]) (rule view_exec_other [OF assms(3) _ False], blast)+
  qed
qed

lemma reset_link_job_run:
  assumes "uncapped m"
  shows "fst (reset_link_job memory_cache sha origin clk rnd kind u addr m) =
    (let m1 = mem_exec m (clk 0, MSetIfNotExists (reserveKey kind @ u) ''1'' importClaimTTL) in
     if snd (mem_SetIfNotExists m (clk 0) (reserveKey kind @ u) ''1'' importClaimTTL) \<noteq> Inr True then m1
     else case rnd of None \<Rightarrow> retire_link memory_cache (\<lambda>i. clk (1 + i)) u m1 | Some tok \<Rightarrow> store_link memory_cache (\<lambda>i. clk (1 + i)) u (sha tok) m1)"
proof -
  obtain m1 r where s: "mem_SetIfNotExists m (clk 0) (reserveKey kind @ u) ''1'' importClaimTTL = (m1, r)" by fastforce
  then have "mc_maxEntries m1 = mc_maxEntries m" using mem_exec_cap [of m "clk 0" "MSetIfNotExists (reserveKey kind @ u) ''1'' importClaimTTL"] by simp
  with assms have c: "uncapped (retire_link memory_cache (\<lambda>i. clk (1 + i)) u m1)"
    by (auto simp: uncapped_def retire_link_def mem_GetAndDelete_def mem_Delete_def split: option.splits)
  have set: "mem_Set (retire_link memory_cache (\<lambda>i. clk (1 + i)) u m1) (clk 3) k v importClaimTTL =
      (fst (mem_Set (retire_link memory_cache (\<lambda>i. clk (1 + i)) u m1) (clk 3) k v importClaimTTL), Inr ())" for k v
    by (rule prod_eqI) (simp_all only: view_ops(6) [OF c] fst_conv snd_conv)
  show ?thesis
  proof (cases "r = Inr True")
    case True
    show ?thesis
    proof (cases rnd)
      case None
      with True show ?thesis by (simp add: reset_link_job_def s Let_def)
    next
      case (Some tok)
      with True show ?thesis
        unfolding reset_link_job_def Let_def memory_cache_sel s Some prod.case sum.case option.case bool.case
        by (subst set) (use s in \<open>simp add: store_link_def put_link_def importClaimTTL_def eval_nat_numeral\<close>)
    qed
  next
    case False
    then show ?thesis by (cases r) (auto simp: reset_link_job_def s Let_def)
  qed
qed

lemma mem_ops_inv:
  assumes "mem_inv m"
  shows "mem_inv (fst (mem_Set m t k v ttl))" "mem_inv (fst (mem_Delete m t k))" "mem_inv (fst (mem_GetAndDelete m t k))"
    "mem_inv (fst (mem_SetIfNotExists m t k v ttl))"
  using mem_exec_inv [OF assms, of t "MSet k v ttl"] mem_exec_inv [OF assms, of t "MDelete k"] mem_exec_inv [OF assms, of t "MGetAndDelete k"]
    mem_exec_inv [OF assms, of t "MSetIfNotExists k v ttl"] by simp_all

lemma retire_link_inv: "mem_inv m \<Longrightarrow> mem_inv (retire_link memory_cache clk u m)"
  using mem_ops_inv(3) [of m "clk 0" "ownerKey u"] by (auto simp: retire_link_keys intro: mem_ops_inv(2) split: prod.splits sum.splits)

lemma store_link_inv: "mem_inv m \<Longrightarrow> mem_inv (store_link memory_cache clk u h m)"
  by (simp add: store_link_def put_link_def retire_link_inv mem_ops_inv)

lemma link_exec_inv:
  assumes "mem_inv m" "uncapped m"
  shows "mem_inv (link_exec sha m op)"
proof (cases op)
  case (LkMailed clk rnd kind u addr)
  have "mem_inv (mem_exec m (clk 0, MSetIfNotExists (reserveKey kind @ u) ''1'' importClaimTTL))" by (rule mem_exec_inv [OF assms(1)])
  with LkMailed show ?thesis
    by (simp add: reset_link_job_run [OF assms(2)] Let_def retire_link_inv store_link_inv split: option.split)
qed (use assms(1) in \<open>simp_all add: store_link_inv drop_confirmed_def retire_link_inv mem_ops_inv mem_exec_inv\<close>)

lemma drop_confirmed_ok:
  assumes "links_ok now m" "now \<le> clk 0"
  shows "links_ok (clk 0) (drop_confirmed memory_cache clk u m) \<and> no_link (clk 0) u (drop_confirmed memory_cache clk u m)"
proof -
  let ?r = "retire_link memory_cache clk u m"
  from retire_link_ok [of now m clk, OF assms] have r: "links_ok (clk 0) ?r" "no_link (clk 0) u ?r" by blast+
  have v: "mem_view (drop_confirmed memory_cache clk u m) k = mem_view ?r k" if "k = resetKey h \<or> k = ownerKey u'" for k h u'
    using that by (auto simp: drop_confirmed_def view_ops resetKey_def ownerKey_def)
  have "uncapped (drop_confirmed memory_cache clk u m)" using links_okD(1) [OF r(1)] by (simp add: drop_confirmed_def view_ops)
  from links_ok_other [OF r(1) this] v r(2) show ?thesis by (simp add: no_link_def)
qed

lemma link_step_ok:
  assumes "links_ok now m" "mem_inv m" "0 < now" "now \<le> fst (link_span op)" "link_legal op" "\<And>t. sha t \<noteq> []"
  shows "links_ok (snd (link_span op)) (link_exec sha m op)"
proof (cases op)
  case (LkRequest clk u tok)
  with assms have m: "mono clk" "now \<le> clk 0" by simp_all
  then have "clk 0 \<le> clk 2" "clk 2 \<le> clk 3" by (auto intro: monoD [of clk])
  with store_link_ok [of now m clk "sha tok" u] assms m LkRequest show ?thesis by (auto intro: links_ok_later)
next
  case (LkMailed clk rnd kind u addr)
  with assms have m: "mono clk" "now \<le> clk 0" by simp_all
  let ?m = "mem_exec m (clk 0, MSetIfNotExists (reserveKey kind @ u) ''1'' importClaimTTL)"
  let ?clk = "\<lambda>i. clk (1 + i)"
  have "elsewhere (MSetIfNotExists (reserveKey kind @ u) ''1'' importClaimTTL)" by (cases kind) (simp_all add: elsewhere_def reserveKey_def)
  from elsewhere_ok [OF assms(1) m(2) this assms(2)] have ok: "links_ok (clk 0) ?m" .
  have t: "clk 0 \<le> ?clk 0" "?clk 0 \<le> ?clk 2" "?clk 2 \<le> ?clk 3" "?clk 0 \<le> clk 4" "?clk 2 \<le> clk 4" "clk 0 \<le> clk 4" "0 < ?clk 0"
    using m assms(3) monoD [OF m(1), of 0 1] monoD [OF m(1), of 1 3] monoD [OF m(1), of 3 4] monoD [OF m(1), of 1 4] monoD [OF m(1), of 0 4]
    by (simp_all add: numeral_eq_Suc)
  have "links_ok (clk 4) (retire_link memory_cache ?clk u ?m)"
    using retire_link_ok [of "clk 0" ?m ?clk, OF ok t(1)] links_ok_later t(4) by blast
  moreover have "links_ok (clk 4) (store_link memory_cache ?clk u (sha tok) ?m)" for tok
    using store_link_ok [of "clk 0" ?m ?clk, OF ok t(1-3,7) assms(6)] links_ok_later t(5) by blast
  moreover have "links_ok (clk 4) ?m" using ok links_ok_later t(6) by blast
  ultimately show ?thesis
    using LkMailed reset_link_job_run [OF links_okD(1) [OF assms(1)], of sha "[]" clk rnd kind u addr] by (auto simp: Let_def split: option.split)
next
  case (LkConfirm t tok)
  have ok: "links_ok t m" using assms(1,4) LkConfirm by (auto intro: links_ok_later)
  have "links_ok t (fst (mem_GetAndDelete m t (resetKey (sha tok))))"
    by (cases rule: take_cases [of m "resetKey (sha tok)" t])
       (use ok links_ok_unlink [OF ok, of _ "sha tok"] links_okD(1) [OF ok] in \<open>auto simp: view_ops\<close>)
  with LkConfirm show ?thesis by (simp add: resetKey_def)
next
  case (LkChanged clk u)
  with assms have m: "mono clk" "now \<le> clk 0" "clk 0 \<le> clk 2" by (auto dest: monoD)
  with drop_confirmed_ok [of now m clk, OF assms(1) m(2)] LkChanged show ?thesis by (auto intro: links_ok_later)
next
  case (LkOther t op')
  with assms show ?thesis by (auto intro: elsewhere_ok)
qed

lemma link_run_ok:
  assumes "links_ok now m" "mem_inv m" "0 < now" "in_order now ops" "\<And>t. sha t \<noteq> []"
  shows "links_ok (last_time now ops) (foldl (link_exec sha) m ops)"
  using assms(1-4)
proof (induction ops arbitrary: now m)
  case (Cons op ops)
  have "links_ok (snd (link_span op)) (link_exec sha m op)" using link_step_ok [of now m op sha] Cons.prems assms(5) by simp
  moreover have "mem_inv (link_exec sha m op)" using link_exec_inv Cons.prems(1,2) by (simp add: links_okD)
  moreover have "fst (link_span op) \<le> snd (link_span op)" using Cons.prems(4) by (cases op) (auto dest: monoD)
  ultimately show ?case using Cons.IH [of "snd (link_span op)" "link_exec sha m op"] Cons.prems(3,4) by simp
qed simp

lemma mem_Get_view: "mem_Get m t k = Inr v \<Longrightarrow> \<exists>x. mem_view m k = Some (v, x) \<and> (x = 0 \<or> t \<le> x)"
  by (auto simp: mem_Get_def mem_view_def mem_expired_def split: option.splits if_splits)



section \<open>Two requests at once\<close>

lemma retire_keeps_others:
  assumes "\<And>v x. mem_view m (ownerKey u) = Some (v, x) \<Longrightarrow> v \<noteq> h"
  shows "mem_view (retire_link memory_cache clk u m) (resetKey h) = mem_view m (resetKey h)"
  by (cases rule: take_cases [of m "ownerKey u" "clk 0"]) (use assms in \<open>auto simp: retire_link_keys view_ops\<close>)

lemma retire_uncapped: "uncapped m \<Longrightarrow> uncapped (retire_link memory_cache clk u m)"
  using view_ops(5) [of m "clk 0" "ownerKey u"] by (auto simp: retire_link_keys intro: view_ops(4) split: prod.splits sum.splits)

text \<open>
  C24: Retiring the old link and storing the new one are separate steps, and two reset requests for one
  account that run at the same time interleave. Both retire what was there before either stores; then the link
  of the one that stores first is named by no reverse entry: it stays live beside the newer one, and a later
  password change does not reach it.
\<close>

theorem racing_requests_orphan_a_link:
  assumes "uncapped m" "h1 \<noteq> h2" "0 < clk1 2" "t \<le> clk1 2 + Hour"
  shows "let m1 = retire_link memory_cache clk1 u m; m2 = retire_link memory_cache clk2 u m1;
      m3 = put_link memory_cache clk1 u h1 m2; m4 = put_link memory_cache clk2 u h2 m3; m5 = drop_confirmed memory_cache clk3 u m4
    in snd (GetAndDelete memory_cache m5 t (''reset:'' @ h1)) = Inr u"
proof -
  define m2 where "m2 = retire_link memory_cache clk2 u (retire_link memory_cache clk1 u m)"
  have c2: "uncapped m2" unfolding m2_def by (intro retire_uncapped assms(1))
  define m4 where "m4 = put_link memory_cache clk2 u h2 (put_link memory_cache clk1 u h1 m2)"
  have v4: "mem_view m4 (ownerKey u) = Some (h2, clk2 3 + Hour)" "mem_view m4 (resetKey h1) = Some (u, clk1 2 + Hour)"
    using c2 assms(2) by (simp_all add: m4_def put_link_keys view_ops)
  have "mem_view (retire_link memory_cache clk3 u m4) (resetKey h1) = Some (u, clk1 2 + Hour)"
    using retire_keeps_others [of m4 u h1 clk3] v4 assms(2) by auto
  then have "mem_view (drop_confirmed memory_cache clk3 u m4) (resetKey h1) = Some (u, clk1 2 + Hour)"
    by (simp add: drop_confirmed_def view_ops resetKey_def)
  then have "snd (mem_GetAndDelete (drop_confirmed memory_cache clk3 u m4) t (resetKey h1)) = Inr u"
    using assms(3,4) by (auto simp: mem_GetAndDelete_def mem_view_Some mem_expired_def)
  then show ?thesis by (simp add: Let_def m2_def m4_def resetKey_def)
qed

theorem racing_requests_orphan_a_link_witness:
  "let m1 = retire_link memory_cache (\<lambda>_. 10) ''u'' (newMemoryCacheWithCap 0); m2 = retire_link memory_cache (\<lambda>_. 10) ''u'' m1;
      m3 = put_link memory_cache (\<lambda>_. 10) ''u'' ''a'' m2; m4 = put_link memory_cache (\<lambda>_. 10) ''u'' ''b'' m3; m5 = drop_confirmed memory_cache (\<lambda>_. 20) ''u'' m4
    in snd (GetAndDelete memory_cache m5 30 (''reset:'' @ ''a'')) = Inr ''u''"
  using racing_requests_orphan_a_link [of "newMemoryCacheWithCap 0" "''a''" "''b''" "\<lambda>_. 10" 30 "''u''" "\<lambda>_. 10" "\<lambda>_. 20"]
  by (simp add: uncapped_def newMemoryCacheWithCap_def)

section \<open>The history check\<close>

lemma history_match_found:
  assumes "p \<in> set ps" "VerifyPassword (ph_kdf h) True (ph_dummy h) (ph_current h) pw (ph_hash p) (ph_pepper h) = Inr True" "\<And>i. acquired i"
  shows "history_match h acquired pw n ps"
  using assms(1) by (induction ps arbitrary: n) (auto simp: assms(2,3))

lemma history_match_shed: "\<forall>i < n + length ps. \<not> acquired i \<Longrightarrow> \<not> history_match h acquired pw n ps"
  by (induction ps arbitrary: n) (auto simp: VerifyPassword_def Let_def)

lemma recent_at_most: "ph_GetRecentByUser up rows u n = Inr ps \<Longrightarrow> length ps \<le> n"
  by (auto simp: ph_GetRecentByUser_def split: if_splits)

text \<open>
  C25: A password among the five most recent ones is refused when the history is read and every comparison
  gets its turn. The check drops its errors, though: when the comparisons are shed because the server is
  overloaded, or the history cannot be read, the same password is accepted and stored.
\<close>

theorem history_check_fails_open:
  assumes "ph_GetRecentByUser True (rw_history w) u 5 = Inr ps" "p \<in> set ps"
    and "VerifyPassword (ph_kdf h) True (ph_dummy h) (ph_current h) pw (ph_hash p) (ph_pepper h) = Inr True"
    and "ph_history h" "ph_hibp h = None"
  shows "(re_recent e \<and> (\<forall>i. re_acquired e i) \<longrightarrow> updatePassword h e u pw w = (w, Some (Inl RecentlyUsed))) \<and>
    ((\<not> re_recent e \<or> (\<forall>i < 5. \<not> re_acquired e i)) \<and> re_acquired e 5 \<and> re_update e \<and> (\<forall>s. re_tx e s) \<and>
       (\<exists>x. map_of (rw_users w) u = Some x \<and> \<not> u_deleted x) \<longrightarrow>
     snd (updatePassword h e u pw w) = Some (Inr ()))"
proof (intro conjI impI)
  assume "re_recent e \<and> (\<forall>i. re_acquired e i)"
  then have r: "re_recent e" and a: "\<And>i. re_acquired e i" by blast+
  have "history_match h (re_acquired e) pw 0 ps" by (rule history_match_found [OF assms(2,3) a])
  with r assms(1,4,5) show "updatePassword h e u pw w = (w, Some (Inl RecentlyUsed))" by (simp add: updatePassword_def)
next
  assume e: "(\<not> re_recent e \<or> (\<forall>i < 5. \<not> re_acquired e i)) \<and> re_acquired e 5 \<and> re_update e \<and> (\<forall>s. re_tx e s) \<and>
       (\<exists>x. map_of (rw_users w) u = Some x \<and> \<not> u_deleted x)"
  let ?ps = "case ph_GetRecentByUser (re_recent e) (rw_history w) u 5 of Inl _ \<Rightarrow> [] | Inr ps \<Rightarrow> ps"
  have "\<not> history_match h (re_acquired e) pw 0 ?ps"
  proof (cases "re_recent e")
    case True
    have "length ps \<le> 5" by (rule recent_at_most [OF assms(1)])
    with e True history_match_shed [of 0 ps "re_acquired e" h pw] assms(1) show ?thesis by simp
  qed (simp add: ph_GetRecentByUser_def)
  with e assms(4,5) show "snd (updatePassword h e u pw w) = Some (Inr ())"
    by (auto simp: updatePassword_def HashPassword_def Let_def us_UpdatePassword_def password_stored_def RevokeAllTokensForUser_def
        rt_RevokeAllForUser_def lockThenWrite_def split: option.splits prod.splits)
qed

section \<open>A confirmed reset\<close>

lemma rlock_simps [simp]:
  "rw_history (on_rlock f w) = rw_history w" "g_rows (rw_login (on_rlock f w)) = g_rows (rw_login w)"
  "g_lock (rw_login (on_rlock f w)) = f (g_lock (rw_login w))"
  "lw_users (g_lock (rw_login (pw_log h e ev u m w))) = rw_users w" "lw_cache (g_lock (rw_login (pw_log h e ev u m w))) = rw_cache w"
  "g_rows (rw_login (pw_log h e ev u m w)) = g_rows (rw_login w)"
  by (simp_all add: on_rlock_def pw_log_def lw_Log_def)

lemma RevokeAllTokensForUser_done:
  assumes "RevokeAllTokensForUser up w u = (w', Inr ())"
  shows "w' = w\<lparr> w_db := update_rows (\<lambda>r. r_user r = u \<and> \<not> r_revoked r) (\<lambda>r. r\<lparr> r_revoked := True \<rparr>) (w_db w) \<rparr>"
  using assms by (auto simp: RevokeAllTokensForUser_def rt_RevokeAllForUser_def lockThenWrite_def split: prod.splits sum.splits if_splits)

lemma put_session_sel [simp]:
  "g_rows (put_session s g) = rd_rows (w_db s)" "lw_users (g_lock (put_session s g)) = rd_users (w_db s)" "lw_cache (g_lock (put_session s g)) = lw_cache (g_lock g)"
  "w_db (session_view g) = \<lparr> rd_rows = g_rows g, rd_users = lw_users (g_lock g) \<rparr>"
  by (simp_all add: put_session_def session_view_def)

lemma with_history_login [simp]: "rw_login (with_history e u hash w) = rw_login w"
  by (simp add: with_history_def split: option.split)

lemma password_stored_ok:
  assumes "password_stored h e u hash w = (w', Some (Inr ()))" "ph_tokens h" "ph_cache h = Some C"
  shows "rw_users w' = rw_users w \<and> rw_cache w' = drop_confirmed C (re_clk e) u (rw_cache w) \<and>
    (\<forall>row \<in> set (g_rows (rw_login w')). r_user row = u \<longrightarrow> r_revoked row)"
proof -
  obtain s r where rv: "RevokeAllTokensForUser (re_tx e) (session_view (rw_login w)) u = (s, r)" by fastforce
  define w1 where "w1 = with_history e u hash w"
  define w2 where "w2 = w1\<lparr> rw_login := put_session s (rw_login w) \<rparr>"
  have l: "rw_login w1 = rw_login w" by (simp add: w1_def)
  have r: "r = Inr ()"
    using assms(1,2) rv l unfolding password_stored_def w1_def [symmetric] Let_def
    by (cases r) (auto split: if_splits)
  have w': "w' = on_rlock (\<lambda>l. l\<lparr> lw_cache := drop_confirmed C (re_clk e) u (lw_cache l) \<rparr>) w2"
    using assms rv l r unfolding password_stored_def w1_def [symmetric] Let_def w2_def by (auto split: if_splits)
  have db: "w_db s = update_rows (\<lambda>r. r_user r = u \<and> \<not> r_revoked r) (\<lambda>r. r\<lparr> r_revoked := True \<rparr>) \<lparr> rd_rows = g_rows (rw_login w), rd_users = rw_users w \<rparr>"
    using RevokeAllTokensForUser_done rv r by fastforce
  have "\<forall>row \<in> set (map (\<lambda>r. if r_user r = u \<and> \<not> r_revoked r then r\<lparr> r_revoked := True \<rparr> else r) xs). r_user row = u \<longrightarrow> r_revoked row" for xs
    unfolding set_map ball_simps by simp
  then have "\<forall>row \<in> set (rd_rows (w_db s)). r_user row = u \<longrightarrow> r_revoked row" unfolding db update_rows_def by simp
  moreover have "rd_users (w_db s) = rw_users w" unfolding db by (simp add: update_rows_def)
  ultimately show ?thesis by (simp add: w' w2_def)
qed

lemma updatePassword_ok:
  assumes "updatePassword h e u pw w = (w', Some (Inr ()))" "ph_tokens h" "ph_cache h = Some C"
  obtains hash x where "HashPassword (ph_kdf h) True (re_salt e) pw (ph_pepper h) = Inr hash" "map_of (rw_users w) u = Some x" "\<not> u_deleted x"
    "map_of (rw_users w') u = Some (x\<lparr> u_passwordHash := hash, u_updatedAt := re_now e \<rparr>)"
    "rw_cache w' = drop_confirmed C (re_clk e) u (rw_cache w)" "\<forall>row \<in> set (g_rows (rw_login w')). r_user row = u \<longrightarrow> r_revoked row"
proof -
  from assms(1) obtain hash users where hash: "HashPassword (ph_kdf h) (re_acquired e 5) (re_salt e) pw (ph_pepper h) = Inr hash"
    and up: "us_UpdatePassword (re_update e) (rw_users w) (re_now e) u hash = (users, True)"
    and st: "password_stored h e u hash (on_rlock (\<lambda>l. l\<lparr> lw_users := users \<rparr>) w) = (w', Some (Inr ()))"
    unfolding updatePassword_def by (auto split: if_splits sum.splits prod.splits bool.splits)
  have "re_acquired e 5" using hash by (auto simp: HashPassword_def split: if_splits)
  moreover from up obtain x where "map_of (rw_users w) u = Some x" "\<not> u_deleted x"
    "users = AList.update u (x\<lparr> u_passwordHash := hash, u_updatedAt := re_now e \<rparr>) (rw_users w)"
    by (auto simp: us_UpdatePassword_def split: if_splits option.splits)
  ultimately show thesis using that [of hash x] hash password_stored_ok [OF st assms(2,3)] by (simp add: gomap_simps)
qed

lemma ClearAccountLockout_view:
  "mem_view (fst (ClearAccountLockout (Some memory_cache) clk m u)) (resetKey h) = mem_view m (resetKey h)"
proof -
  have "fst (ClearAccountLockout (Some memory_cache) clk m u) =
      mem_exec (mem_exec m (clk 0, MDelete (accountLockoutKey u))) (clk 1, MIncrement (lockoutGenerationKey u) lockoutGenerationTTL)"
    by (auto simp: ClearAccountLockout_def mem_Delete_def split: prod.splits sum.splits)
  moreover have "elsewhere (MDelete (accountLockoutKey u))" "elsewhere (MIncrement (lockoutGenerationKey u) lockoutGenerationTTL)"
    by (simp_all add: elsewhere_def accountLockoutKey_def lockoutGenerationKey_def)
  moreover have "mem_view (mem_exec s (t, op)) (resetKey h) = mem_view s (resetKey h)" if "elsewhere op" "op \<noteq> MCleanup" for s t op
    using view_exec_other [OF that(1) _ that(2)] by blast
  ultimately show ?thesis by (simp only: mem_op.distinct simp_thms)
qed

lemma claim_import_ok:
  assumes "claim_import e user users = (us, True)" "map_of users (u_id user) = Some x" "u_importPending x = u_importPending user"
  shows "\<exists>y. map_of us (u_id user) = Some y \<and> \<not> u_importPending y \<and> u_passwordHash y = u_passwordHash x \<and>
    u_mustResetPassword y = u_mustResetPassword x \<and> u_failedLoginCount y = u_failedLoginCount x"
proof (cases "u_importPending user")
  case True
  with assms(1,2) have "us = AList.update (u_id user) (x\<lparr> u_importPending := False, u_updatedAt := re_now e \<rparr>) users"
    by (simp add: claim_import_def us_ClearImportPending_def split: if_splits)
  then show ?thesis by (simp add: gomap_simps)
qed (use assms in \<open>auto simp: claim_import_def\<close>)

lemma lift_forced_reset_ok:
  assumes "lift_forced_reset e user users = (us, True)" "map_of users (u_id user) = Some x" "u_mustResetPassword x = u_mustResetPassword user"
  shows "\<exists>y. map_of us (u_id user) = Some y \<and> \<not> u_mustResetPassword y \<and> u_passwordHash y = u_passwordHash x \<and>
    u_importPending y = u_importPending x \<and> u_failedLoginCount y = u_failedLoginCount x"
proof (cases "u_mustResetPassword user")
  case True
  with assms(1,2) have "us = AList.update (u_id user) (x\<lparr> u_mustResetPassword := False, u_updatedAt := re_now e \<rparr>) users"
    by (simp add: lift_forced_reset_def us_ClearMustResetPassword_def split: if_splits)
  then show ?thesis by (simp add: gomap_simps)
qed (use assms in \<open>auto simp: lift_forced_reset_def\<close>)

lemma reset_cleared_cases:
  assumes "reset_cleared h e user w = (w', PwOk r)"
  obtains us where "claim_import e user (ResetFailedLogin (re_usersUp e) (rw_users w) (u_id user)) = (us, True)"
    "lift_forced_reset e user us = (rw_users w', True)" "g_rows (rw_login w') = g_rows (rw_login w)"
    "rw_cache w' = fst (ClearAccountLockout (ph_cache h) (\<lambda>i. re_clk e (4 + i)) (rw_cache w) (u_id user))"
proof -
  obtain us ok where 3: "claim_import e user (ResetFailedLogin (re_usersUp e) (rw_users w) (u_id user)) = (us, ok)" by fastforce
  obtain us' ok' where 4: "lift_forced_reset e user us = (us', ok')" by fastforce
  define w2 where "w2 = on_rlock (clear_failures h e (u_id user)) w"
  have w2: "rw_users w2 = ResetFailedLogin (re_usersUp e) (rw_users w) (u_id user)" "g_rows (rw_login w2) = g_rows (rw_login w)"
    "rw_cache w2 = fst (ClearAccountLockout (ph_cache h) (\<lambda>i. re_clk e (4 + i)) (rw_cache w) (u_id user))"
    by (simp_all add: w2_def clear_failures_def)
  have ok: "ok" using assms 3 unfolding reset_cleared_def w2_def [symmetric] Let_def w2(1) by (cases ok) auto
  moreover have ok': "ok'" using assms 3 4 ok unfolding reset_cleared_def w2_def [symmetric] Let_def w2(1) by (cases ok') auto
  moreover have "rw_users w' = us'" "rw_cache w' = rw_cache w2" "g_rows (rw_login w') = g_rows (rw_login w2)"
    using assms 3 4 ok ok' unfolding reset_cleared_def w2_def [symmetric] Let_def w2(1) by auto
  ultimately show thesis using that [of us] 3 4 w2 by simp
qed

lemma reset_cleared_ok:
  assumes "reset_cleared h e user w = (w', PwOk r)" "map_of (rw_users w) (u_id user) = Some x" "ph_cache h = Some memory_cache"
    and "u_importPending x = u_importPending user" "u_mustResetPassword x = u_mustResetPassword user"
  shows "\<exists>x'. map_of (rw_users w') (u_id user) = Some x' \<and> u_passwordHash x' = u_passwordHash x \<and> \<not> u_importPending x' \<and> \<not> u_mustResetPassword x' \<and>
      (re_usersUp e \<longrightarrow> u_failedLoginCount x' = 0)"
    "g_rows (rw_login w') = g_rows (rw_login w)" "mem_view (rw_cache w') (resetKey k) = mem_view (rw_cache w) (resetKey k)"
proof -
  from reset_cleared_cases [OF assms(1)] obtain us where
    3: "claim_import e user (ResetFailedLogin (re_usersUp e) (rw_users w) (u_id user)) = (us, True)" and
    4: "lift_forced_reset e user us = (rw_users w', True)" and rows: "g_rows (rw_login w') = g_rows (rw_login w)" and
    cache: "rw_cache w' = fst (ClearAccountLockout (ph_cache h) (\<lambda>i. re_clk e (4 + i)) (rw_cache w) (u_id user))" .
  show "g_rows (rw_login w') = g_rows (rw_login w)" by (rule rows)
  show "mem_view (rw_cache w') (resetKey k) = mem_view (rw_cache w) (resetKey k)" using assms(3) by (simp add: cache ClearAccountLockout_view)
  obtain y where y: "map_of (ResetFailedLogin (re_usersUp e) (rw_users w) (u_id user)) (u_id user) = Some y" "u_importPending y = u_importPending user"
    "u_mustResetPassword y = u_mustResetPassword user" "u_passwordHash y = u_passwordHash x" "re_usersUp e \<longrightarrow> u_failedLoginCount y = 0"
    using assms(2,4,5) by (cases "re_usersUp e") (auto simp: ResetFailedLogin_def gomap_simps)
  from claim_import_ok [OF 3 y(1,2)] obtain z where z: "map_of us (u_id user) = Some z" "\<not> u_importPending z" "u_passwordHash z = u_passwordHash y"
    "u_mustResetPassword z = u_mustResetPassword y" "u_failedLoginCount z = u_failedLoginCount y" by blast
  from z(4) y(3) have "u_mustResetPassword z = u_mustResetPassword user" by simp
  from lift_forced_reset_ok [OF 4 z(1) this] z y
  show "\<exists>x'. map_of (rw_users w') (u_id user) = Some x' \<and> u_passwordHash x' = u_passwordHash x \<and> \<not> u_importPending x' \<and> \<not> u_mustResetPassword x' \<and>
      (re_usersUp e \<longrightarrow> u_failedLoginCount x' = 0)" by auto
qed

text \<open>What a successful confirmation went through.\<close>

lemma ResetConfirm_ok:
  assumes "ResetConfirm h e (Some (token, pw)) w = (w', PwOk r)" "ph_cache h = Some memory_cache"
  obtains u x w2 where "mem_Get (rw_cache w) (re_clk e 9) (resetKey (SHA256Hex (ph_sha h) token)) = Inr u" "map_of (rw_users w) u = Some x"
    "\<not> refusedByAccountState (Some x)"
    "updatePassword h e (u_id x) pw
       (on_rlock (\<lambda>l. l\<lparr> lw_cache := fst (mem_Delete (rw_cache w) (re_clk e 9) (resetKey (SHA256Hex (ph_sha h) token))) \<rparr>) w) = (w2, Some (Inr ()))"
    "reset_cleared h e x w2 = (w', PwOk r)"
proof -
  let ?k = "resetKey (SHA256Hex (ph_sha h) token)"
  obtain c q where t: "mem_GetAndDelete (rw_cache w) (re_clk e 9) ?k = (c, q)" by fastforce
  with assms obtain u where q: "q = Inr u" by (cases q) (auto simp: ResetConfirm_def resetKey_def split: if_splits)
  let ?w1 = "on_rlock (\<lambda>l. l\<lparr> lw_cache := c \<rparr>) w"
  let ?found = "if re_byID e then map_of (rw_users w) u else None"
  have users: "rw_users ?w1 = rw_users w" by simp
  from assms t q have ref: "u \<noteq> [] \<and> \<not> refusedByAccountState ?found"
    by (auto simp: ResetConfirm_def resetKey_def Let_def split: if_splits)
  then obtain x where x: "?found = Some x" by (cases ?found) (auto simp: refusedByAccountState_def)
  obtain w2 res where up: "updatePassword h e (u_id x) pw ?w1 = (w2, res)" by fastforce
  have "ResetConfirm h e (Some (token, pw)) w =
      (case res of None \<Rightarrow> (w2, PwPanic) | Some (Inl err) \<Rightarrow> (w2, update_refusal err) | Some (Inr _) \<Rightarrow> reset_cleared h e x w2)"
  proof -
    have "\<not> (token = [] \<or> pw = [])" "\<not> int (length (runes pw)) < ph_minLength h" using assms by (auto simp: ResetConfirm_def split: if_splits)
    moreover from x have "re_byID e" "map_of (rw_users w) u = Some x" by (auto split: if_splits)
    ultimately show ?thesis using assms(2) t q ref up unfolding ResetConfirm_def resetKey_def Let_def users by simp
  qed
  with assms(1) have "res = Some (Inr ()) \<and> reset_cleared h e x w2 = (w', PwOk r)"
    by (cases res) (auto simp: update_refusal_def split: sum.splits update_error.splits)
  moreover have "c = fst (mem_Delete (rw_cache w) (re_clk e 9) ?k) \<and> mem_Get (rw_cache w) (re_clk e 9) ?k = Inr u"
    using t q by (auto simp: mem_GetAndDelete_def mem_Get_def mem_Delete_def split: option.splits if_splits)
  moreover have "map_of (rw_users w) u = Some x" using x by (simp split: if_splits)
  ultimately show thesis using that [of u x w2] ref x up by simp
qed

lemma hashed_verifies:
  assumes "HashPassword kd True salt pw pepper = Inr h" "length salt = argon2SaltLen" "h \<noteq> dummy"
    "\<forall>x s. length (kd_idkey kd x s argon2Iterations argon2Memory argon2Parallelism argon2KeyLen) = argon2KeyLen"
  shows "VerifyPassword kd True dummy current pw h pepper = Inr True"
proof -
  have "length (kd_idkey kd (applyPepper kd pw pepper) salt argon2Iterations argon2Memory argon2Parallelism argon2KeyLen) = 32"
    using assms(4) by (simp add: argon2KeyLen_def)
  with assms(3) parse_hashed [OF assms(1,2,4)] show ?thesis by (auto simp: VerifyPassword_def Let_def argon2KeyLen_def)
qed

lemma spent_link_refused: "mem_view (rw_cache w) (resetKey (SHA256Hex (ph_sha h) token)) = None \<Longrightarrow> ph_cache h = Some memory_cache \<Longrightarrow>
    snd (ResetConfirm h e (Some (token, pw)) w) \<noteq> PwOk r"
  by (auto simp: ResetConfirm_def mem_GetAndDelete_def mem_view_def resetKey_def)

lemma drop_confirmed_forgets:
  "mem_view m (resetKey k) = None \<Longrightarrow> mem_view (drop_confirmed memory_cache clk u m) (resetKey k) = None"
  by (cases rule: take_cases [of m "ownerKey u" "clk 0"]) (auto simp: drop_confirmed_def retire_link_keys view_ops)

text \<open>
  C8: A confirmed reset takes effect. If \<open>ResetConfirm\<close> reports completion, the token resolved to an account
  at that moment; the account's stored hash now verifies the new password, every refresh token of the account
  is revoked, the forced reset and the unclaimed import are lifted and the stored failure count is cleared,
  where that statement is answered; and no later request can confirm with the same token.
\<close>

theorem confirmed_reset_takes_effect:
  assumes ok: "ResetConfirm h e (Some (token, pw)) w = (w', PwOk r)"
    and wired: "ph_cache h = Some memory_cache" "ph_tokens h"
    and keyed: "\<forall>i x. map_of (rw_users w) i = Some x \<longrightarrow> u_id x = i"
    and kdf: "length (re_salt e) = argon2SaltLen" "HashPassword (ph_kdf h) True (re_salt e) pw (ph_pepper h) \<noteq> Inr (ph_dummy h)"
      "\<forall>x s. length (kd_idkey (ph_kdf h) x s argon2Iterations argon2Memory argon2Parallelism argon2KeyLen) = argon2KeyLen"
  shows "\<exists>u x'. mem_Get (rw_cache w) (re_clk e 9) (''reset:'' @ SHA256Hex (ph_sha h) token) = Inr u \<and> map_of (rw_users w') u = Some x' \<and>
    VerifyPassword (ph_kdf h) True (ph_dummy h) (ph_current h) pw (u_passwordHash x') (ph_pepper h) = Inr True \<and>
    \<not> u_importPending x' \<and> \<not> u_mustResetPassword x' \<and> (re_usersUp e \<longrightarrow> u_failedLoginCount x' = 0) \<and>
    (\<forall>row \<in> set (g_rows (rw_login w')). r_user row = u \<longrightarrow> r_revoked row) \<and>
    (\<forall>e2 pw2 r2. snd (ResetConfirm h e2 (Some (token, pw2)) w') \<noteq> PwOk r2)"
proof -
  let ?k = "SHA256Hex (ph_sha h) token"
  let ?w1 = "on_rlock (\<lambda>l. l\<lparr> lw_cache := fst (mem_Delete (rw_cache w) (re_clk e 9) (resetKey ?k)) \<rparr>) w"
  from ResetConfirm_ok [OF ok wired(1)] obtain u x w2 where u: "mem_Get (rw_cache w) (re_clk e 9) (resetKey ?k) = Inr u" "map_of (rw_users w) u = Some x"
    and up: "updatePassword h e (u_id x) pw ?w1 = (w2, Some (Inr ()))" and cl: "reset_cleared h e x w2 = (w', PwOk r)" .
  have id: "u_id x = u" using keyed u(2) by blast
  from updatePassword_ok [OF up wired(2,1)] id u(2) obtain hash where hash: "HashPassword (ph_kdf h) True (re_salt e) pw (ph_pepper h) = Inr hash"
    and w2: "map_of (rw_users w2) u = Some (x\<lparr> u_passwordHash := hash, u_updatedAt := re_now e \<rparr>)"
      "rw_cache w2 = drop_confirmed memory_cache (re_clk e) u (rw_cache ?w1)" "\<forall>row \<in> set (g_rows (rw_login w2)). r_user row = u \<longrightarrow> r_revoked row"
    by auto
  have v: "VerifyPassword (ph_kdf h) True (ph_dummy h) (ph_current h) pw hash (ph_pepper h) = Inr True"
    using hashed_verifies [OF hash kdf(1) _ kdf(3)] kdf(2) hash by auto
  note c = reset_cleared_ok [OF cl _ wired(1), of "x\<lparr> u_passwordHash := hash, u_updatedAt := re_now e \<rparr>", unfolded id, OF w2(1)]
  from c(1) obtain x' where x': "map_of (rw_users w') u = Some x'" "u_passwordHash x' = hash" "\<not> u_importPending x'" "\<not> u_mustResetPassword x'"
    "re_usersUp e \<longrightarrow> u_failedLoginCount x' = 0" by auto
  have "mem_view (rw_cache ?w1) (resetKey ?k) = None" by (simp add: view_ops)
  then have "mem_view (rw_cache w') (resetKey ?k) = None" using c(3) [of ?k] w2(2) drop_confirmed_forgets by simp
  then have "\<forall>e2 pw2 r2. snd (ResetConfirm h e2 (Some (token, pw2)) w') \<noteq> PwOk r2" using spent_link_refused [OF _ wired(1)] by blast
  with u(1) x' v w2(3) c(2) show ?thesis unfolding resetKey_def by auto
qed

section \<open>A sample deployment of the password endpoints\<close>

definition sample_pw_handler :: "MemoryCache PasswordHandler" where
  "sample_pw_handler = \<lparr> ph_history = True, ph_tokens = True, ph_sender = True, ph_auditLog = True, ph_cache = Some memory_cache, ph_origin = [],
     ph_pepper = [], ph_minLength = 2, ph_hibp = None, ph_kdf = sample_kdf, ph_dummy = ''d'', ph_current = ''d'', ph_sha = id, ph_uni = id \<rparr>"

definition sample_reset_env :: "(nat \<Rightarrow> bool) \<Rightarrow> reset_env" where
  "sample_reset_env acquired = \<lparr> re_byEmail = True, re_byID = True, re_acquired = acquired, re_recent = True, re_salt = replicate 16 (CHR ''s''),
     re_update = True, re_histID = None, re_histUp = True, re_tx = (\<lambda>_. True), re_usersUp = True, re_token = Some ''t'', re_clk = (\<lambda>_. 20),
     re_now = 20, re_ip = ''ip'', re_ua = ''ua'' \<rparr>"

definition sample_reset_world :: "MemoryCache reset_world" where
  "sample_reset_world = \<lparr> rw_login = on_lock (\<lambda>l. l\<lparr> lw_cache := mem_put (lw_cache l) (resetKey (SHA256Hex id ''t'')) ''u'' (20 + Hour) \<rparr>) (sample_login_world sample_account),
     rw_history = [\<lparr> ph_id = ''h'', ph_user = ''u'', ph_hash = sample_pw_hash, ph_createdAt = 1 \<rparr>], rw_mail = [] \<rparr>"

lemma sample_pw_simps [simp]:
  "ph_history sample_pw_handler" "ph_tokens sample_pw_handler" "ph_cache sample_pw_handler = Some memory_cache" "ph_pepper sample_pw_handler = []"
  "ph_minLength sample_pw_handler = 2" "ph_hibp sample_pw_handler = None" "ph_kdf sample_pw_handler = sample_kdf" "ph_dummy sample_pw_handler = ''d''"
  "ph_current sample_pw_handler = ''d''" "ph_sha sample_pw_handler = id"
  "re_byID (sample_reset_env a)" "re_acquired (sample_reset_env a) = a" "re_recent (sample_reset_env a)" "re_salt (sample_reset_env a) = replicate 16 (CHR ''s'')"
  "re_update (sample_reset_env a)" "re_histID (sample_reset_env a) = None" "re_tx (sample_reset_env a) = (\<lambda>_. True)" "re_usersUp (sample_reset_env a)"
  "re_clk (sample_reset_env a) = (\<lambda>_. 20)"
  "rw_history sample_reset_world = [\<lparr> ph_id = ''h'', ph_user = ''u'', ph_hash = sample_pw_hash, ph_createdAt = 1 \<rparr>]"
  "rw_users sample_reset_world = [(''u'', sample_account)]"
  "map_of (mc_data (rw_cache sample_reset_world)) (resetKey (SHA256Hex id ''t'')) = Some \<lparr> me_value = ''u'', me_expiresAt = 20 + Hour \<rparr>"
  by (simp_all add: sample_pw_handler_def sample_reset_env_def sample_reset_world_def mem_put_def gomap_simps)

theorem history_check_fails_open_witness:
  "updatePassword sample_pw_handler (sample_reset_env (\<lambda>_. True)) ''u'' ''pw'' sample_reset_world = (sample_reset_world, Some (Inl RecentlyUsed)) \<and>
   snd (updatePassword sample_pw_handler (sample_reset_env (\<lambda>i. i = 5)) ''u'' ''pw'' sample_reset_world) = Some (Inr ())"
proof -
  let ?p = "\<lparr> ph_id = ''h'', ph_user = ''u'', ph_hash = sample_pw_hash, ph_createdAt = 1 \<rparr>"
  have r: "ph_GetRecentByUser True (rw_history sample_reset_world) ''u'' 5 = Inr [?p]" by (simp add: ph_GetRecentByUser_def)
  have v: "VerifyPassword (ph_kdf sample_pw_handler) True (ph_dummy sample_pw_handler) (ph_current sample_pw_handler) ''pw'' (ph_hash ?p) (ph_pepper sample_pw_handler) = Inr True"
    by (simp add: sample_verify)
  note p = history_check_fails_open [OF r _ v]
  from p [of "sample_reset_env (\<lambda>_. True)"] p [of "sample_reset_env (\<lambda>i. i = 5)"] show ?thesis by simp
qed

lemma sample_confirm:
  "\<exists>w'. ResetConfirm sample_pw_handler (sample_reset_env (\<lambda>_. True)) (Some (''t'', ''new'')) sample_reset_world = (w', PwOk ''password_reset_complete'')"
proof -
  let ?e = "sample_reset_env (\<lambda>_. True)"
  have long: "\<not> int (length (runes ''new'')) < 2" by code_simp
  obtain hash where hash: "HashPassword sample_kdf True (replicate 16 (CHR ''s'')) ''new'' [] = Inr hash" by (simp add: HashPassword_def Let_def)
  have nomatch: "\<not> history_match sample_pw_handler (\<lambda>_. True) ''new'' 0 [\<lparr> ph_id = ''h'', ph_user = ''u'', ph_hash = sample_pw_hash, ph_createdAt = 1 \<rparr>]"
    by (simp add: sample_verify numeral_2_eq_2)
  have take_link: "mem_GetAndDelete (rw_cache sample_reset_world) 20 (''reset:'' @ SHA256Hex id ''t'') =
      (fst (mem_Delete (rw_cache sample_reset_world) 20 (resetKey (SHA256Hex id ''t''))), Inr ''u'')"
    unfolding resetKey_def [symmetric] by (simp add: mem_GetAndDelete_def mem_expired_def mem_Delete_def)
  have stored: "\<exists>w2. updatePassword sample_pw_handler ?e ''u'' ''new'' (on_rlock f sample_reset_world) = (w2, Some (Inr ())) \<and> map_of (rw_users w2) ''u'' \<noteq> None"
    if "lw_users (f (g_lock (rw_login sample_reset_world))) = [(''u'', sample_account)]" for f
    using that hash nomatch
    by (auto simp: updatePassword_def ph_GetRecentByUser_def us_UpdatePassword_def password_stored_def with_history_def RevokeAllTokensForUser_def
        rt_RevokeAllForUser_def lockThenWrite_def update_rows_def Let_def)
  have cleared: "\<exists>w'. reset_cleared sample_pw_handler ?e sample_account w2 = (w', PwOk ''password_reset_complete'')" for w2
    by (simp add: reset_cleared_def Let_def claim_import_def lift_forced_reset_def)
  have state: "\<not> refusedByAccountState (Some sample_account)" by (simp add: refusedByAccountState_def sample_account_def sample_user_def)
  from stored [of "\<lambda>l. l\<lparr> lw_cache := fst (mem_Delete (rw_cache sample_reset_world) 20 (resetKey (SHA256Hex id ''t''))) \<rparr>"] obtain w2 where
    w2: "updatePassword sample_pw_handler ?e ''u'' ''new''
      (on_rlock (\<lambda>l. l\<lparr> lw_cache := fst (mem_Delete (rw_cache sample_reset_world) 20 (resetKey (SHA256Hex id ''t''))) \<rparr>) sample_reset_world) = (w2, Some (Inr ()))" by auto
  from cleared obtain w' where "reset_cleared sample_pw_handler ?e sample_account w2 = (w', PwOk ''password_reset_complete'')" by blast
  with long take_link w2 state show ?thesis unfolding ResetConfirm_def by (simp add: Let_def)
qed

theorem confirmed_reset_takes_effect_witness:
  "\<exists>w' x'. ResetConfirm sample_pw_handler (sample_reset_env (\<lambda>_. True)) (Some (''t'', ''new'')) sample_reset_world = (w', PwOk ''password_reset_complete'') \<and>
     map_of (rw_users w') ''u'' = Some x' \<and> VerifyPassword sample_kdf True ''d'' ''d'' ''new'' (u_passwordHash x') [] = Inr True \<and>
     snd (ResetConfirm sample_pw_handler (sample_reset_env (\<lambda>_. True)) (Some (''t'', ''new'')) w') \<noteq> PwOk ''password_reset_complete''"
proof -
  obtain w' where ok: "ResetConfirm sample_pw_handler (sample_reset_env (\<lambda>_. True)) (Some (''t'', ''new'')) sample_reset_world = (w', PwOk ''password_reset_complete'')"
    using sample_confirm by blast
  have keyed: "\<forall>i x. map_of (rw_users sample_reset_world) i = Some x \<longrightarrow> u_id x = i" by simp
  have ne: "HashPassword sample_kdf True (replicate 16 (CHR ''s'')) ''new'' [] \<noteq> Inr ''d''" by (simp add: HashPassword_def Let_def)
  have len: "\<forall>x s. length (kd_idkey sample_kdf x s argon2Iterations argon2Memory argon2Parallelism argon2KeyLen) = argon2KeyLen"
    by (simp add: sample_kdf_def min_def argon2KeyLen_def)
  have "mem_Get (rw_cache sample_reset_world) 20 (resetKey (SHA256Hex id ''t'')) = Inr ''u''" by (simp add: mem_Get_def mem_expired_def)
  with confirmed_reset_takes_effect [OF ok _ _ keyed] ne len ok show ?thesis
    by (simp add: argon2SaltLen_def resetKey_def) blast
qed

end
