(* ===== verification/Spec2Isabelle.thy ===== *)
theory Spec2Isabelle
  imports Memory_Cache Postgres_Cache Session_Interleaving Lockout Rbac Ip_Access Rate_Limit Audit_Log Dpop Mfa_Handlers Password_Reset
begin

text \<open>
  A verification library for vault42, an authentication service written in Go. The server keeps accounts, refresh
  tokens, second factors, devices and an audit trail in PostgreSQL, short-lived keys in a cache (in process,
  PostgreSQL or Redis), and signs access tokens. A request passes the address fences, the rate limiter, the token and
  proof-of-possession middleware, and reaches a handler, which calls the services, which use the tables and the cache.

  \<^bold>\<open>How the code is represented.\<close> An instant is the number of nanoseconds since Go's zero time; every reading of the
  clock is an argument, so that no two readings are assumed equal. A Go map is an association list, a table the list
  of its rows, a byte slice or string a list of characters, an integer that may wrap one with the wrap written out.
  Errors are values of a sum type. Whether a statement, a cache call or a source of randomness answers is an
  argument of each operation, in a record named for it (\<^verbatim>\<open>login_env\<close>, \<^verbatim>\<open>mfa_env\<close>, \<^verbatim>\<open>reset_env\<close>, \<^verbatim>\<open>env\<close>). SHA-1, SHA-256,
  HMAC, Argon2id, AES-GCM, RSA and ECDSA, Unicode tables and geolocation are parameters. Log lines and exported
  metrics histograms are left out; mail is the list of messages, deferred work a queue of jobs. A request body
  arrives decoded, except for tokens and proofs, whose JSON is parsed by the model itself.

  \<^bold>\<open>Foundations.\<close>
  \<^item> \<^verbatim>\<open>Prelude\<close>: time, 64-bit integers and their decimal text, Go maps, and the locale \<^verbatim>\<open>step_invariant\<close> of runs that
    keep an invariant. \<^verbatim>\<open>Go_Text\<close>, \<^verbatim>\<open>Bytes\<close>, \<^verbatim>\<open>Base64url\<close>, \<^verbatim>\<open>Json\<close> and \<^verbatim>\<open>Json_Roundtrip\<close>: the parts of \<^verbatim>\<open>strings\<close>,
    \<^verbatim>\<open>unicode/utf8\<close>, \<^verbatim>\<open>encoding/hex\<close>, \<^verbatim>\<open>encoding/base32\<close>, \<^verbatim>\<open>encoding/base64\<close>, \<^verbatim>\<open>math/big\<close> and \<^verbatim>\<open>encoding/json\<close> the
    program uses, with their round trips.
  \<^item> \<^verbatim>\<open>Cache\<close>: the interface of \<^verbatim>\<open>internal/cache/cache.go\<close> as a record of operations and the contract \<^verbatim>\<open>ttl_cache\<close> its
    users rely on. \<^verbatim>\<open>Memory_Cache\<close> and \<^verbatim>\<open>Postgres_Cache\<close>: \<^verbatim>\<open>memory.go\<close> and \<^verbatim>\<open>postgres.go\<close>, both shown to meet the
    contract. \<^verbatim>\<open>Once_Keys\<close>: a key claimed with \<^verbatim>\<open>SetIfNotExists\<close> stays claimed until it expires.

  \<^bold>\<open>Sessions and tokens.\<close>
  \<^item> \<^verbatim>\<open>Refresh_Store\<close>: \<^verbatim>\<open>internal/repository/postgres/refresh_token.go\<close> statement by statement. Revoked families stay
    dead, erased accounts have no session, family birth and binding never change.
  \<^item> \<^verbatim>\<open>Token_Service\<close>, \<^verbatim>\<open>Roles\<close>, \<^verbatim>\<open>Fingerprint\<close>: \<^verbatim>\<open>internal/service/token.go\<close>, \<^verbatim>\<open>role_catalog.go\<close>,
    \<^verbatim>\<open>internal/crypto/fingerprint.go\<close>.
  \<^item> \<^verbatim>\<open>Session\<close>: \<^verbatim>\<open>Refresh\<close>, \<^verbatim>\<open>Logout\<close> and the reuse containment of \<^verbatim>\<open>internal/service/auth.go\<close>: a refresh succeeds only for
    a live session, within its bounds, and a legitimate one does succeed. \<^verbatim>\<open>Session_Interleaving\<close> cuts \<^verbatim>\<open>Refresh\<close> at its
    database statements: of any number of concurrent requests with one token one wins, and a thread that runs alone is
    the sequential operation.
  \<^item> \<^verbatim>\<open>Jwt\<close>, \<^verbatim>\<open>Jwt_Auth\<close>: \<^verbatim>\<open>internal/jwt\<close>, \<^verbatim>\<open>internal/crypto/jwt.go\<close>, \<^verbatim>\<open>internal/middleware/auth.go\<close>: an admitted request
    carries a signed, live token of this issuer; an issued token is accepted. \<^verbatim>\<open>Dpop\<close>: \<^verbatim>\<open>internal/crypto/dpop.go\<close> and
    \<^verbatim>\<open>internal/middleware/dpop.go\<close>: a bound token needs its key and a proof is not replayed.

  \<^bold>\<open>Signing in.\<close>
  \<^item> \<^verbatim>\<open>Password\<close>: \<^verbatim>\<open>internal/crypto/argon2.go\<close>: the stored text, its parser and bounds, and the semaphore as a step
    relation over any number of callers (memory bound, no deadlock).
  \<^item> \<^verbatim>\<open>Factors\<close>, \<^verbatim>\<open>Devices\<close>: \<^verbatim>\<open>totp.go\<close>, \<^verbatim>\<open>aes.go\<close>, \<^verbatim>\<open>hmac.go\<close>, the factor and device tables, \<^verbatim>\<open>mfa.go\<close>, the emailed code.
  \<^item> \<^verbatim>\<open>Lockout\<close>: the failure counters, address lockout and login throttle of \<^verbatim>\<open>internal/service/auth.go\<close>, over any cache
    (locale \<^verbatim>\<open>reliable_cache\<close>).
  \<^item> \<^verbatim>\<open>Login\<close>: the whole of \<^verbatim>\<open>Login\<close>, \<^verbatim>\<open>trapLogin\<close> and \<^verbatim>\<open>CompleteMFALogin\<close>: tokens only for a proved password and no owed
    factor, an honest login signs in, a challenge completes once, masked refusals look alike, with one exception.
  \<^item> \<^verbatim>\<open>Mfa_Handlers\<close>: the endpoints of \<^verbatim>\<open>internal/handler/totp.go\<close>, \<^verbatim>\<open>backup_codes.go\<close>, \<^verbatim>\<open>email_otp.go\<close>, \<^verbatim>\<open>mfa.go\<close>: a time
    step and a backup code are accepted once, a factor change ends every session.
  \<^item> \<^verbatim>\<open>Password_Reset\<close>: \<^verbatim>\<open>internal/handler/password.go\<close> and \<^verbatim>\<open>internal/service/hibp.go\<close>: a confirmed reset takes effect,
    one live link per account when requests do not overlap, what goes wrong when they do, and where the history check
    fails open.

  \<^bold>\<open>At the edge.\<close>
  \<^item> \<^verbatim>\<open>Ip_Addr\<close>, \<^verbatim>\<open>Client_Ip\<close>, \<^verbatim>\<open>Ip_Access\<close>, \<^verbatim>\<open>Rate_Limit\<close>: addresses as \<^verbatim>\<open>net\<close> reads them, the client address behind
    trusted proxies, the address and country fences, the fixed-window limiter of \<^verbatim>\<open>internal/middleware\<close>.
  \<^item> \<^verbatim>\<open>Rbac\<close>: the permissions and role tables of \<^verbatim>\<open>internal/rbac/rbac.go\<close>.
  \<^item> \<^verbatim>\<open>Audit_Events\<close>, \<^verbatim>\<open>Detector\<close>, \<^verbatim>\<open>Audit_Log\<close>: \<^verbatim>\<open>internal/audit\<close> and \<^verbatim>\<open>internal/alert\<close>: event classes, severities, scrubbing,
    alert thresholds, and the buffered logger with its flush and shutdown.

  \<^bold>\<open>Bounds and fuel.\<close> The JSON decoder takes fuel twice the length of the text plus one, and \<^verbatim>\<open>Json_Roundtrip\<close> shows
  that this is always enough. The refresh thread ends within six statements. Printing an IPv6 address takes fuel 8, one
  for each group. The refresh reaper runs at most 20 batches of 2000 rows because the code does. Every other recursion
  is structural or has a measure. Witness deployments use small tables and toy cryptography; no theorem assumes them.

  \<^bold>\<open>Not modelled.\<close> Configuration, server wiring, the command-line and recovery tools, migrations and first boot only
  build the values the models take as arguments. The admin API, sign-in with external providers, registration, profile
  and account endpoints, service documents, blobs, identities, minting and erasure are not translated; the refresh
  token table and the permissions they use are. The honeypot's decoys are parameters of the trap login. WebAuthn ceremonies, Redis, the KMS, SMTP and the bridge proxy are third-party code or
  other processes. Email templates, the front end, metrics and IP intelligence are rendering, counters and data files.
  The time an operation takes, constant-time comparison included, cannot be observed in these models.
\<close>

end
